(* ===== verification/Prelude.thy ===== *)
theory Prelude
  imports Main "HOL-Library.AList" "HOL-Library.Sublist" "HOL-Library.State_Monad"
begin

text \<open>
  The vocabulary every component shares: Go maps, the results of Go functions
  (value, error, panic), and a small weakest-precondition calculus for the state monad in
  which the controllers are written.
\<close>

named_theorems wp \<open>weakest preconditions of the monadic operations\<close>
named_theorems issues_intro \<open>which API calls an operation may issue\<close>

section \<open>Go maps\<close>

text \<open>
  A Go map is nil or a finite table. Reading and deleting are allowed on a nil map, assignment
  panics (the result \<^const>\<open>None\<close> of \<open>mset\<close>). The order of the list is the order in which
  \<^verbatim>\<open>range\<close> visits the keys: Go leaves it unspecified, and every theorem holds for every
  list, that is, for every order. A key is visited once, whatever the list holds.
\<close>

datatype ('k, 'v) gomap = NilMap | MkMap "('k \<times> 'v) list"

fun entries :: "('k, 'v) gomap \<Rightarrow> ('k \<times> 'v) list" where
  "entries NilMap = []"
| "entries (MkMap xs) = xs"

definition mget :: "('k, 'v) gomap \<Rightarrow> 'k \<Rightarrow> 'v option" where
  "mget m k = map_of (entries m) k"

definition mkeys :: "('k, 'v) gomap \<Rightarrow> 'k list" where
  "mkeys m = remdups (map fst (entries m))"

fun mdel :: "('k, 'v) gomap \<Rightarrow> 'k \<Rightarrow> ('k, 'v) gomap" where
  "mdel NilMap k = NilMap"
| "mdel (MkMap xs) k = MkMap (AList.delete k xs)"

fun mset :: "('k, 'v) gomap \<Rightarrow> 'k \<Rightarrow> 'v \<Rightarrow> ('k, 'v) gomap option" where
  "mset NilMap k v = None"
| "mset (MkMap xs) k v = Some (MkMap (AList.update k v xs))"

text \<open>Assignment to a map the program has just made, or has checked not to be nil.\<close>

definition mput :: "('k, 'v) gomap \<Rightarrow> 'k \<Rightarrow> 'v \<Rightarrow> ('k, 'v) gomap" where
  "mput m k v = MkMap (AList.update k v (entries m))"

text \<open>Reading a string-valued map without the second result: a missing key reads as the zero value.\<close>

definition mgets :: "('k, string) gomap \<Rightarrow> 'k \<Rightarrow> string" where
  "mgets m k = (case mget m k of None \<Rightarrow> [] | Some v \<Rightarrow> v)"

text \<open>\<^verbatim>\<open>reflect.DeepEqual\<close> on maps: both nil or neither, and the same keys with the same values.\<close>

definition mapEq :: "('k, 'v) gomap \<Rightarrow> ('k, 'v) gomap \<Rightarrow> bool" where
  "mapEq a b \<longleftrightarrow> (a = NilMap \<longleftrightarrow> b = NilMap) \<and>
     list_all (\<lambda>k. mget a k = mget b k) (mkeys a @ mkeys b)"

lemma mget_NilMap [simp]: "mget NilMap k = None"
  by (simp add: mget_def)

lemma mget_MkMap [simp]: "mget (MkMap xs) k = map_of xs k"
  by (simp add: mget_def)

lemma mget_mdel [simp]: "mget (mdel m k) k' = (if k' = k then None else mget m k')"
  by (cases m) (auto simp: delete_conv')

lemma mget_mput [simp]: "mget (mput m k v) k' = (if k' = k then Some v else mget m k')"
  by (simp add: mput_def mget_def update_conv')

lemma mset_eq_Some: "mset m k v = Some m' \<longleftrightarrow> m \<noteq> NilMap \<and> m' = mput m k v"
  by (cases m) (auto simp: mput_def)

lemma mset_eq_None [simp]: "mset m k v = None \<longleftrightarrow> m = NilMap"
  by (cases m) auto

lemma mput_not_nil [simp]: "mput m k v \<noteq> NilMap"
  by (simp add: mput_def)

lemma mdel_eq_NilMap [simp]: "mdel m k = NilMap \<longleftrightarrow> m = NilMap"
  by (cases m) auto

lemma set_mkeys: "set (mkeys m) = {k. mget m k \<noteq> None}"
  by (auto simp: mkeys_def mget_def map_of_eq_None_iff)

lemma distinct_mkeys [simp]: "distinct (mkeys m)"
  by (simp add: mkeys_def)

lemma in_mkeys_iff: "k \<in> set (mkeys m) \<longleftrightarrow> (\<exists>v. mget m k = Some v)"
  by (auto simp: set_mkeys)

lemma mapEq_iff:
  "mapEq a b \<longleftrightarrow> (a = NilMap \<longleftrightarrow> b = NilMap) \<and> (\<forall>k. mget a k = mget b k)"
proof -
  have "mget a k = mget b k" if "\<forall>k \<in> set (mkeys a @ mkeys b). mget a k = mget b k" for k
  proof (cases "k \<in> set (mkeys a @ mkeys b)")
    case True
    with that show ?thesis by blast
  next
    case False
    then show ?thesis by (simp add: set_mkeys)
  qed
  then show ?thesis
    unfolding mapEq_def list_all_iff by blast
qed

lemma mapEq_refl [simp]: "mapEq a a"
  by (simp add: mapEq_iff)

section \<open>Results of Go functions\<close>

text \<open>
  A Go function that returns \<^verbatim>\<open>error\<close> is modelled with result \<open>goerr + 'a\<close>, \<^const>\<open>Inl\<close> being a
  non-nil error. A function in which the source can panic (a nil-map assignment, a failed type
  assertion, a nil dereference) has result \<open>'a res\<close>: a panic is not an error value, no
  \<^verbatim>\<open>if err != nil\<close> sees it, and it unwinds to the caller of the controller.
\<close>

datatype status_reason = NotFound | Conflict | AlreadyExists | OtherReason string

datatype goerr =
    StatusError status_reason string
  | FmtError string
  | JsonError string
  | OsError string
  | DecodeError string
  | FSCMatchNotFoundError
  | UniqueFSCMatchError

datatype 'a res = Ok 'a | Err goerr | Panic string

fun IsNotFound :: "goerr \<Rightarrow> bool" where
  "IsNotFound (StatusError NotFound m) = True"
| "IsNotFound _ = False"

fun IsConflict :: "goerr \<Rightarrow> bool" where
  "IsConflict (StatusError Conflict m) = True"
| "IsConflict _ = False"

fun IsAlreadyExists :: "goerr \<Rightarrow> bool" where
  "IsAlreadyExists (StatusError AlreadyExists m) = True"
| "IsAlreadyExists _ = False"

fun of_sum :: "goerr + 'a \<Rightarrow> 'a res" where
  "of_sum (Inl e) = Err e"
| "of_sum (Inr x) = Ok x"

lemma of_sum_eq [simp]:
  "of_sum r = Err e \<longleftrightarrow> r = Inl e"
  "of_sum r = Ok x \<longleftrightarrow> r = Inr x"
  "of_sum r = Panic p \<longleftrightarrow> False"
  by (cases r; simp)+

section \<open>The state monad and its weakest preconditions\<close>

abbreviation ret :: "'a \<Rightarrow> ('s, 'a) state" where
  "ret \<equiv> State_Monad.return"

definition wpre :: "('s, 'a) state \<Rightarrow> ('a \<Rightarrow> 's \<Rightarrow> bool) \<Rightarrow> 's \<Rightarrow> bool" where
  "wpre m Q s = (case run_state m s of (a, s') \<Rightarrow> Q a s')"

lemma wp_ret [wp]: "wpre (ret x) Q s = Q x s"
  by (simp add: wpre_def)

lemma wp_bind [wp]: "wpre (State_Monad.bind m f) Q s = wpre m (\<lambda>a. wpre (f a) Q) s"
  by (simp add: wpre_def split: prod.splits)

lemma wp_get [wp]: "wpre State_Monad.get Q s = Q s s"
  by (simp add: wpre_def)

lemma wp_set [wp]: "wpre (State_Monad.set t) Q s = Q () t"
  by (simp add: wpre_def)

lemma wp_update [wp]: "wpre (State_Monad.update f) Q s = Q () (f s)"
  by (simp add: wpre_def State_Monad.update_def)

lemma wp_mono: "wpre m P s \<Longrightarrow> (\<And>a t. P a t \<Longrightarrow> Q a t) \<Longrightarrow> wpre m Q s"
  by (auto simp: wpre_def split: prod.splits)

lemma wp_conj: "wpre m P s \<Longrightarrow> wpre m Q s \<Longrightarrow> wpre m (\<lambda>a t. P a t \<and> Q a t) s"
  by (auto simp: wpre_def split: prod.splits)

lemma wp_runD: "wpre m Q s \<Longrightarrow> run_state m s = (a, t) \<Longrightarrow> Q a t"
  by (simp add: wpre_def)

lemma wp_runI: "(\<And>a t. run_state m s = (a, t) \<Longrightarrow> Q a t) \<Longrightarrow> wpre m Q s"
  by (cases "run_state m s") (simp add: wpre_def)

text \<open>A step whose result does not matter.\<close>

lemma wp_any: "(\<And>a t. Q a t) \<Longrightarrow> wpre m Q s"
  by (simp add: wpre_def split: prod.splits)

lemma wp_sum_any:
  "(\<And>e t. Q (Inl e) t) \<Longrightarrow> (\<And>x t. Q (Inr x) t) \<Longrightarrow> wpre m Q s"
  by (rule wp_any) (metis sumE)

lemma wp_res_any:
  "(\<And>x t. Q (Ok x) t) \<Longrightarrow> (\<And>e t. Q (Err e) t) \<Longrightarrow> (\<And>p t. Q (Panic p) t) \<Longrightarrow> wpre m Q s"
  by (rule wp_any) (metis res.exhaust)

lemma wp_trivial [simp]: "wpre m (\<lambda>_ _. True) s"
  by (simp add: wpre_def split: prod.splits)

lemma wp_case_sum [wp]:
  "wpre (case r of Inl e \<Rightarrow> f e | Inr x \<Rightarrow> g x) Q s =
     (case r of Inl e \<Rightarrow> wpre (f e) Q s | Inr x \<Rightarrow> wpre (g x) Q s)"
  by (cases r) simp_all

lemma wp_case_res [wp]:
  "wpre (case r of Ok x \<Rightarrow> f x | Err e \<Rightarrow> g e | Panic p \<Rightarrow> h p) Q s =
     (case r of Ok x \<Rightarrow> wpre (f x) Q s | Err e \<Rightarrow> wpre (g e) Q s | Panic p \<Rightarrow> wpre (h p) Q s)"
  by (cases r) simp_all

lemma wp_case_option [wp]:
  "wpre (case r of None \<Rightarrow> f | Some x \<Rightarrow> g x) Q s =
     (case r of None \<Rightarrow> wpre f Q s | Some x \<Rightarrow> wpre (g x) Q s)"
  by (cases r) simp_all

lemma wp_if [wp]:
  "wpre (if b then m else n) Q s = (if b then wpre m Q s else wpre n Q s)"
  by simp

lemma wp_let [wp]: "wpre (let x = t in f x) Q s = (let x = t in wpre (f x) Q s)"
  by (simp add: Let_def)

lemma wp_case_prod [wp]:
  "wpre (case p of (x, y) \<Rightarrow> f x y) Q s = (case p of (x, y) \<Rightarrow> wpre (f x y) Q s)"
  by (cases p) simp

end
