(* ===== verification/Gostd.thy ===== *)
theory Gostd
  imports Prelude
begin

text \<open>
  The functions of Go's standard library that the sources call on strings. A Go string is a
  sequence of bytes, as is a HOL \<^typ>\<open>string\<close>.
\<close>

definition HasPrefix :: "string \<Rightarrow> string \<Rightarrow> bool" where
  "HasPrefix s p \<longleftrightarrow> take (length p) s = p"

definition HasSuffix :: "string \<Rightarrow> string \<Rightarrow> bool" where
  "HasSuffix s p \<longleftrightarrow> length p \<le> length s \<and> drop (length s - length p) s = p"

text \<open>\<^verbatim>\<open>strings.Split\<close> for a separator of one byte: at least one part, and one more per separator.\<close>

fun split_acc :: "char \<Rightarrow> string \<Rightarrow> string \<Rightarrow> string list" where
  "split_acc c acc [] = [rev acc]"
| "split_acc c acc (x # xs) =
     (if x = c then rev acc # split_acc c [] xs else split_acc c (x # acc) xs)"

definition Split :: "string \<Rightarrow> char \<Rightarrow> string list" where
  "Split s c = split_acc c [] s"

fun intercalate :: "char \<Rightarrow> string list \<Rightarrow> string" where
  "intercalate c [] = []"
| "intercalate c [x] = x"
| "intercalate c (x # y # ys) = x @ c # intercalate c (y # ys)"

text \<open>
  The width of the first UTF-8 sequence of a string, 1 for an invalid byte
  (\<^verbatim>\<open>utf8.DecodeRuneInString\<close>).
\<close>

definition cont :: "char \<Rightarrow> bool" where
  "cont c \<longleftrightarrow> 128 \<le> (of_char c :: nat) \<and> (of_char c :: nat) \<le> 191"

definition between :: "nat \<Rightarrow> nat \<Rightarrow> char \<Rightarrow> bool" where
  "between lo hi c \<longleftrightarrow> lo \<le> (of_char c :: nat) \<and> (of_char c :: nat) \<le> hi"

fun runeLen :: "string \<Rightarrow> nat" where
  "runeLen [] = 0"
| "runeLen (a # s) =
     (if between 194 223 a then (case s of b # _ \<Rightarrow> if cont b then 2 else 1 | _ \<Rightarrow> 1)
      else if between 224 239 a then
        (case s of b # c # _ \<Rightarrow>
           if (if between 224 224 a then between 160 191 b
               else if between 237 237 a then between 128 159 b else cont b) \<and> cont c
           then 3 else 1
         | _ \<Rightarrow> 1)
      else if between 240 244 a then
        (case s of b # c # d # _ \<Rightarrow>
           if (if between 240 240 a then between 144 191 b
               else if between 244 244 a then between 128 143 b else cont b) \<and> cont c \<and> cont d
           then 4 else 1
         | _ \<Rightarrow> 1)
      else 1)"

lemma runeLen_pos: "s \<noteq> [] \<Longrightarrow> 0 < runeLen s"
  by (cases s) (auto split: list.splits)

function insertBetween :: "string \<Rightarrow> string \<Rightarrow> string" where
  "insertBetween new s =
     (if s = [] then [] else take (runeLen s) s @ new @ insertBetween new (drop (runeLen s) s))"
  by pat_completeness auto
termination
  by (relation "measure (\<lambda>(new, s). length s)") (auto simp: runeLen_pos)

fun replaceNE :: "string \<Rightarrow> string \<Rightarrow> string \<Rightarrow> string" where
  "replaceNE old new [] = []"
| "replaceNE old new (c # s) =
     (if HasPrefix (c # s) old then new @ replaceNE old new (drop (length old - 1) s)
      else c # replaceNE old new s)"

text \<open>
  \<^verbatim>\<open>strings.ReplaceAll\<close>: non-overlapping occurrences from the left; an empty \<open>old\<close> matches at
  the beginning and after each UTF-8 sequence.
\<close>

definition ReplaceAll :: "string \<Rightarrow> string \<Rightarrow> string \<Rightarrow> string" where
  "ReplaceAll s old new =
     (if old = new then s else if old = [] then new @ insertBetween new s else replaceNE old new s)"

text \<open>Decimal and hexadecimal printing of integers (\<^verbatim>\<open>%d\<close>, \<^verbatim>\<open>%x\<close>).\<close>

definition digit :: "nat \<Rightarrow> char" where
  "digit n = ''0123456789abcdef'' ! n"

fun natBase :: "nat \<Rightarrow> nat \<Rightarrow> string" where
  "natBase b n = (if n < b \<or> b < 2 then [digit n] else natBase b (n div b) @ [digit (n mod b)])"

definition hexInt :: "int \<Rightarrow> string" where
  "hexInt i = (if i < 0 then ''-'' @ natBase 16 (nat (- i)) else natBase 16 (nat i))"

declare natBase.simps [simp del] insertBetween.simps [simp del]

lemma HasPrefix_iff: "HasPrefix s p \<longleftrightarrow> prefix p s"
  unfolding HasPrefix_def by (metis append_eq_conv_conj prefix_def)

lemma HasPrefix_append [simp]: "HasPrefix (p @ s) p"
  by (simp add: HasPrefix_def)

lemma split_acc_not_Nil [simp]: "split_acc c acc s \<noteq> []"
  by (induction c acc s rule: split_acc.induct) auto

lemma Split_not_Nil [simp]: "Split s c \<noteq> []"
  by (simp add: Split_def)

lemma length_split_acc: "length (split_acc c acc s) = Suc (count_list s c)"
  by (induction c acc s rule: split_acc.induct) auto

lemma length_Split: "length (Split s c) = Suc (count_list s c)"
  by (simp add: Split_def length_split_acc)

lemma intercalate_Cons:
  "ys \<noteq> [] \<Longrightarrow> intercalate c (x # ys) = x @ c # intercalate c ys"
  by (cases ys) auto

lemma intercalate_split_acc: "intercalate c (split_acc c acc s) = rev acc @ s"
  by (induction c acc s rule: split_acc.induct) (auto simp: intercalate_Cons)

lemma intercalate_Split: "intercalate c (Split s c) = s"
  by (simp add: Split_def intercalate_split_acc)

lemma split_acc_no_sep: "c \<notin> set acc \<Longrightarrow> x \<in> set (split_acc c acc s) \<Longrightarrow> c \<notin> set x"
  by (induction c acc s rule: split_acc.induct) (auto split: if_splits)

lemma Split_no_sep: "x \<in> set (Split s c) \<Longrightarrow> c \<notin> set x"
  unfolding Split_def by (rule split_acc_no_sep) auto

lemma replaceNE_no_match:
  "(\<And>u v. s \<noteq> u @ old @ v) \<Longrightarrow> replaceNE old new s = s"
proof (induction s)
  case Nil
  then show ?case by simp
next
  case (Cons c s)
  have "\<not> HasPrefix (c # s) old"
    using Cons.prems [of "[]"] by (auto simp: HasPrefix_iff prefix_def)
  moreover have "replaceNE old new s = s"
    using Cons.prems by (intro Cons.IH) (metis append_Cons)
  ultimately show ?case by simp
qed

lemma ReplaceAll_no_match:
  "old \<noteq> [] \<Longrightarrow> (\<And>u v. s \<noteq> u @ old @ v) \<Longrightarrow> ReplaceAll s old new = s"
  by (simp add: ReplaceAll_def replaceNE_no_match)

text \<open>Decimal printing loses nothing.\<close>

definition digitsValue :: "string \<Rightarrow> nat" where
  "digitsValue s = foldl (\<lambda>n c. 10 * n + (of_char c - 48)) 0 s"

lemma digit_value: "n < 10 \<Longrightarrow> of_char (digit n) - (48 :: nat) = n"
proof -
  assume "n < 10"
  moreover have "list_all (\<lambda>n. of_char (digit n) - (48 :: nat) = n) [0..<10]" by code_simp
  ultimately show ?thesis unfolding list_all_iff by simp
qed

lemma natBase_value: "digitsValue (natBase 10 n) = n"
proof (induction n rule: less_induct)
  case (less n)
  show ?case
  proof (cases "n < 10")
    case True
    then show ?thesis by (simp add: natBase.simps [of 10 n] digitsValue_def digit_value)
  next
    case False
    with less [of "n div 10"] show ?thesis
      by (simp add: natBase.simps [of 10 n] digitsValue_def digit_value)
  qed
qed

lemma natBase_inject: "natBase 10 m = natBase 10 n \<longleftrightarrow> m = n"
  by (metis natBase_value)

end
