(* ===== verification/Json.thy ===== *)
theory Json
  imports Gostd "HOL-Library.List_Lexorder" "HOL-Library.Char_ord"
begin

text \<open>
  What the sources use of \<^verbatim>\<open>encoding/json\<close>: parsing a text into a value, decoding the value into
  the three Go types the sources pass to \<^verbatim>\<open>Unmarshal\<close>, and printing a
  \<^verbatim>\<open>FlashSystemClusterMapContent\<close> with \<^verbatim>\<open>Marshal\<close>.
\<close>

datatype json =
    JNull
  | JBool bool
  | JNum string
  | JStr string
  | JArr "json list"
  | JObj "(string \<times> json) list"

record FlashSystemClusterMapContent =
  ScPoolMap :: "(string, string) gomap"
  ContentSecret :: string

section \<open>Strings\<close>

definition cQuote :: char where "cQuote = CHR 0x22"
definition cBackslash :: char where "cBackslash = CHR 0x5C"

text \<open>The UTF-8 encoding of a code point (of U+FFFD for one that is a surrogate or too large).\<close>

definition utf8 :: "nat \<Rightarrow> string" where
  "utf8 n =
     (if n < 128 then [char_of n]
      else if n < 2048 then [char_of (192 + n div 64), char_of (128 + n mod 64)]
      else if 55296 \<le> n \<and> n < 57344 \<or> 1114111 < n then [CHR 0xEF, CHR 0xBF, CHR 0xBD]
      else if n < 65536 then
        [char_of (224 + n div 4096), char_of (128 + n div 64 mod 64), char_of (128 + n mod 64)]
      else [char_of (240 + n div 262144), char_of (128 + n div 4096 mod 64),
            char_of (128 + n div 64 mod 64), char_of (128 + n mod 64)])"

definition hexVal :: "char \<Rightarrow> nat option" where
  "hexVal c =
     (if between 48 57 c then Some (of_char c - 48)
      else if between 97 102 c then Some (of_char c - 87)
      else if between 65 70 c then Some (of_char c - 55)
      else None)"

text \<open>The four hexadecimal digits after \<^verbatim>\<open>\u\<close>.\<close>

fun hex4 :: "string \<Rightarrow> (nat \<times> string) option" where
  "hex4 (a # b # c # d # s) =
     (case (hexVal a, hexVal b, hexVal c, hexVal d) of
        (Some w, Some x, Some y, Some z) \<Rightarrow> Some (((w * 16 + x) * 16 + y) * 16 + z, s)
      | _ \<Rightarrow> None)"
| "hex4 _ = None"

text \<open>A \<^verbatim>\<open>\u\<close> escape whose digits begin the string: a surrogate pair is one code point, a lone surrogate U+FFFD.\<close>

definition uEscape :: "string \<Rightarrow> (string \<times> string) option" where
  "uEscape s =
     (case hex4 s of None \<Rightarrow> None
      | Some (n, r) \<Rightarrow>
          if 55296 \<le> n \<and> n < 56320 then
            (case r of
               b # u # r' \<Rightarrow>
                 if b = cBackslash \<and> u = CHR ''u'' then
                   (case hex4 r' of
                      Some (m, r'') \<Rightarrow>
                        if 56320 \<le> m \<and> m < 57344
                        then Some (utf8 ((n - 55296) * 1024 + (m - 56320) + 65536), r'')
                        else Some (utf8 n, r)
                    | None \<Rightarrow> Some (utf8 n, r))
                 else Some (utf8 n, r)
             | _ \<Rightarrow> Some (utf8 n, r))
          else Some (utf8 n, r))"

definition simpleEscape :: "char \<Rightarrow> char option" where
  "simpleEscape c =
     (if c = cQuote \<or> c = cBackslash \<or> c = CHR ''/'' then Some c
      else if c = CHR ''b'' then Some (CHR 0x08)
      else if c = CHR ''f'' then Some (CHR 0x0C)
      else if c = CHR ''n'' then Some (CHR 0x0A)
      else if c = CHR ''r'' then Some (CHR 0x0D)
      else if c = CHR ''t'' then Some (CHR 0x09)
      else None)"

lemma hex4_length: "hex4 s = Some (n, r) \<Longrightarrow> length r < length s"
  by (cases s rule: hex4.cases) (auto split: option.splits)

lemma uEscape_length: "uEscape s = Some (x, r) \<Longrightarrow> length r < length s"
  by (auto simp: uEscape_def split: option.splits if_splits list.splits dest!: hex4_length)

text \<open>The rest of a string literal after its opening quote: its value and what follows the closing quote.\<close>

function parseStr :: "string \<Rightarrow> (string \<times> string) option" where
  "parseStr [] = None"
| "parseStr (c # s) =
     (if c = cQuote then Some ([], s)
      else if c = cBackslash then
        (case s of [] \<Rightarrow> None
         | e # r \<Rightarrow>
             if e = CHR ''u'' then
               (case uEscape r of None \<Rightarrow> None
                | Some (x, r') \<Rightarrow>
                    (case parseStr r' of None \<Rightarrow> None | Some (y, t) \<Rightarrow> Some (x @ y, t)))
             else
               (case simpleEscape e of None \<Rightarrow> None
                | Some x \<Rightarrow>
                    (case parseStr r of None \<Rightarrow> None | Some (y, t) \<Rightarrow> Some (x # y, t))))
      else if (of_char c :: nat) < 32 then None
      else if (of_char c :: nat) < 128 then
        (case parseStr s of None \<Rightarrow> None | Some (y, t) \<Rightarrow> Some (c # y, t))
      else
        (let n = runeLen (c # s);
             x = (if n = 1 then [CHR 0xEF, CHR 0xBF, CHR 0xBD] else take n (c # s))
         in case parseStr (drop (n - 1) s) of None \<Rightarrow> None | Some (y, t) \<Rightarrow> Some (x @ y, t)))"
  by pat_completeness auto
termination
  by (relation "measure length") (auto dest!: uEscape_length)

declare parseStr.simps [simp del]

section \<open>Values\<close>

definition isWs :: "char \<Rightarrow> bool" where
  "isWs c \<longleftrightarrow> c \<in> set [CHR 0x20, CHR 0x09, CHR 0x0A, CHR 0x0D]"

definition skipWs :: "string \<Rightarrow> string" where
  "skipWs s = dropWhile isWs s"

definition isDigit :: "char \<Rightarrow> bool" where
  "isDigit c = between 48 57 c"

text \<open>The longest JSON number at the beginning of a text.\<close>

definition digits1 :: "string \<Rightarrow> (string \<times> string) option" where
  "digits1 s = (if takeWhile isDigit s = [] then None
                else Some (takeWhile isDigit s, dropWhile isDigit s))"

definition pIntPart :: "string \<Rightarrow> (string \<times> string) option" where
  "pIntPart s = (case s of c # r \<Rightarrow> if c = CHR ''0'' then Some ([c], r) else digits1 s | [] \<Rightarrow> None)"

definition pFrac :: "string \<Rightarrow> (string \<times> string) option" where
  "pFrac s =
     (case s of c # r \<Rightarrow>
        if c = CHR ''.'' then (case digits1 r of None \<Rightarrow> None | Some (d, t) \<Rightarrow> Some (c # d, t))
        else Some ([], s)
      | [] \<Rightarrow> Some ([], []))"

definition pExp :: "string \<Rightarrow> (string \<times> string) option" where
  "pExp s =
     (case s of e # r \<Rightarrow>
        if e = CHR ''e'' \<or> e = CHR ''E'' then
          (let (sg, r') = (case r of g # q \<Rightarrow> if g = CHR ''+'' \<or> g = CHR ''-'' then ([g], q) else ([], r)
                           | [] \<Rightarrow> ([], []))
           in case digits1 r' of None \<Rightarrow> None | Some (d, t) \<Rightarrow> Some (e # sg @ d, t))
        else Some ([], s)
      | [] \<Rightarrow> Some ([], []))"

definition pNum :: "string \<Rightarrow> (string \<times> string) option" where
  "pNum s =
     (let (neg, s0) = (case s of c # r \<Rightarrow> if c = CHR ''-'' then ([c], r) else ([], s) | [] \<Rightarrow> ([], []))
      in case pIntPart s0 of None \<Rightarrow> None
         | Some (i, s1) \<Rightarrow>
             (case pFrac s1 of None \<Rightarrow> None
              | Some (f, s2) \<Rightarrow>
                  (case pExp s2 of None \<Rightarrow> None
                   | Some (x, s3) \<Rightarrow> Some (neg @ i @ f @ x, s3))))"

text \<open>
  A value, the members of an object and the elements of an array. Each call consumes at least one
  character before it calls another, so the length of the text is enough fuel.
\<close>

fun pVal :: "nat \<Rightarrow> string \<Rightarrow> (json \<times> string) option"
  and pMembers :: "nat \<Rightarrow> string \<Rightarrow> ((string \<times> json) list \<times> string) option"
  and pElems :: "nat \<Rightarrow> string \<Rightarrow> (json list \<times> string) option" where
  "pVal 0 s = None"
| "pVal (Suc n) s =
     (case skipWs s of
        [] \<Rightarrow> None
      | c # r \<Rightarrow>
          if c = CHR ''{'' then
            (case skipWs r of
               [] \<Rightarrow> None
             | d # r' \<Rightarrow>
                 if d = CHR ''}'' then Some (JObj [], r')
                 else (case pMembers n r of None \<Rightarrow> None | Some (ms, t) \<Rightarrow> Some (JObj ms, t)))
          else if c = CHR ''['' then
            (case skipWs r of
               [] \<Rightarrow> None
             | d # r' \<Rightarrow>
                 if d = CHR '']'' then Some (JArr [], r')
                 else (case pElems n r of None \<Rightarrow> None | Some (xs, t) \<Rightarrow> Some (JArr xs, t)))
          else if c = cQuote then
            (case parseStr r of None \<Rightarrow> None | Some (x, t) \<Rightarrow> Some (JStr x, t))
          else if HasPrefix (c # r) ''true'' then Some (JBool True, drop 4 (c # r))
          else if HasPrefix (c # r) ''false'' then Some (JBool False, drop 5 (c # r))
          else if HasPrefix (c # r) ''null'' then Some (JNull, drop 4 (c # r))
          else (case pNum (c # r) of None \<Rightarrow> None | Some (x, t) \<Rightarrow> Some (JNum x, t)))"
| "pMembers 0 s = None"
| "pMembers (Suc n) s =
     (case skipWs s of
        [] \<Rightarrow> None
      | c # r \<Rightarrow>
          if c \<noteq> cQuote then None
          else (case parseStr r of None \<Rightarrow> None
                | Some (k, t) \<Rightarrow>
                    (case skipWs t of
                       [] \<Rightarrow> None
                     | d # t' \<Rightarrow>
                         if d \<noteq> CHR '':'' then None
                         else (case pVal n t' of None \<Rightarrow> None
                               | Some (v, u) \<Rightarrow>
                                   (case skipWs u of
                                      [] \<Rightarrow> None
                                    | e # u' \<Rightarrow>
                                        if e = CHR ''}'' then Some ([(k, v)], u')
                                        else if e = CHR '','' then
                                          (case pMembers n u' of None \<Rightarrow> None
                                           | Some (ms, w) \<Rightarrow> Some ((k, v) # ms, w))
                                        else None)))))"
| "pElems 0 s = None"
| "pElems (Suc n) s =
     (case pVal n s of None \<Rightarrow> None
      | Some (v, u) \<Rightarrow>
          (case skipWs u of
             [] \<Rightarrow> None
           | e # u' \<Rightarrow>
               if e = CHR '']'' then Some ([v], u')
               else if e = CHR '','' then
                 (case pElems n u' of None \<Rightarrow> None | Some (xs, w) \<Rightarrow> Some (v # xs, w))
               else None))"

definition parseJson :: "string \<Rightarrow> json option" where
  "parseJson s =
     (case pVal (2 * length s + 2) s of
        Some (v, t) \<Rightarrow> if skipWs t = [] then Some v else None
      | None \<Rightarrow> None)"

section \<open>Decoding into Go types\<close>

text \<open>Decoding the members of an object, in order, into a \<^verbatim>\<open>map[string]string\<close>: null is the zero value.\<close>

fun decStrMap :: "(string \<times> json) list \<Rightarrow> (string \<times> string) list \<Rightarrow> (string \<times> string) list option" where
  "decStrMap [] m = Some m"
| "decStrMap ((k, JStr v) # r) m = decStrMap r (AList.update k v m)"
| "decStrMap ((k, JNull) # r) m = decStrMap r (AList.update k [] m)"
| "decStrMap _ m = None"

text \<open>A member that repeats a key replaces the element: the decoder decodes into a zero element.\<close>

fun decStrMaps :: "(string \<times> json) list \<Rightarrow> (string \<times> (string, string) gomap) list
    \<Rightarrow> (string \<times> (string, string) gomap) list option" where
  "decStrMaps [] m = Some m"
| "decStrMaps ((k, JObj v) # r) m =
     (case decStrMap v [] of None \<Rightarrow> None | Some x \<Rightarrow> decStrMaps r (AList.update k (MkMap x) m))"
| "decStrMaps ((k, JNull) # r) m = decStrMaps r (AList.update k NilMap m)"
| "decStrMaps _ m = None"

fun decAny :: "(string \<times> json) list \<Rightarrow> (string \<times> json) list \<Rightarrow> (string \<times> json) list" where
  "decAny [] m = m"
| "decAny ((k, v) # r) m = decAny r (AList.update k v m)"

definition jsonErr :: "goerr" where
  "jsonErr = JsonError ''json: cannot unmarshal''"

text \<open>\<^verbatim>\<open>json.Unmarshal(data, &m)\<close> for \<^verbatim>\<open>m map[string]interface{}\<close> and \<^verbatim>\<open>m map[string]map[string]string\<close>.\<close>

definition Unmarshal_any :: "string \<Rightarrow> goerr + (string, json) gomap" where
  "Unmarshal_any s =
     (case parseJson s of
        Some (JObj ms) \<Rightarrow> Inr (MkMap (decAny ms []))
      | Some JNull \<Rightarrow> Inr NilMap
      | _ \<Rightarrow> Inl jsonErr)"

definition Unmarshal_strmaps :: "string \<Rightarrow> goerr + (string, (string, string) gomap) gomap" where
  "Unmarshal_strmaps s =
     (case parseJson s of
        Some (JObj ms) \<Rightarrow>
          (case decStrMaps ms [] of Some m \<Rightarrow> Inr (MkMap m) | None \<Rightarrow> Inl jsonErr)
      | Some JNull \<Rightarrow> Inr NilMap
      | _ \<Rightarrow> Inl jsonErr)"

text \<open>
  \<^verbatim>\<open>json.Unmarshal(data, &c)\<close> for \<^verbatim>\<open>c FlashSystemClusterMapContent\<close>: fields by name, ignoring case,
  other members skipped; null leaves a string and makes a map nil; a second object for the map
  field is merged into the first.
\<close>

definition lower :: "string \<Rightarrow> string" where
  "lower s = map (\<lambda>c. if between 65 90 c then char_of ((of_char c :: nat) + 32) else c) s"

fun decContent :: "(string \<times> json) list \<Rightarrow> FlashSystemClusterMapContent
    \<Rightarrow> FlashSystemClusterMapContent option" where
  "decContent [] c = Some c"
| "decContent ((k, v) # r) c =
     (if lower k = ''storageclass'' then
        (case v of
           JObj ms \<Rightarrow> (case decStrMap ms (entries (ScPoolMap c)) of
              None \<Rightarrow> None | Some m \<Rightarrow> decContent r (c\<lparr>ScPoolMap := MkMap m\<rparr>))
         | JNull \<Rightarrow> decContent r (c\<lparr>ScPoolMap := NilMap\<rparr>)
         | _ \<Rightarrow> None)
      else if lower k = ''secret'' then
        (case v of JStr x \<Rightarrow> decContent r (c\<lparr>ContentSecret := x\<rparr>) | JNull \<Rightarrow> decContent r c | _ \<Rightarrow> None)
      else decContent r c)"

definition zeroContent :: FlashSystemClusterMapContent where
  "zeroContent = \<lparr>ScPoolMap = NilMap, ContentSecret = []\<rparr>"

definition Unmarshal_content :: "string \<Rightarrow> goerr + FlashSystemClusterMapContent" where
  "Unmarshal_content s =
     (case parseJson s of
        Some (JObj ms) \<Rightarrow> (case decContent ms zeroContent of Some c \<Rightarrow> Inr c | None \<Rightarrow> Inl jsonErr)
      | Some JNull \<Rightarrow> Inr zeroContent
      | _ \<Rightarrow> Inl jsonErr)"

section \<open>Printing\<close>

definition u00 :: "char \<Rightarrow> string" where
  "u00 c = [cBackslash] @ ''u00'' @ [digit ((of_char c :: nat) div 16), digit ((of_char c :: nat) mod 16)]"

definition encAscii :: "char \<Rightarrow> string" where
  "encAscii c =
     (if c = cQuote \<or> c = cBackslash then [cBackslash, c]
      else if c = CHR 0x08 then [cBackslash, CHR ''b'']
      else if c = CHR 0x0C then [cBackslash, CHR ''f'']
      else if c = CHR 0x0A then [cBackslash, CHR ''n'']
      else if c = CHR 0x0D then [cBackslash, CHR ''r'']
      else if c = CHR 0x09 then [cBackslash, CHR ''t'']
      else if (of_char c :: nat) < 32 \<or> c \<in> set ''<>&'' then u00 c
      else [c])"

function encStr :: "string \<Rightarrow> string" where
  "encStr [] = []"
| "encStr (c # s) =
     (if (of_char c :: nat) < 128 then encAscii c @ encStr s
      else
        (let n = runeLen (c # s); r = take n (c # s) in
         (if n = 1 then [cBackslash] @ ''ufffd''
          else if r = [CHR 0xE2, CHR 0x80, CHR 0xA8] then [cBackslash] @ ''u2028''
          else if r = [CHR 0xE2, CHR 0x80, CHR 0xA9] then [cBackslash] @ ''u2029''
          else r) @ encStr (drop (n - 1) s)))"
  by pat_completeness auto
termination
  by (relation "measure length") auto

declare encStr.simps [simp del]

definition quoteStr :: "string \<Rightarrow> string" where
  "quoteStr s = cQuote # encStr s @ [cQuote]"

definition encPair :: "string \<times> string \<Rightarrow> string" where
  "encPair kv = quoteStr (fst kv) @ '':'' @ quoteStr (snd kv)"

text \<open>\<^verbatim>\<open>Marshal\<close> prints a map with its keys sorted, a nil map as null.\<close>

definition sortedEntries :: "(string, string) gomap \<Rightarrow> (string \<times> string) list" where
  "sortedEntries m = map (\<lambda>k. (k, mgets m k)) (sort (mkeys m))"

definition encMap :: "(string, string) gomap \<Rightarrow> string" where
  "encMap m =
     (case m of NilMap \<Rightarrow> ''null''
      | MkMap _ \<Rightarrow> ''{'' @ intercalate (CHR '','') (map encPair (sortedEntries m)) @ ''}'')"

definition Marshal_content :: "FlashSystemClusterMapContent \<Rightarrow> string" where
  "Marshal_content c =
     ''{'' @ quoteStr ''storageclass'' @ '':'' @ encMap (ScPoolMap c) @ '','' @
     quoteStr ''secret'' @ '':'' @ quoteStr (ContentSecret c) @ ''}''"

end
