(* ===== verification/JsonCodec.thy ===== *)
theory JsonCodec
  imports Json
begin

text \<open>
  The JSON text of an entry of the pools ConfigMap is read back as it was written, for content whose
  strings are valid UTF-8, and what is read is always valid. The section at the end states this as
  the contract the controllers rely on, and discharges it for the functions of \<open>Json\<close>.
\<close>

section \<open>Valid UTF-8\<close>

function validUtf8 :: "string \<Rightarrow> bool" where
  "validUtf8 [] = True"
| "validUtf8 (c # s) =
     (if (of_char c :: nat) < 128 then validUtf8 s
      else runeLen (c # s) \<noteq> 1 \<and> validUtf8 (drop (runeLen (c # s) - 1) s))"
  by pat_completeness auto
termination
  by (relation "measure length") auto

declare validUtf8.simps [simp del] runeLen.simps [simp del]

lemma runeLen_cases:
  assumes "runeLen s \<noteq> 1" and "s \<noteq> []"
  obtains (two) a b t where "s = a # b # t" "\<And>u. runeLen (a # b # u) = 2"
  | (three) a b c t where "s = a # b # c # t" "\<And>u. runeLen (a # b # c # u) = 3"
  | (four) a b c d t where "s = a # b # c # d # t" "\<And>u. runeLen (a # b # c # d # u) = 4"
proof -
  obtain a r where s: "s = a # r" using assms(2) by (cases s) auto
  consider (A) "between 194 223 a" | (B) "\<not> between 194 223 a" "between 224 239 a"
    | (C) "\<not> between 194 223 a" "\<not> between 224 239 a" "between 240 244 a"
    | (D) "\<not> between 194 223 a" "\<not> between 224 239 a" "\<not> between 240 244 a" by blast
  then show thesis
  proof cases
    case A
    with assms(1) s obtain b t where "r = b # t" "cont b"
      by (auto simp: runeLen.simps split: list.splits if_splits)
    with A s two show thesis by (simp add: runeLen.simps)
  next
    case B
    with assms(1) s obtain b c t where r: "r = b # c # t"
      by (auto simp: runeLen.simps split: list.splits)
    let ?P = "(if between 224 224 a then between 160 191 b
               else if between 237 237 a then between 128 159 b else cont b) \<and> cont c"
    have "?P" using assms(1) s B r by (simp add: runeLen.simps split: if_split_asm)
    then have "runeLen (a # b # c # u) = 3" for u using B by (simp add: runeLen.simps)
    with s r three show thesis by blast
  next
    case C
    with assms(1) s obtain b c d t where r: "r = b # c # d # t"
      by (auto simp: runeLen.simps split: list.splits)
    let ?P = "(if between 240 240 a then between 144 191 b
               else if between 244 244 a then between 128 143 b else cont b) \<and> cont c \<and> cont d"
    have "?P" using assms(1) s C r by (simp add: runeLen.simps split: if_split_asm)
    then have "runeLen (a # b # c # d # u) = 4" for u using C by (simp add: runeLen.simps)
    with s r four show thesis by blast
  next
    case D
    with assms(1) s show thesis by (simp add: runeLen.simps)
  qed
qed

lemma runeLen_append:
  assumes "runeLen s \<noteq> 1" and "s \<noteq> []"
  shows "runeLen (s @ x) = runeLen s" and "runeLen s \<le> length s"
    and "runeLen (take (runeLen s) s @ x) = runeLen s"
  using assms by (cases s rule: runeLen_cases; simp)+

lemma validUtf8_append: "validUtf8 x \<Longrightarrow> validUtf8 (x @ y) = validUtf8 y"
proof (induction x rule: validUtf8.induct)
  case 1
  then show ?case by simp
next
  case (2 c s)
  show ?case
  proof (cases "(of_char c :: nat) < 128")
    case True
    with 2 show ?thesis by (simp add: validUtf8.simps)
  next
    case False
    let ?n = "runeLen (c # s)"
    from False 2(3) have n: "?n \<noteq> 1" "validUtf8 (drop (?n - 1) s)" by (auto simp: validUtf8.simps)
    have le: "?n \<le> length (c # s)" using runeLen_append(2) [of "c # s"] n by simp
    have "runeLen ((c # s) @ y) = ?n"
      using runeLen_append(1) [of "c # s" y] n by simp
    moreover have "drop (?n - 1) (s @ y) = drop (?n - 1) s @ y" using le by simp
    ultimately show ?thesis using 2(2) [OF False n(2)] False n by (simp add: validUtf8.simps)
  qed
qed

lemma of_char_inv [simp]: "n < 256 \<Longrightarrow> (of_char (char_of n :: char) :: nat) = n"
  by simp

lemma mod64_less: "x div 64 = q \<Longrightarrow> x < 64 * q + b \<Longrightarrow> x mod 64 < b" for x q b :: nat
  using mult_div_mod_eq [of 64 x] by linarith

lemma validUtf8_single:
  "runeLen (c # s) = Suc (length s) \<Longrightarrow> s \<noteq> [] \<Longrightarrow> \<not> (of_char c :: nat) < 128 \<Longrightarrow> validUtf8 (c # s)"
  by (simp add: validUtf8.simps)

lemma validUtf8_three:
  "x < 16 \<Longrightarrow> y < 64 \<Longrightarrow> z < 64 \<Longrightarrow> (x = 0 \<Longrightarrow> 32 \<le> y) \<Longrightarrow> (x = 13 \<Longrightarrow> y < 32) \<Longrightarrow>
   validUtf8 [char_of (224 + x), char_of (128 + y), char_of (128 + z)]" for x y z :: nat
  by (rule validUtf8_single) (auto simp: runeLen.simps between_def cont_def)

lemma validUtf8_four:
  "x \<le> 4 \<Longrightarrow> y < 64 \<Longrightarrow> z < 64 \<Longrightarrow> w < 64 \<Longrightarrow> (x = 0 \<Longrightarrow> 16 \<le> y) \<Longrightarrow> (x = 4 \<Longrightarrow> y < 16) \<Longrightarrow>
   validUtf8 [char_of (240 + x), char_of (128 + y), char_of (128 + z), char_of (128 + w)]" for x y z w :: nat
  by (rule validUtf8_single) (auto simp: runeLen.simps between_def cont_def)

lemma validUtf8_utf8: "validUtf8 (utf8 n)"
proof -
  have m: "n div 64 mod 64 < 64" "n mod 64 < 64" "n div 4096 mod 64 < 64" by simp_all
  consider "n < 128" | "128 \<le> n" "n < 2048" | "2048 \<le> n" "55296 \<le> n \<and> n < 57344 \<or> 1114111 < n"
    | "2048 \<le> n" "n < 65536" "\<not> (55296 \<le> n \<and> n < 57344)" | "65536 \<le> n" "n \<le> 1114111" by linarith
  then show ?thesis
  proof cases
    case 1 then show ?thesis by (simp add: utf8_def validUtf8.simps)
  next
    case 2
    then have "2 \<le> n div 64" "n div 64 < 32" by auto
    with 2 m show ?thesis by (simp add: utf8_def validUtf8.simps runeLen.simps between_def cont_def)
  next
    case 3 then show ?thesis by (simp add: utf8_def validUtf8.simps runeLen.simps between_def cont_def)
  next
    case 4
    have "validUtf8 [char_of (224 + n div 4096), char_of (128 + n div 64 mod 64), char_of (128 + n mod 64)]"
    proof (rule validUtf8_three)
      show "n div 4096 = 13 \<Longrightarrow> n div 64 mod 64 < 32"
        by (rule mod64_less [of _ 13]) (use 4 in \<open>auto simp flip: div_mult2_eq\<close>)
    qed (use 4 in auto)
    with 4 show ?thesis by (auto simp: utf8_def)
  next
    case 5
    have le: "n div 262144 \<le> 4" using 5 by (simp add: div_le_dividend less_eq_div_iff_mult_less_eq)
    have "validUtf8 [char_of (240 + n div 262144), char_of (128 + n div 4096 mod 64),
        char_of (128 + n div 64 mod 64), char_of (128 + n mod 64)]"
    proof (rule validUtf8_four)
      show "n div 262144 = 4 \<Longrightarrow> n div 4096 mod 64 < 16"
        by (rule mod64_less [of _ 4]) (use 5 in \<open>auto simp flip: div_mult2_eq\<close>)
      assume "n div 262144 = 0"
      then have "n div 4096 < 64" by (simp add: div_eq_0_iff less_mult_imp_div_less)
      moreover have "16 \<le> n div 4096" using 5 by (simp add: less_eq_div_iff_mult_less_eq)
      ultimately show "16 \<le> n div 4096 mod 64" by simp
    qed (use le in simp_all)
    moreover have "utf8 n = [char_of (240 + n div 262144), char_of (128 + n div 4096 mod 64),
        char_of (128 + n div 64 mod 64), char_of (128 + n mod 64)]" using 5 by (simp add: utf8_def)
    ultimately show ?thesis by simp
  qed
qed


section \<open>Strings round trip\<close>

lemma hexVal_digit: "n < 16 \<Longrightarrow> hexVal (digit n) = Some n"
proof -
  have "list_all (\<lambda>n. hexVal (digit n) = Some n) [0..<16]" by code_simp
  then show "n < 16 \<Longrightarrow> hexVal (digit n) = Some n" by (simp add: list_all_iff)
qed

lemma digit_zero: "digit 0 = CHR ''0''"
  by (simp add: digit_def)

lemma uEscape_u00:
  assumes "(of_char c :: nat) < 128"
  shows "uEscape (CHR ''0'' # CHR ''0'' # digit (of_char c div 16) # digit (of_char c mod 16) # s) = Some ([c], s)"
proof -
  have "hexVal (CHR ''0'') = Some 0" using hexVal_digit [of 0] by (simp add: digit_zero)
  then show ?thesis
    using assms hexVal_digit [of "of_char c div 16"] hexVal_digit [of "of_char c mod 16"]
    by (simp add: uEscape_def utf8_def)
qed

lemma parseStr_simple:
  assumes "simpleEscape e = Some x" and "e \<noteq> CHR ''u''" and "parseStr r = Some (y, t)"
  shows "parseStr (cBackslash # e # r) = Some (x # y, t)"
proof -
  have "cBackslash \<noteq> cQuote" by (simp add: cQuote_def cBackslash_def)
  with assms show ?thesis by (simp add: parseStr.simps)
qed

lemma encAscii_simple:
  assumes "c \<in> set [cQuote, cBackslash, CHR 0x08, CHR 0x0C, CHR 0x0A, CHR 0x0D, CHR 0x09]"
  shows "\<exists>e. encAscii c = [cBackslash, e] \<and> simpleEscape e = Some c \<and> e \<noteq> CHR ''u''"
  using assms unfolding set_simps insert_iff empty_iff
  by (elim disjE) (simp_all add: encAscii_def simpleEscape_def cQuote_def cBackslash_def)

lemma parseStr_encAscii:
  assumes "(of_char c :: nat) < 128" and "parseStr r = Some (y, t)"
  shows "parseStr (encAscii c @ r) = Some (c # y, t)"
proof -
  let ?simple = "set [cQuote, cBackslash, CHR 0x08, CHR 0x0C, CHR 0x0A, CHR 0x0D, CHR 0x09]"
  consider "c \<in> ?simple" | "c \<notin> ?simple" "(of_char c :: nat) < 32 \<or> c \<in> set ''<>&''"
    | "c \<notin> ?simple" "\<not> (of_char c :: nat) < 32" "c \<notin> set ''<>&''" by blast
  then show ?thesis
  proof cases
    case 1
    from encAscii_simple [OF this] assms(2) show ?thesis by (auto simp: parseStr_simple)
  next
    case 2
    then have "encAscii c = u00 c" by (simp add: encAscii_def)
    with assms show ?thesis by (simp add: u00_def parseStr.simps uEscape_u00 cQuote_def cBackslash_def)
  next
    case 3
    then have "encAscii c = [c]" by (simp add: encAscii_def)
    with 3 assms show ?thesis by (simp add: parseStr.simps)
  qed
qed

lemma parseStr_rune:
  assumes "runeLen (c # s) \<noteq> 1" and "\<not> (of_char c :: nat) < 128" and "parseStr r = Some (y, t)"
  shows "parseStr (take (runeLen (c # s)) (c # s) @ r) = Some (take (runeLen (c # s)) (c # s) @ y, t)"
proof -
  let ?n = "runeLen (c # s)"
  have "?n \<noteq> 0" using runeLen_pos [of "c # s"] by simp
  then obtain m where m: "?n = Suc m" by (cases ?n) auto
  have len: "length (take m s) = m" using runeLen_append(2) [OF assms(1)] m by simp
  have "runeLen (c # take m s @ r) = Suc m" using runeLen_append(3) [OF assms(1), of r] m by simp
  moreover have "c \<noteq> cQuote" "c \<noteq> cBackslash" "\<not> (of_char c :: nat) < 32"
    using assms(2) by (auto simp: cQuote_def cBackslash_def)
  ultimately show ?thesis using assms m len by (simp add: parseStr.simps)
qed

lemma parseStr_u2028:
  assumes "parseStr r = Some (y, t)"
  shows "parseStr (cBackslash # ''u2028'' @ r) = Some ([CHR 0xE2, CHR 0x80, CHR 0xA8] @ y, t)"
    and "parseStr (cBackslash # ''u2029'' @ r) = Some ([CHR 0xE2, CHR 0x80, CHR 0xA9] @ y, t)"
proof -
  have h: "hexVal (CHR ''2'') = Some 2" "hexVal (CHR ''0'') = Some 0" "hexVal (CHR ''8'') = Some 8" "hexVal (CHR ''9'') = Some 9"
    by (simp_all add: hexVal_def between_def)
  have u: "utf8 8232 = [CHR 0xE2, CHR 0x80, CHR 0xA8]" "utf8 8233 = [CHR 0xE2, CHR 0x80, CHR 0xA9]"
    by (simp_all add: utf8_def char_of_def bit_0)
  show "parseStr (cBackslash # ''u2028'' @ r) = Some ([CHR 0xE2, CHR 0x80, CHR 0xA8] @ y, t)"
    and "parseStr (cBackslash # ''u2029'' @ r) = Some ([CHR 0xE2, CHR 0x80, CHR 0xA9] @ y, t)"
    using assms by (simp_all add: parseStr.simps uEscape_def h u cQuote_def cBackslash_def)
qed

lemma parseStr_encStr: "validUtf8 s \<Longrightarrow> parseStr (encStr s @ cQuote # r) = Some (s, r)"
proof (induction s rule: encStr.induct)
  case 1
  then show ?case by (simp add: encStr.simps parseStr.simps)
next
  case (2 c s)
  show ?case
  proof (cases "(of_char c :: nat) < 128")
    case True
    with 2 show ?thesis
      by (simp add: encStr.simps validUtf8.simps parseStr_encAscii)
  next
    case False
    let ?n = "runeLen (c # s)" and ?rest = "drop (runeLen (c # s) - 1) s"
    from False 2(3) have n: "?n \<noteq> 1" "validUtf8 ?rest" by (simp_all add: validUtf8.simps)
    have IH: "parseStr (encStr ?rest @ cQuote # r) = Some (?rest, r)"
      using 2(2) [OF False refl refl] n by simp
    have "?n \<noteq> 0" using runeLen_pos [of "c # s"] by simp
    then have cs: "c # s = take ?n (c # s) @ ?rest" by (cases ?n) simp_all
    show ?thesis
      using parseStr_rune [OF n(1) False IH] parseStr_u2028 [OF IH] cs False n
      by (auto simp: encStr.simps Let_def)
  qed
qed

lemma uEscape_valid: "uEscape s = Some (x, r) \<Longrightarrow> validUtf8 x"
  by (auto simp: uEscape_def validUtf8_utf8 split: option.splits if_splits list.splits prod.splits)

lemma simpleEscape_ascii: "simpleEscape e = Some c \<Longrightarrow> (of_char c :: nat) < 128"
  by (auto simp: simpleEscape_def cQuote_def cBackslash_def split: if_splits)

lemma validUtf8_replacement: "validUtf8 ([CHR 0xEF, CHR 0xBF, CHR 0xBD] @ y) = validUtf8 y"
proof (rule validUtf8_append)
  show "validUtf8 [CHR 0xEF, CHR 0xBF, CHR 0xBD]"
    using validUtf8_utf8 [of 55296] by (simp add: utf8_def)
qed

lemma validUtf8_rune:
  assumes "runeLen (c # s) \<noteq> 1" and "\<not> (of_char c :: nat) < 128"
  shows "validUtf8 (take (runeLen (c # s)) (c # s) @ y) = validUtf8 y"
proof (rule validUtf8_append)
  let ?n = "runeLen (c # s)"
  have "?n \<noteq> 0" using runeLen_pos [of "c # s"] by simp
  then obtain m where m: "?n = Suc m" by (cases ?n) auto
  have "runeLen (c # take m s) = Suc m" using runeLen_append(3) [OF assms(1), of "[]"] m by simp
  then show "validUtf8 (take ?n (c # s))" using assms m by (simp add: validUtf8.simps)
qed

lemma parseStr_valid: "parseStr s = Some (x, t) \<Longrightarrow> validUtf8 x"
proof (induction s arbitrary: x t rule: parseStr.induct)
  case 1
  then show ?case by (simp add: parseStr.simps)
next
  case (2 c s)
  consider "c = cQuote" | (esc) "c \<noteq> cQuote" "c = cBackslash" | (ascii) "c \<noteq> cQuote" "c \<noteq> cBackslash" "(of_char c :: nat) < 128"
    | (rune) "c \<noteq> cQuote" "c \<noteq> cBackslash" "\<not> (of_char c :: nat) < 128" by blast
  then show ?case
  proof cases
    case 1
    with 2(5) show ?thesis by (simp add: parseStr.simps validUtf8.simps)
  next
    case esc
    with 2(5) obtain e r where s: "s = e # r" by (cases s) (auto simp: parseStr.simps)
    show ?thesis
    proof (cases "e = CHR ''u''")
      case True
      with 2(5) esc s obtain x1 r' y where u: "uEscape r = Some (x1, r')" "parseStr r' = Some (y, t)" "x = x1 @ y"
        by (auto simp: parseStr.simps split: option.splits)
      have "validUtf8 y" by (rule 2(1) [OF esc s True u(1) refl u(2)])
      with u uEscape_valid [OF u(1)] show ?thesis by (simp add: validUtf8_append)
    next
      case False
      with 2(5) esc s obtain d y where u: "simpleEscape e = Some d" "parseStr r = Some (y, t)" "x = d # y"
        by (auto simp: parseStr.simps split: option.splits)
      have "validUtf8 y" by (rule 2(2) [OF esc s False u(1,2)])
      with u simpleEscape_ascii [OF u(1)] show ?thesis by (simp add: validUtf8.simps)
    qed
  next
    case ascii
    with 2(5) obtain y where y: "parseStr s = Some (y, t)" "x = c # y" "\<not> (of_char c :: nat) < 32"
      by (auto simp: parseStr.simps split: option.splits if_splits)
    have "validUtf8 y" by (rule 2(3) [OF ascii(1,2) y(3) ascii(3) y(1)])
    with ascii y show ?thesis by (simp add: validUtf8.simps)
  next
    case rune
    let ?n = "runeLen (c # s)"
    obtain y where y: "parseStr (drop (?n - 1) s) = Some (y, t)"
      "x = (if ?n = 1 then [CHR 0xEF, CHR 0xBF, CHR 0xBD] else take ?n (c # s)) @ y"
      using 2(5) rune by (auto simp: parseStr.simps Let_def split: option.splits if_splits)
    have "\<not> (of_char c :: nat) < 32" using rune(3) by simp
    then have "validUtf8 y" by (rule 2(4) [OF rune(1,2) _ rune(3) refl refl y(1)])
    with y rune validUtf8_rune [of c s y] validUtf8_replacement [of y] show ?thesis by (simp split: if_splits)
  qed
qed

section \<open>Content round trips\<close>

lemma skipWs_Cons: "\<not> isWs c \<Longrightarrow> skipWs (c # s) = c # s"
  by (simp add: skipWs_def)

lemma skipWs_sep [simp]:
  "skipWs (cQuote # s) = cQuote # s" "skipWs (CHR ''{'' # s) = CHR ''{'' # s" "skipWs (CHR ''}'' # s) = CHR ''}'' # s"
  "skipWs (CHR '','' # s) = CHR '','' # s" "skipWs (CHR '':'' # s) = CHR '':'' # s" "skipWs (CHR ''n'' # s) = CHR ''n'' # s"
  "skipWs [] = []"
  by (simp_all add: skipWs_def isWs_def cQuote_def)

lemma quote_sep [simp]:
  "cQuote \<noteq> CHR ''{''" "cQuote \<noteq> CHR ''}''" "cQuote \<noteq> CHR ''[''" "cQuote \<noteq> CHR '']''" "cQuote \<noteq> CHR '',''"
  "CHR ''{'' \<noteq> cQuote" "CHR ''}'' \<noteq> cQuote" "CHR ''['' \<noteq> cQuote" "CHR '':'' \<noteq> cQuote" "CHR '','' \<noteq> cQuote" "CHR ''n'' \<noteq> cQuote"
  by (simp_all add: cQuote_def)

lemma parse_quoteStr: "validUtf8 s \<Longrightarrow> \<exists>u. quoteStr s @ r = cQuote # u \<and> parseStr u = Some (s, r)"
  by (simp add: quoteStr_def parseStr_encStr)

lemma pVal_quoteStr: "validUtf8 s \<Longrightarrow> pVal (Suc n) (quoteStr s @ r) = Some (JStr s, r)"
  using parse_quoteStr [of s r] by auto

text \<open>One member of an object, and what follows it.\<close>

lemma pMembers_step:
  assumes "validUtf8 k" and "pVal n v = Some (x, e # u)" and "e = CHR ''}'' \<or> e = CHR '',''"
  shows "pMembers (Suc n) (quoteStr k @ '':'' @ v) =
     (if e = CHR ''}'' then Some ([(k, x)], u)
      else case pMembers n u of None \<Rightarrow> None | Some (ms, w) \<Rightarrow> Some ((k, x) # ms, w))"
  using parse_quoteStr [OF assms(1), of "'':'' @ v"] assms(2,3) by auto

lemma encPair_Pair: "encPair (k, v) = quoteStr k @ '':'' @ quoteStr v"
  by (simp add: encPair_def)

lemma pMembers_pairs:
  assumes "kvs \<noteq> []" and "\<And>k v. (k, v) \<in> set kvs \<Longrightarrow> validUtf8 k \<and> validUtf8 v" and "length kvs < n"
  shows "pMembers n (intercalate (CHR '','') (map encPair kvs) @ CHR ''}'' # r) =
     Some (map (\<lambda>(k, v). (k, JStr v)) kvs, r)"
  using assms
proof (induction kvs arbitrary: n)
  case Nil
  then show ?case by simp
next
  case (Cons kv kvs)
  obtain k v where kv: "kv = (k, v)" by fastforce
  from Cons.prems(3) obtain m where n: "n = Suc (Suc m)" by (cases n; cases "n - 1") auto
  have ok: "validUtf8 k" "validUtf8 v" using Cons.prems(2) kv by auto
  show ?case
  proof (cases "kvs = []")
    case True
    show ?thesis
      using pMembers_step [OF ok(1) pVal_quoteStr [OF ok(2)], of "CHR ''}''" m r]
      by (simp add: kv n True encPair_Pair del: pVal.simps pMembers.simps)
  next
    case False
    let ?rest = "intercalate (CHR '','') (map encPair kvs) @ CHR ''}'' # r"
    have "pMembers (Suc m) ?rest = Some (map (\<lambda>(k, v). (k, JStr v)) kvs, r)"
      using Cons.prems n False by (intro Cons.IH) auto
    then show ?thesis
      using pMembers_step [OF ok(1) pVal_quoteStr [OF ok(2)], of "CHR '',''" m ?rest] False
      by (simp add: kv n encPair_Pair intercalate_Cons del: pVal.simps pMembers.simps)
  qed
qed

lemma pVal_encMap:
  assumes "\<And>k v. (k, v) \<in> set (sortedEntries m) \<Longrightarrow> validUtf8 k \<and> validUtf8 v" and "length (sortedEntries m) < n"
  shows "pVal (Suc n) (encMap m @ r) =
    Some (case m of NilMap \<Rightarrow> JNull | MkMap _ \<Rightarrow> JObj (map (\<lambda>(k, v). (k, JStr v)) (sortedEntries m)), r)"
proof (cases m)
  case NilMap
  then show ?thesis by (simp add: encMap_def HasPrefix_def)
next
  case (MkMap xs)
  show ?thesis
  proof (cases "sortedEntries m = []")
    case True
    with MkMap show ?thesis by (simp add: encMap_def)
  next
    case False
    then obtain k v kvs where s: "sortedEntries m = (k, v) # kvs" by (cases "sortedEntries m") auto
    then have h: "\<exists>u. intercalate (CHR '','') (map encPair (sortedEntries m)) @ CHR ''}'' # r = cQuote # u"
      by (cases kvs) (simp_all add: encPair_def quoteStr_def)
    have "encMap m @ r = CHR ''{'' # (intercalate (CHR '','') (map encPair (sortedEntries m)) @ CHR ''}'' # r)"
      using MkMap by (simp add: encMap_def)
    with h pMembers_pairs [OF False assms(1) assms(2), of r] MkMap show ?thesis by auto
  qed
qed

lemma map_fst_sortedEntries: "map fst (sortedEntries m) = sort (mkeys m)"
  by (simp add: sortedEntries_def comp_def)

lemma map_of_sortedEntries: "map_of (sortedEntries m) k = mget m k"
  by (auto simp: sortedEntries_def map_of_map_restrict restrict_map_def set_mkeys mgets_def split: option.splits)

lemma sortedEntries_valid:
  "(\<And>k x. mget m k = Some x \<Longrightarrow> P k \<and> P x) \<Longrightarrow> (k, v) \<in> set (sortedEntries m) \<Longrightarrow> P k \<and> P v"
  by (auto simp: sortedEntries_def set_mkeys mgets_def)

lemma decStrMap_strings:
  "decStrMap (map (\<lambda>(k, v). (k, JStr v)) kvs) m = Some (fold (\<lambda>(k, v). AList.update k v) kvs m)"
  by (induction kvs arbitrary: m) auto

lemma map_of_fold_update:
  "distinct (map fst kvs) \<Longrightarrow>
   map_of (fold (\<lambda>(k, v). AList.update k v) kvs m) k = (case map_of kvs k of Some v \<Rightarrow> Some v | None \<Rightarrow> map_of m k)"
proof (induction kvs arbitrary: m)
  case (Cons kv kvs)
  obtain a b where "kv = (a, b)" by fastforce
  with Cons show ?case by (auto simp: update_conv' map_of_eq_None_iff image_iff split: option.splits)
qed simp

lemma intercalate_length: "length xs \<le> Suc (length (intercalate c xs))"
  by (induction c xs rule: intercalate.induct) auto

lemma encMap_length: "length (sortedEntries m) \<le> length (encMap m)"
proof (cases m)
  case NilMap
  then show ?thesis by (simp add: sortedEntries_def mkeys_def)
next
  case (MkMap xs)
  then show ?thesis using intercalate_length [of "map encPair (sortedEntries m)" "CHR '',''"] by (simp add: encMap_def)
qed

lemma valid_names: "validUtf8 ''storageclass''" "validUtf8 ''secret''"
  by (simp_all add: validUtf8.simps)

lemma parse_Marshal_content:
  assumes "validUtf8 (ContentSecret c)" and "\<And>k x. mget (ScPoolMap c) k = Some x \<Longrightarrow> validUtf8 k \<and> validUtf8 x"
  shows "parseJson (Marshal_content c) = Some (JObj [(''storageclass'',
      case ScPoolMap c of NilMap \<Rightarrow> JNull | MkMap _ \<Rightarrow> JObj (map (\<lambda>(k, v). (k, JStr v)) (sortedEntries (ScPoolMap c)))),
      (''secret'', JStr (ContentSecret c))])"
    (is "_ = Some (JObj [(_, ?m), _])")
proof -
  let ?b = "quoteStr ''secret'' @ '':'' @ quoteStr (ContentSecret c) @ ''}''"
  let ?a = "quoteStr ''storageclass'' @ '':'' @ encMap (ScPoolMap c) @ CHR '','' # ?b"
  have src: "Marshal_content c = CHR ''{'' # ?a" by (simp add: Marshal_content_def)
  obtain f where f: "2 * length (Marshal_content c) + 2 = Suc (Suc (Suc (Suc f)))" "length (sortedEntries (ScPoolMap c)) < Suc f"
    using encMap_length [of "ScPoolMap c"] src by (auto intro!: that [of "2 * length ?a"])
  have m: "pVal (Suc (Suc f)) (encMap (ScPoolMap c) @ CHR '','' # ?b) = Some (?m, CHR '','' # ?b)"
    by (rule pVal_encMap) (use sortedEntries_valid [of "ScPoolMap c" validUtf8] assms(2) f(2) in auto)
  have b: "pMembers (Suc (Suc f)) ?b = Some ([(''secret'', JStr (ContentSecret c))], [])"
    using pMembers_step [OF valid_names(2) pVal_quoteStr [OF assms(1), of f "''}''"]] by simp
  have "pMembers (Suc (Suc (Suc f))) ?a = Some ([(''storageclass'', ?m), (''secret'', JStr (ContentSecret c))], [])"
    using pMembers_step [OF valid_names(1) m] b by simp
  moreover have "\<exists>u. ?a = cQuote # u" by (simp add: quoteStr_def)
  ultimately have "pVal (Suc (Suc (Suc (Suc f)))) (Marshal_content c) =
      Some (JObj [(''storageclass'', ?m), (''secret'', JStr (ContentSecret c))], [])"
    unfolding src by (auto simp del: pMembers.simps)
  then show ?thesis unfolding parseJson_def f(1) by (simp del: pVal.simps)
qed

lemma lower_names: "lower ''storageclass'' = ''storageclass''" "lower ''secret'' = ''secret''"
  by code_simp+

lemma Unmarshal_Marshal:
  assumes "validUtf8 (ContentSecret c)" and "\<And>k x. mget (ScPoolMap c) k = Some x \<Longrightarrow> validUtf8 k \<and> validUtf8 x"
  shows "\<exists>c'. Unmarshal_content (Marshal_content c) = Inr c' \<and> ContentSecret c' = ContentSecret c \<and>
     mapEq (ScPoolMap c) (ScPoolMap c')"
proof (cases "ScPoolMap c")
  case NilMap
  then show ?thesis
    using parse_Marshal_content [OF assms] by (simp add: Unmarshal_content_def lower_names zeroContent_def)
next
  case (MkMap xs)
  have d: "distinct (map fst (sortedEntries (ScPoolMap c)))" by (simp add: map_fst_sortedEntries)
  have "Unmarshal_content (Marshal_content c) = Inr \<lparr>ScPoolMap = MkMap (fold (\<lambda>(k, v). AList.update k v)
      (sortedEntries (ScPoolMap c)) []), ContentSecret = ContentSecret c\<rparr>"
    using parse_Marshal_content [OF assms] MkMap
    by (simp add: Unmarshal_content_def lower_names zeroContent_def decStrMap_strings)
  then show ?thesis
    using MkMap map_of_fold_update [OF d, of "[]"]
    by (auto simp: mapEq_iff map_of_sortedEntries split: option.splits)
qed

section \<open>What is read is valid\<close>

fun okJson :: "json \<Rightarrow> bool" where
  "okJson (JStr s) = validUtf8 s"
| "okJson (JArr xs) = (\<forall>x \<in> set xs. okJson x)"
| "okJson (JObj ms) = (\<forall>kv \<in> set ms. validUtf8 (fst kv) \<and> okJson (snd kv))"
| "okJson _ = True"

lemma pMembers_inv:
  assumes "pMembers (Suc n) s = Some (ms, t)"
  shows "\<exists>r k t1 t2 v u. parseStr r = Some (k, t1) \<and> pVal n t2 = Some (v, u) \<and>
    (ms = [(k, v)] \<or> (\<exists>u' ms'. pMembers n u' = Some (ms', t) \<and> ms = (k, v) # ms'))"
  using assms by (simp split: list.split_asm if_split_asm option.split_asm prod.split_asm) blast+

lemma pElems_inv:
  assumes "pElems (Suc n) s = Some (xs, t)"
  shows "\<exists>v u. pVal n s = Some (v, u) \<and> (xs = [v] \<or> (\<exists>u' ys. pElems n u' = Some (ys, t) \<and> xs = v # ys))"
  using assms by (simp split: list.split_asm if_split_asm option.split_asm prod.split_asm) blast+

lemma pVal_inv:
  assumes "pVal (Suc n) s = Some (v, t)"
  shows "(\<exists>r ms. pMembers n r = Some (ms, t) \<and> v = JObj ms) \<or> (\<exists>r xs. pElems n r = Some (xs, t) \<and> v = JArr xs) \<or>
    (\<exists>r x. parseStr r = Some (x, t) \<and> v = JStr x) \<or> v \<in> {JObj [], JArr [], JBool True, JBool False, JNull} \<or> (\<exists>x. v = JNum x)"
  using assms by (simp split: list.split_asm if_split_asm option.split_asm prod.split_asm) blast+

lemma parse_ok:
  "(\<forall>s v t. pVal n s = Some (v, t) \<longrightarrow> okJson v) \<and>
   (\<forall>s ms t. pMembers n s = Some (ms, t) \<longrightarrow> (\<forall>kv \<in> set ms. validUtf8 (fst kv) \<and> okJson (snd kv))) \<and>
   (\<forall>s xs t. pElems n s = Some (xs, t) \<longrightarrow> (\<forall>x \<in> set xs. okJson x))"
proof (induction n)
  case 0
  then show ?case by simp
next
  case (Suc n)
  have "okJson v" if "pVal (Suc n) s = Some (v, t)" for s v t
    using pVal_inv [OF that] Suc parseStr_valid by fastforce
  moreover have "\<forall>kv \<in> set ms. validUtf8 (fst kv) \<and> okJson (snd kv)" if "pMembers (Suc n) s = Some (ms, t)" for s ms t
    using pMembers_inv [OF that] Suc parseStr_valid by fastforce
  moreover have "\<forall>x \<in> set xs. okJson x" if "pElems (Suc n) s = Some (xs, t)" for s xs t
    using pElems_inv [OF that] Suc by fastforce
  ultimately show ?case by blast
qed

lemma decStrMap_valid:
  "decStrMap ms m = Some m' \<Longrightarrow> \<forall>kv \<in> set ms. validUtf8 (fst kv) \<and> okJson (snd kv) \<Longrightarrow>
   (\<And>k x. map_of m k = Some x \<Longrightarrow> validUtf8 k \<and> validUtf8 x) \<Longrightarrow> map_of m' k = Some x \<Longrightarrow> validUtf8 k \<and> validUtf8 x"
proof (induction ms m rule: decStrMap.induct)
  case 1
  then show ?case by simp
next
  case (2 k' v r m)
  from 2(2-) show ?case by (intro 2(1)) (auto simp: update_conv' split: if_splits)
next
  case (3 k' r m)
  from 3(2-) show ?case by (intro 3(1)) (auto simp: update_conv' validUtf8.simps split: if_splits)
qed simp_all


lemma decContent_valid:
  assumes "decContent ms c = Some c'" and "\<forall>kv \<in> set ms. validUtf8 (fst kv) \<and> okJson (snd kv)"
    and "validUtf8 (ContentSecret c)" "\<And>k x. mget (ScPoolMap c) k = Some x \<Longrightarrow> validUtf8 k \<and> validUtf8 x"
  shows "validUtf8 (ContentSecret c') \<and> (\<forall>k x. mget (ScPoolMap c') k = Some x \<longrightarrow> validUtf8 k \<and> validUtf8 x)"
  using assms
proof (induction ms c rule: decContent.induct)
  case 1
  then show ?case by simp
next
  case (2 k v r c)
  consider (map) ms m where "lower k = ''storageclass''" "v = JObj ms" "decStrMap ms (entries (ScPoolMap c)) = Some m"
      "decContent r (c\<lparr>ScPoolMap := MkMap m\<rparr>) = Some c'"
    | (null) "decContent r (c\<lparr>ScPoolMap := NilMap\<rparr>) = Some c'" "lower k = ''storageclass''" "v = JNull"
    | (secret) x where "lower k \<noteq> ''storageclass''" "lower k = ''secret''" "v = JStr x" "decContent r (c\<lparr>ContentSecret := x\<rparr>) = Some c'"
    | (other) "decContent r c = Some c'" "lower k \<noteq> ''storageclass''" "lower k = ''secret'' \<and> v = JNull \<or> lower k \<noteq> ''secret''"
    using 2(6) by (auto split: if_splits json.splits option.splits)
  then show ?case
  proof cases
    case map
    have "validUtf8 a \<and> validUtf8 b" if "map_of m a = Some b" for a b
      using map(2) 2(7,9) by (intro decStrMap_valid [OF map(3) _ _ that]) (auto simp: mget_def)
    with map 2(7,8) show ?thesis by (intro 2(2) [OF map(1,2,3)]) auto
  next
    case null
    with 2(7,8) show ?thesis by (intro 2(1) [OF null(2,3,1)]) auto
  next
    case secret
    with 2(7,9) show ?thesis by (intro 2(4) [OF secret]) auto
  next
    case other
    with 2(3,5,7,8,9) show ?thesis by auto
  qed
qed

lemma Unmarshal_valid:
  assumes "Unmarshal_content s = Inr c"
  shows "validUtf8 (ContentSecret c) \<and> (\<forall>k x. mget (ScPoolMap c) k = Some x \<longrightarrow> validUtf8 k \<and> validUtf8 x)"
proof (cases "parseJson s")
  case (Some v)
  then obtain n t where "pVal n s = Some (v, t)" by (auto simp: parseJson_def simp del: pVal.simps split: option.splits if_splits)
  then have ok: "okJson v" using parse_ok [of n] by blast
  from assms Some consider ms where "v = JObj ms" "decContent ms zeroContent = Some c" | "c = zeroContent"
    by (auto simp: Unmarshal_content_def split: json.splits option.splits)
  then show ?thesis
  proof cases
    case (1 ms)
    then show ?thesis using ok
      by (intro decContent_valid [OF 1(2)]) (auto simp: zeroContent_def validUtf8.simps)
  qed (simp add: zeroContent_def validUtf8.simps)
qed (use assms in \<open>simp add: Unmarshal_content_def\<close>)

section \<open>The contract of the codec\<close>

definition okContent :: "(string \<Rightarrow> bool) \<Rightarrow> FlashSystemClusterMapContent \<Rightarrow> bool" where
  "okContent valid c \<longleftrightarrow> valid (ContentSecret c) \<and> (\<forall>k x. mget (ScPoolMap c) k = Some x \<longrightarrow> valid k \<and> valid x)"

definition contentEq :: "FlashSystemClusterMapContent \<Rightarrow> FlashSystemClusterMapContent \<Rightarrow> bool" where
  "contentEq a b \<longleftrightarrow> ContentSecret a = ContentSecret b \<and> mapEq (ScPoolMap a) (ScPoolMap b)"

locale content_codec =
  fixes enc :: "FlashSystemClusterMapContent \<Rightarrow> goerr + string"
    and dec :: "string \<Rightarrow> goerr + FlashSystemClusterMapContent"
    and valid :: "string \<Rightarrow> bool"
  assumes round: "okContent valid c \<Longrightarrow> enc c = Inr s \<Longrightarrow> \<exists>c'. dec s = Inr c' \<and> contentEq c c'"
    and dec_ok: "dec s = Inr c \<Longrightarrow> okContent valid c"
begin

lemma dec_enc:
  assumes "okContent valid c" and "enc c = Inr s"
  obtains c' where "dec s = Inr c'" "ContentSecret c' = ContentSecret c" "mget (ScPoolMap c') = mget (ScPoolMap c)"
  using round [OF assms] by (auto simp: contentEq_def mapEq_iff fun_eq_iff)

text \<open>Reading an entry, removing or setting the pool of a storage class, and writing it back.\<close>

lemma dec_enc_mdel:
  assumes "dec s = Inr c" and "enc (c\<lparr>ScPoolMap := mdel (ScPoolMap c) k\<rparr>) = Inr s'"
  obtains c' where "dec s' = Inr c'" "ContentSecret c' = ContentSecret c"
    "mget (ScPoolMap c') = (mget (ScPoolMap c))(k := None)"
proof -
  have "okContent valid (c\<lparr>ScPoolMap := mdel (ScPoolMap c) k\<rparr>)"
    using dec_ok [OF assms(1)] by (auto simp: okContent_def split: if_splits)
  from this assms(2) obtain c' where "dec s' = Inr c'" "ContentSecret c' = ContentSecret c"
    "mget (ScPoolMap c') = mget (mdel (ScPoolMap c) k)"
    by (rule dec_enc) simp
  then show thesis by (intro that) (auto simp: fun_eq_iff)
qed

lemma dec_enc_mput:
  assumes "dec s = Inr c" and "enc (c\<lparr>ScPoolMap := mput (ScPoolMap c) k x\<rparr>) = Inr s'" and "valid k" "valid x"
  obtains c' where "dec s' = Inr c'" "ContentSecret c' = ContentSecret c"
    "mget (ScPoolMap c') = (mget (ScPoolMap c))(k := Some x)"
proof -
  have "okContent valid (c\<lparr>ScPoolMap := mput (ScPoolMap c) k x\<rparr>)"
    using dec_ok [OF assms(1)] assms(3,4) by (auto simp: okContent_def split: if_splits)
  from this assms(2) obtain c' where "dec s' = Inr c'" "ContentSecret c' = ContentSecret c"
    "mget (ScPoolMap c') = mget (mput (ScPoolMap c) k x)"
    by (rule dec_enc) simp
  then show thesis by (intro that) (auto simp: fun_eq_iff)
qed

end

interpretation json: content_codec "\<lambda>c. Inr (Marshal_content c)" Unmarshal_content validUtf8
proof unfold_locales
  show "\<exists>c'. Unmarshal_content s = Inr c' \<and> contentEq c c'"
    if "okContent validUtf8 c" "Inr (Marshal_content c) = (Inr s :: goerr + string)" for c s
    using Unmarshal_Marshal [of c] that by (auto simp: okContent_def contentEq_def)
  show "okContent validUtf8 c" if "Unmarshal_content s = Inr c" for s c
    using Unmarshal_valid [OF that] by (simp add: okContent_def)
qed

end
