(* ===== verification/JsonFuel.thy ===== *)
theory JsonFuel
  imports JsonCodec
begin

text \<open>
  The fuel of the JSON parser never runs out: every parse consumes a part of the text, and with at least
  the fuel that \<^const>\<open>parseJson\<close> starts with, the result does not depend on the fuel.
\<close>

lemma skipWs_length: "length (skipWs s) \<le> length s"
  by (simp add: skipWs_def length_dropWhile_le)

lemma skipWs_ConsD: "skipWs s = c # r \<Longrightarrow> length r < length s"
  using skipWs_length [of s] by simp

lemma parseStr_length: "parseStr s = Some (x, t) \<Longrightarrow> length t < length s"
proof (induction s arbitrary: x t rule: measure_induct_rule [where f = length])
  case (less s)
  show ?case
  proof (cases s)
    case Nil
    with less.prems show ?thesis by (simp add: parseStr.simps)
  next
    case (Cons c r)
    have IH: "length t < length s" if "parseStr r' = Some (y, t)" "length r' < length s" for r' y
      using less.IH [OF that(2,1)] that(2) by simp
    note p = less.prems [unfolded Cons parseStr.simps(2)]
    consider "c = cQuote" | "c \<noteq> cQuote" "c = cBackslash" | "c \<noteq> cQuote" "c \<noteq> cBackslash" by blast
    then show ?thesis
    proof cases
      case 2
      then obtain e q where r: "r = e # q" using p by (cases r) simp_all
      show ?thesis
      proof (cases "e = CHR ''u''")
        case True
        with p 2 r obtain z q' y where "uEscape q = Some (z, q')" "parseStr q' = Some (y, t)"
          by (auto split: option.splits)
        then show ?thesis using IH [of q' y] uEscape_length [of q z q'] Cons r by simp
      next
        case False
        with p 2 r obtain y where "parseStr q = Some (y, t)" by (auto split: option.splits)
        then show ?thesis using IH [of q y] Cons r by simp
      qed
    next
      case 3
      then obtain y k where "parseStr (drop k r) = Some (y, t)"
        using p by (auto simp: Let_def split: option.splits if_splits) (metis drop0)+
      then show ?thesis using IH [of "drop k r" y] Cons by simp
    qed (use p Cons in simp)
  qed
qed

lemma digits1_length: "digits1 s = Some (x, t) \<Longrightarrow> length t < length s"
proof (cases s)
  case (Cons c r)
  moreover assume "digits1 s = Some (x, t)"
  ultimately show ?thesis
    using length_dropWhile_le [of isDigit r] by (auto simp: digits1_def split: if_splits)
qed (simp add: digits1_def)

lemma pIntPart_length: "pIntPart s = Some (x, t) \<Longrightarrow> length t < length s"
  by (auto simp: pIntPart_def split: list.splits if_splits dest: digits1_length)

lemma pFrac_length: "pFrac s = Some (x, t) \<Longrightarrow> length t \<le> length s"
  by (auto simp: pFrac_def split: list.splits if_splits option.splits dest!: digits1_length)

lemma pExp_length: "pExp s = Some (x, t) \<Longrightarrow> length t \<le> length s"
  by (auto simp: pExp_def Let_def split: list.splits if_splits option.splits prod.splits dest!: digits1_length)

lemma pNum_length: "pNum s = Some (x, t) \<Longrightarrow> length t < length s"
  by (fastforce simp: pNum_def split: list.splits if_splits option.splits prod.splits
    dest!: pIntPart_length pFrac_length pExp_length)

lemma pVal_length_step:
  assumes "\<And>s ms t. pMembers n s = Some (ms, t) \<Longrightarrow> length t < length s"
    and "\<And>s xs t. pElems n s = Some (xs, t) \<Longrightarrow> length t < length s"
    and "pVal (Suc n) s = Some (v, t)"
  shows "length t < length s"
proof (cases "skipWs s")
  case Nil
  with assms(3) show ?thesis by simp
next
  case (Cons c r)
  have r: "length r < length s" by (rule skipWs_ConsD [OF Cons])
  have ws: "length q < length r" if "skipWs r = d # q" for d q by (rule skipWs_ConsD [OF that])
  note p = assms(3) [unfolded pVal.simps(2) Cons list.case]
  have "length t \<le> length r"
  proof (cases "c = CHR ''{'' \<or> c = CHR ''['' \<or> c = cQuote")
    case True
    with p show ?thesis
      by (auto split: if_splits list.splits option.splits dest!: assms(1,2) parseStr_length ws)
  next
    case False
    with p have "t = drop 4 (c # r) \<or> t = drop 5 (c # r) \<or> (\<exists>x. pNum (c # r) = Some (x, t))"
      by (auto split: if_splits option.splits)
    then show ?thesis by (auto dest: pNum_length)
  qed
  with r show ?thesis by simp
qed

lemma parse_length:
  "(\<forall>s v t. pVal n s = Some (v, t) \<longrightarrow> length t < length s) \<and>
   (\<forall>s ms t. pMembers n s = Some (ms, t) \<longrightarrow> length t < length s) \<and>
   (\<forall>s xs t. pElems n s = Some (xs, t) \<longrightarrow> length t < length s)"
proof (induction n)
  case (Suc n)
  then have v: "pVal n s = Some (v, t) \<Longrightarrow> length t < length s" and m: "pMembers n s = Some (ms, t) \<Longrightarrow> length t < length s"
    and e: "pElems n s = Some (xs, t) \<Longrightarrow> length t < length s" for s v t ms xs
    by blast+
  have "length t < length s" if "pMembers (Suc n) s = Some (ms, t)" for s ms t
    using that
    by (auto split: if_splits list.splits option.splits dest!: v m parseStr_length skipWs_ConsD)
  moreover have "length t < length s" if "pElems (Suc n) s = Some (xs, t)" for s xs t
    using that by (auto split: if_splits list.splits option.splits dest!: v e skipWs_ConsD)
  moreover have "length t < length s" if "pVal (Suc n) s = Some (v, t)" for s v t
    by (rule pVal_length_step [OF _ _ that]) (erule m, erule e)
  ultimately show ?case by blast
qed simp

lemmas pVal_length = parse_length [THEN conjunct1, rule_format]

text \<open>More fuel than twice the length of the text changes nothing.\<close>

lemma parse_fuel:
  "(\<forall>s. 2 * length s + 1 \<le> n \<longrightarrow> pVal n s = pVal (Suc n) s) \<and>
   (\<forall>s. 2 * length s + 1 \<le> n \<longrightarrow> pMembers n s = pMembers (Suc n) s) \<and>
   (\<forall>s. 2 * length s + 2 \<le> n \<longrightarrow> pElems n s = pElems (Suc n) s)"
proof (induction n)
  case (Suc n)
  then have v: "2 * length s + 1 \<le> n \<Longrightarrow> pVal n s = pVal (Suc n) s" and m: "2 * length s + 1 \<le> n \<Longrightarrow> pMembers n s = pMembers (Suc n) s"
    and e: "2 * length s + 2 \<le> n \<Longrightarrow> pElems n s = pElems (Suc n) s" for s
    by blast+
  have "pVal (Suc n) s = pVal (Suc (Suc n)) s" if n: "2 * length s + 1 \<le> Suc n" for s
  proof (cases "skipWs s")
    case (Cons c r)
    then have "length r < length s" by (rule skipWs_ConsD)
    with n have "pMembers n r = pMembers (Suc n) r" "pElems n r = pElems (Suc n) r" by (intro m e; simp)+
    then show ?thesis unfolding pVal.simps(2) Cons list.case by (simp only:)
  qed simp
  moreover have "pMembers (Suc n) s = pMembers (Suc (Suc n)) s" if n: "2 * length s + 1 \<le> Suc n" for s
  proof -
    have *: "pVal n u = pVal (Suc n) u" "pMembers n u = pMembers (Suc n) u" if "length u < length s" for u
      using that n by (intro v m; simp)+
    show ?thesis
    proof (cases "skipWs s")
      case (Cons c r)
      note r = skipWs_ConsD [OF Cons]
      show ?thesis
      proof (cases "parseStr r")
        case (Some kt)
        obtain k t where kt: "kt = (k, t)" by fastforce
        with Some r have t: "length t < length s" using parseStr_length by fastforce
        show ?thesis
        proof (cases "skipWs t")
          case (Cons d t')
          with t have t': "length t' < length s" using skipWs_ConsD by fastforce
          then have vn: "pVal n t' = pVal (Suc n) t'" by (rule *)
          show ?thesis
          proof (cases "pVal (Suc n) t'")
            case (Some vu)
            obtain w u where vu: "vu = (w, u)" by fastforce
            with Some t' have "length u < length s" using pVal_length by fastforce
            then have "pMembers n u' = pMembers (Suc n) u'" if "skipWs u = e # u'" for e u'
              using skipWs_ConsD [OF that] by (intro *) simp
            then show ?thesis
              unfolding pMembers.simps(2) \<open>skipWs s = c # r\<close> \<open>parseStr r = Some kt\<close> kt \<open>skipWs t = d # t'\<close> vn Some vu
                list.case option.case prod.case
              by (cases "skipWs u") (simp_all only: list.case)
          qed (simp add: \<open>skipWs s = c # r\<close> \<open>parseStr r = Some kt\<close> kt Cons vn)
        qed (simp add: Cons Some kt)
      qed (simp add: Cons)
    qed simp
  qed
  moreover have "pElems (Suc n) s = pElems (Suc (Suc n)) s" if n: "2 * length s + 2 \<le> Suc n" for s
  proof -
    have vn: "pVal n s = pVal (Suc n) s" by (rule v) (use n in simp)
    show ?thesis
    proof (cases "pVal (Suc n) s")
      case (Some vu)
      obtain w u where vu: "vu = (w, u)" by fastforce
      with Some have "length u < length s" using pVal_length by fastforce
      then have "pElems n u' = pElems (Suc n) u'" if "skipWs u = x # u'" for x u'
        using skipWs_ConsD [OF that] n by (intro e) simp
      then show ?thesis
        unfolding pElems.simps(2) vn Some vu option.case prod.case by (cases "skipWs u") (simp_all only: list.case)
    qed (simp add: vn)
  qed
  ultimately show ?case by blast
qed simp

lemma parseJson_fuel:
  assumes "2 * length s + 1 \<le> n"
  shows "parseJson s = (case pVal n s of Some (v, t) \<Rightarrow> if skipWs t = [] then Some v else None | None \<Rightarrow> None)"
proof -
  have step: "pVal (2 * length s + 1 + k) s = pVal (2 * length s + 1) s" for k
  proof (induction k)
    case (Suc k)
    have "pVal (2 * length s + 1 + k) s = pVal (Suc (2 * length s + 1 + k)) s"
      using parse_fuel [of "2 * length s + 1 + k"] by simp
    with Suc show ?case by simp
  qed simp
  from assms obtain k where "n = 2 * length s + 1 + k" using le_Suc_ex by blast
  with step [of k] step [of 1] show ?thesis by (simp add: parseJson_def)
qed

end
