(* ===== verification/Types.thy ===== *)
theory Types
  imports Prelude
begin

text \<open>
  The objects the operator reads and writes. The first section is the operator's own API
  (\<^verbatim>\<open>api/v1alpha1\<close>); the rest are the Kubernetes and OpenShift objects, reduced to the fields
  the sources mention. A field with suffix \<open>Rest\<close> stands for the remaining fields of the Go
  struct: no function of the operator writes it, whole-struct comparison
  (\<^verbatim>\<open>reflect.DeepEqual\<close>) sees it, and its zero value is the empty list.
\<close>

section \<open>Object metadata\<close>

record OwnerReference =
  or_APIVersion :: string
  or_Kind :: string
  or_Name :: string
  or_UID :: string

text \<open>
  A slice that the sources compare with nil is an option; the others are lists, nil being the
  empty one. A deletion timestamp is set when the object is under deletion.
\<close>

record ObjectMeta =
  om_Name :: string
  om_Namespace :: string
  om_UID :: string
  om_ResourceVersion :: string
  om_Labels :: "(string, string) gomap"
  om_Annotations :: "(string, string) gomap"
  om_OwnerReferences :: "OwnerReference list option"
  om_Finalizers :: "string list"
  om_DeletionTimestamp :: "int option"

definition mkMeta :: "string \<Rightarrow> string \<Rightarrow> ObjectMeta" where
  "mkMeta name ns = \<lparr>om_Name = name, om_Namespace = ns, om_UID = [], om_ResourceVersion = [],
     om_Labels = NilMap, om_Annotations = NilMap, om_OwnerReferences = None, om_Finalizers = [],
     om_DeletionTimestamp = None\<rparr>"

text \<open>The accessors of \<^verbatim>\<open>metav1.ObjectMeta\<close> for owners.\<close>

definition GetOwnerReferences :: "ObjectMeta \<Rightarrow> OwnerReference list" where
  "GetOwnerReferences m = (case om_OwnerReferences m of None \<Rightarrow> [] | Some os \<Rightarrow> os)"

definition SetOwnerReferences :: "OwnerReference list \<Rightarrow> ObjectMeta \<Rightarrow> ObjectMeta" where
  "SetOwnerReferences os m = m\<lparr>om_OwnerReferences := Some os\<rparr>"

lemma mkMeta_simps [simp]:
  "om_Name (mkMeta n ns) = n" "om_Namespace (mkMeta n ns) = ns" "om_UID (mkMeta n ns) = []"
  "om_ResourceVersion (mkMeta n ns) = []" "om_Labels (mkMeta n ns) = NilMap"
  "om_OwnerReferences (mkMeta n ns) = None" "om_Finalizers (mkMeta n ns) = []"
  "om_DeletionTimestamp (mkMeta n ns) = None"
  by (simp_all add: mkMeta_def)

section \<open>The operator's own API: \<open>api/v1alpha1\<close>\<close>

datatype ConditionStatus = ConditionTrue | ConditionFalse | ConditionUnknown

text \<open>A \<^verbatim>\<open>ConditionType\<close> is a string in the source.\<close>

type_synonym ConditionType = string

record Condition =
  c_Type :: ConditionType
  c_Status :: ConditionStatus
  c_Reason :: string
  c_Message :: string
  c_LastHeartbeatTime :: int
  c_LastTransitionTime :: int

definition ExporterCreated :: ConditionType where "ExporterCreated = ''ExporterCreated''"
definition ExporterReady :: ConditionType where "ExporterReady = ''ExporterReady''"
definition StorageClusterReady :: ConditionType where "StorageClusterReady = ''StorageClusterReady''"
definition ProvisionerReady :: ConditionType where "ProvisionerReady = ''ProvisionerReady''"
definition ConditionProgressing :: ConditionType where "ConditionProgressing = ''ReconcileProgressing''"
definition ConditionReconcileComplete :: ConditionType where
  "ConditionReconcileComplete = ''ReconcileComplete''"

lemmas condition_types =
  ExporterCreated_def ExporterReady_def StorageClusterReady_def ProvisionerReady_def
  ConditionProgressing_def ConditionReconcileComplete_def

definition ReasonReconcileFailed :: string where "ReasonReconcileFailed = ''ReconcileFailed''"
definition ReasonReconcileCompleted :: string where "ReasonReconcileCompleted = ''ReconcileCompleted''"

record StorageClassConfig =
  scc_StorageClassName :: string
  scc_PoolName :: string
  scc_FsType :: string
  scc_VolumeNamePrefix :: string
  scc_SpaceEfficiency :: string

record SecretReference =
  sr_Name :: string
  sr_Namespace :: string

record FlashSystemClusterSpec =
  fs_Name :: string
  fs_Secret :: SecretReference
  fs_InsecureSkipVerify :: bool
  fs_DefaultPool :: "StorageClassConfig option"

record FlashSystemClusterStatus =
  st_Phase :: string
  st_Conditions :: "Condition list"

record FlashSystemCluster =
  fsc_Kind :: string
  fsc_APIVersion :: string
  fsc_Meta :: ObjectMeta
  fsc_Spec :: FlashSystemClusterSpec
  fsc_Status :: FlashSystemClusterStatus

section \<open>Kubernetes core and storage objects\<close>

record Secret =
  sec_Meta :: ObjectMeta
  sec_Data :: "(string, string) gomap"

record ConfigMap =
  cm_Meta :: ObjectMeta
  cm_Data :: "(string, string) gomap"

record StorageClass =
  sc_Meta :: ObjectMeta
  sc_Provisioner :: string
  sc_Parameters :: "(string, string) gomap"

record CSISource =
  csi_Driver :: string
  csi_VolumeHandle :: string

record ObjectReference =
  ref_Kind :: string
  ref_Namespace :: string
  ref_Name :: string
  ref_UID :: string
  ref_ResourceVersion :: string
  ref_APIVersion :: string

record PersistentVolume =
  pv_Meta :: ObjectMeta
  pv_CSI :: "CSISource option"
  pv_ClaimRef :: "ObjectReference option"

record PersistentVolumeClaim =
  pvc_Meta :: ObjectMeta
  pvc_StorageClassName :: "string option"

record Event =
  ev_Meta :: ObjectMeta
  ev_InvolvedObject :: ObjectReference
  ev_Reason :: string
  ev_Message :: string
  ev_FirstTimestamp :: int
  ev_LastTimestamp :: int
  ev_Count :: int
  ev_Type :: string

datatype IntOrStringType = IntT | StringT

record IntOrString =
  ios_Type :: IntOrStringType
  ios_IntVal :: int
  ios_StrVal :: string

record ServicePort =
  sp_Name :: string
  sp_Protocol :: string
  sp_AppProtocol :: "string option"
  sp_Port :: int
  sp_TargetPort :: IntOrString
  sp_NodePort :: int

record ServiceSpec =
  svs_Type :: string
  svs_Ports :: "ServicePort list"
  svs_Selector :: "(string, string) gomap"
  svs_Rest :: "(string \<times> string) list"

record Service =
  svc_Meta :: ObjectMeta
  svc_Spec :: ServiceSpec

section \<open>Deployments\<close>

record ContainerPort =
  cp_Name :: string
  cp_Protocol :: string
  cp_ContainerPort :: int

record Probe =
  pr_Path :: string
  pr_Port :: int
  pr_InitialDelaySeconds :: int
  pr_TimeoutSeconds :: int
  pr_PeriodSeconds :: int
  pr_SuccessThreshold :: int
  pr_FailureThreshold :: int

record SecurityContext =
  sctx_RunAsNonRoot :: bool
  sctx_AllowPrivilegeEscalation :: bool
  sctx_SeccompProfile :: string
  sctx_DropCapabilities :: "string list"

record Container =
  ct_Name :: string
  ct_Image :: string
  ct_ImagePullPolicy :: string
  ct_Env :: "(string \<times> string) list"
  ct_Requests :: "(string, string) gomap"
  ct_Limits :: "(string, string) gomap"
  ct_Ports :: "ContainerPort list"
  ct_VolumeMounts :: "(string \<times> string) list"
  ct_LivenessProbe :: "Probe option"
  ct_ReadinessProbe :: "Probe option"
  ct_SecurityContext :: "SecurityContext option"
  ct_Rest :: "(string \<times> string) list"

text \<open>A volume is its name and the name of the ConfigMap it mounts.\<close>

record DeploymentSpec =
  ds_Replicas :: "int option"
  ds_MatchLabels :: "(string, string) gomap"
  ds_TemplateLabels :: "(string, string) gomap"
  ds_Containers :: "Container list"
  ds_ServiceAccountName :: string
  ds_Volumes :: "(string \<times> string) list"
  ds_Rest :: "(string \<times> string) list"

record Deployment =
  dep_Meta :: ObjectMeta
  dep_Spec :: DeploymentSpec

section \<open>Prometheus objects\<close>

record Endpoint =
  ep_Port :: string
  ep_Interval :: string
  ep_ScrapeTimeout :: string
  ep_Rest :: "(string \<times> string) list"

record ServiceMonitorSpec =
  sms_MatchNames :: "string list"
  sms_MatchLabels :: "(string, string) gomap"
  sms_Endpoints :: "Endpoint list"
  sms_Rest :: "(string \<times> string) list"

record ServiceMonitor =
  sm_Meta :: ObjectMeta
  sm_Spec :: ServiceMonitorSpec

record Rule =
  rule_Expr :: IntOrString
  rule_Labels :: "(string, string) gomap"
  rule_Rest :: "(string \<times> string) list"

record RuleGroup =
  rg_Name :: string
  rg_Rules :: "Rule list"
  rg_Rest :: "(string \<times> string) list"

record PrometheusRule =
  pru_Meta :: ObjectMeta
  pru_Groups :: "RuleGroup list"

section \<open>OpenShift objects, namespaces and the CSI custom resource\<close>

record ClusterVersion =
  cv_Meta :: ObjectMeta
  cv_DesiredVersion :: string

record ConsolePlugin =
  cpl_Meta :: ObjectMeta
  cpl_DisplayName :: string
  cpl_ServiceName :: string
  cpl_ServiceNamespace :: string
  cpl_ServicePort :: int
  cpl_BasePath :: string
  cpl_BackendType :: string
  cpl_LoadType :: string

record Console =
  con_Meta :: ObjectMeta
  con_Plugins :: "string list"

record NamespaceObj =
  ns_Meta :: ObjectMeta

record GroupVersionKind =
  gvk_Group :: string
  gvk_Version :: string
  gvk_Kind :: string

record Unstructured =
  un_GVK :: GroupVersionKind
  un_Meta :: ObjectMeta
  un_Content :: string

section \<open>All of them\<close>

datatype kobj =
    OFsc FlashSystemCluster
  | OSecret Secret
  | OConfigMap ConfigMap
  | OStorageClass StorageClass
  | OPv PersistentVolume
  | OPvc PersistentVolumeClaim
  | OEvent Event
  | OService Service
  | ODeployment Deployment
  | OServiceMonitor ServiceMonitor
  | OPromRule PrometheusRule
  | OClusterVersion ClusterVersion
  | OConsolePlugin ConsolePlugin
  | OConsole Console
  | ONamespace NamespaceObj
  | OCsiCR Unstructured

datatype kind =
    KFsc | KSecret | KConfigMap | KStorageClass | KPv | KPvc | KEvent | KService | KDeployment
  | KServiceMonitor | KPromRule | KClusterVersion | KConsolePlugin | KConsole | KNamespace | KCsiCR

fun kindOf :: "kobj \<Rightarrow> kind" where
  "kindOf (OFsc _) = KFsc"
| "kindOf (OSecret _) = KSecret"
| "kindOf (OConfigMap _) = KConfigMap"
| "kindOf (OStorageClass _) = KStorageClass"
| "kindOf (OPv _) = KPv"
| "kindOf (OPvc _) = KPvc"
| "kindOf (OEvent _) = KEvent"
| "kindOf (OService _) = KService"
| "kindOf (ODeployment _) = KDeployment"
| "kindOf (OServiceMonitor _) = KServiceMonitor"
| "kindOf (OPromRule _) = KPromRule"
| "kindOf (OClusterVersion _) = KClusterVersion"
| "kindOf (OConsolePlugin _) = KConsolePlugin"
| "kindOf (OConsole _) = KConsole"
| "kindOf (ONamespace _) = KNamespace"
| "kindOf (OCsiCR _) = KCsiCR"

fun metaOf :: "kobj \<Rightarrow> ObjectMeta" where
  "metaOf (OFsc x) = fsc_Meta x"
| "metaOf (OSecret x) = sec_Meta x"
| "metaOf (OConfigMap x) = cm_Meta x"
| "metaOf (OStorageClass x) = sc_Meta x"
| "metaOf (OPv x) = pv_Meta x"
| "metaOf (OPvc x) = pvc_Meta x"
| "metaOf (OEvent x) = ev_Meta x"
| "metaOf (OService x) = svc_Meta x"
| "metaOf (ODeployment x) = dep_Meta x"
| "metaOf (OServiceMonitor x) = sm_Meta x"
| "metaOf (OPromRule x) = pru_Meta x"
| "metaOf (OClusterVersion x) = cv_Meta x"
| "metaOf (OConsolePlugin x) = cpl_Meta x"
| "metaOf (OConsole x) = con_Meta x"
| "metaOf (ONamespace x) = ns_Meta x"
| "metaOf (OCsiCR x) = un_Meta x"

end
