(* ===== verification/Client.thy ===== *)
theory Client
  imports Types JsonCodec
begin

text \<open>
  Everything outside the sources, as one parameter: the API server behind the controller-runtime
  and dynamic clients, the clock, the process environment, the file system, and the third-party
  decoders. The type \<open>'w\<close> is the state of that outside world, which no definition inspects.
  The operator's own state and a record of the API calls it has made are the state of the monad.
\<close>

section \<open>Requests and responses\<close>

datatype req =
    RGet kind string string
  | RList kind "string option" "(string \<times> string) list"
  | RCreate kobj
  | RUpdate kobj
  | RStatusUpdate kobj
  | RDelete kobj

datatype resp = ROk kobj | RItems "kobj list" | RErr goerr

text \<open>A read never changes the cluster; every other request is a write.\<close>

fun isWrite :: "req \<Rightarrow> bool" where
  "isWrite (RGet _ _ _) = False"
| "isWrite (RList _ _ _) = False"
| "isWrite _ = True"

fun reqKind :: "req \<Rightarrow> kind" where
  "reqKind (RGet k _ _) = k"
| "reqKind (RList k _ _) = k"
| "reqKind (RCreate x) = kindOf x"
| "reqKind (RUpdate x) = kindOf x"
| "reqKind (RStatusUpdate x) = kindOf x"
| "reqKind (RDelete x) = kindOf x"

text \<open>
  \<open>api\<close> answers a request; \<open>timeNow\<close> is \<^verbatim>\<open>time.Now\<close>; \<open>lookupEnv\<close> is \<^verbatim>\<open>os.LookupEnv\<close>; the next
  fields read the file system; \<open>yamlRule\<close> and \<open>yamlCR\<close> are the Kubernetes YAML decoders;
  \<open>kMarshal\<close>, \<open>kUnmarshal\<close> and \<open>kUnmarshalAny\<close> are \<^verbatim>\<open>k8s.io/apimachinery/pkg/util/json\<close> at the types
  at which the sources use it.
\<close>

record 'w env =
  api :: "req \<Rightarrow> 'w \<Rightarrow> resp \<times> 'w"
  timeNow :: "'w \<Rightarrow> int \<times> 'w"
  lookupEnv :: "string \<Rightarrow> string option"
  readFile :: "string \<Rightarrow> 'w \<Rightarrow> goerr + string"
  readDir :: "string \<Rightarrow> 'w \<Rightarrow> goerr + (string \<times> bool) list"
  evalSymlinks :: "string \<Rightarrow> 'w \<Rightarrow> goerr + string"
  fileExists :: "string \<Rightarrow> 'w \<Rightarrow> bool"
  getwd :: "'w \<Rightarrow> goerr + string"
  yamlRule :: "string \<Rightarrow> goerr + PrometheusRule"
  yamlCR :: "string \<Rightarrow> goerr + Unstructured"
  kMarshal :: "FlashSystemClusterMapContent \<Rightarrow> goerr + string"
  kUnmarshal :: "string \<Rightarrow> goerr + FlashSystemClusterMapContent"
  kUnmarshalAny :: "string \<Rightarrow> goerr + (string, json) gomap"

text \<open>
  \<open>IsCSICRCreated\<close> is the field of \<^verbatim>\<open>FlashSystemClusterReconciler\<close>, \<open>watchNamespace\<close> the package
  variable; \<open>calls\<close> is a history of the API calls, which no definition reads.
\<close>

record 'w st =
  world :: 'w
  calls :: "(req \<times> resp) list"
  IsCSICRCreated :: bool
  watchNamespace :: string

type_synonym ('w, 'a) oper = "('w st, 'a) state"

definition afterCall :: "req \<Rightarrow> resp \<Rightarrow> 'w \<Rightarrow> 'w st \<Rightarrow> 'w st" where
  "afterCall q r w s = s\<lparr>world := w, calls := calls s @ [(q, r)]\<rparr>"

definition call :: "'w env \<Rightarrow> req \<Rightarrow> ('w, resp) oper" where
  "call E q = State (\<lambda>s. case api E q (world s) of (r, w) \<Rightarrow> (r, afterCall q r w s))"

definition now :: "'w env \<Rightarrow> ('w, int) oper" where
  "now E = State (\<lambda>s. case timeNow E (world s) of (t, w) \<Rightarrow> (t, s\<lparr>world := w\<rparr>))"

definition askWorld :: "('w \<Rightarrow> 'a) \<Rightarrow> ('w, 'a) oper" where
  "askWorld f = State (\<lambda>s. (f (world s), s))"

section \<open>The typed client\<close>

text \<open>A response that does not decode into the requested type is an error of the client.\<close>

definition decodeErr :: goerr where
  "decodeErr = DecodeError ''response does not decode into the requested type''"

definition decodeOne :: "(kobj \<Rightarrow> 'a option) \<Rightarrow> resp \<Rightarrow> goerr + 'a" where
  "decodeOne proj r =
     (case r of
        ROk x \<Rightarrow> (case proj x of Some y \<Rightarrow> Inr y | None \<Rightarrow> Inl decodeErr)
      | RErr e \<Rightarrow> Inl e
      | RItems _ \<Rightarrow> Inl decodeErr)"

definition decodeItems :: "(kobj \<Rightarrow> 'a option) \<Rightarrow> resp \<Rightarrow> goerr + 'a list" where
  "decodeItems proj r =
     (case r of
        RItems xs \<Rightarrow> if list_all (\<lambda>x. proj x \<noteq> None) xs then Inr (map (the \<circ> proj) xs) else Inl decodeErr
      | RErr e \<Rightarrow> Inl e
      | ROk _ \<Rightarrow> Inl decodeErr)"

definition decodeDone :: "resp \<Rightarrow> goerr + unit" where
  "decodeDone r = (case r of RErr e \<Rightarrow> Inl e | _ \<Rightarrow> Inr ())"

definition getAs :: "'w env \<Rightarrow> (kobj \<Rightarrow> 'a option) \<Rightarrow> kind \<Rightarrow> string \<Rightarrow> string \<Rightarrow> ('w, goerr + 'a) oper" where
  "getAs E proj k ns name = do { r \<leftarrow> call E (RGet k ns name); ret (decodeOne proj r) }"

definition listAs :: "'w env \<Rightarrow> (kobj \<Rightarrow> 'a option) \<Rightarrow> kind \<Rightarrow> string option \<Rightarrow> (string \<times> string) list
    \<Rightarrow> ('w, goerr + 'a list) oper" where
  "listAs E proj k ns labels = do { r \<leftarrow> call E (RList k ns labels); ret (decodeItems proj r) }"

text \<open>\<^verbatim>\<open>Create\<close> and \<^verbatim>\<open>Update\<close> decode the stored object into their argument: it is the result.\<close>

definition createAs :: "'w env \<Rightarrow> (kobj \<Rightarrow> 'a option) \<Rightarrow> kobj \<Rightarrow> ('w, goerr + 'a) oper" where
  "createAs E proj x = do { r \<leftarrow> call E (RCreate x); ret (decodeOne proj r) }"

definition updateAs :: "'w env \<Rightarrow> (kobj \<Rightarrow> 'a option) \<Rightarrow> kobj \<Rightarrow> ('w, goerr + 'a) oper" where
  "updateAs E proj x = do { r \<leftarrow> call E (RUpdate x); ret (decodeOne proj r) }"

definition statusUpdateAs :: "'w env \<Rightarrow> (kobj \<Rightarrow> 'a option) \<Rightarrow> kobj \<Rightarrow> ('w, goerr + 'a) oper" where
  "statusUpdateAs E proj x = do { r \<leftarrow> call E (RStatusUpdate x); ret (decodeOne proj r) }"

definition deleteObj :: "'w env \<Rightarrow> kobj \<Rightarrow> ('w, goerr + unit) oper" where
  "deleteObj E x = do { r \<leftarrow> call E (RDelete x); ret (decodeDone r) }"

lemmas client_ops = getAs_def listAs_def createAs_def updateAs_def statusUpdateAs_def deleteObj_def

fun asFsc :: "kobj \<Rightarrow> FlashSystemCluster option" where
  "asFsc (OFsc x) = Some x" | "asFsc _ = None"
fun asSecret :: "kobj \<Rightarrow> Secret option" where
  "asSecret (OSecret x) = Some x" | "asSecret _ = None"
fun asConfigMap :: "kobj \<Rightarrow> ConfigMap option" where
  "asConfigMap (OConfigMap x) = Some x" | "asConfigMap _ = None"
fun asStorageClass :: "kobj \<Rightarrow> StorageClass option" where
  "asStorageClass (OStorageClass x) = Some x" | "asStorageClass _ = None"
fun asPv :: "kobj \<Rightarrow> PersistentVolume option" where
  "asPv (OPv x) = Some x" | "asPv _ = None"
fun asPvc :: "kobj \<Rightarrow> PersistentVolumeClaim option" where
  "asPvc (OPvc x) = Some x" | "asPvc _ = None"
fun asEvent :: "kobj \<Rightarrow> Event option" where
  "asEvent (OEvent x) = Some x" | "asEvent _ = None"
fun asService :: "kobj \<Rightarrow> Service option" where
  "asService (OService x) = Some x" | "asService _ = None"
fun asDeployment :: "kobj \<Rightarrow> Deployment option" where
  "asDeployment (ODeployment x) = Some x" | "asDeployment _ = None"
fun asServiceMonitor :: "kobj \<Rightarrow> ServiceMonitor option" where
  "asServiceMonitor (OServiceMonitor x) = Some x" | "asServiceMonitor _ = None"
fun asPromRule :: "kobj \<Rightarrow> PrometheusRule option" where
  "asPromRule (OPromRule x) = Some x" | "asPromRule _ = None"
fun asClusterVersion :: "kobj \<Rightarrow> ClusterVersion option" where
  "asClusterVersion (OClusterVersion x) = Some x" | "asClusterVersion _ = None"
fun asConsolePlugin :: "kobj \<Rightarrow> ConsolePlugin option" where
  "asConsolePlugin (OConsolePlugin x) = Some x" | "asConsolePlugin _ = None"
fun asConsole :: "kobj \<Rightarrow> Console option" where
  "asConsole (OConsole x) = Some x" | "asConsole _ = None"
fun asNamespace :: "kobj \<Rightarrow> NamespaceObj option" where
  "asNamespace (ONamespace x) = Some x" | "asNamespace _ = None"
fun asCsiCR :: "kobj \<Rightarrow> Unstructured option" where
  "asCsiCR (OCsiCR x) = Some x" | "asCsiCR _ = None"

lemma as_Some [simp]:
  "asFsc x = Some f \<longleftrightarrow> x = OFsc f" "asSecret x = Some s \<longleftrightarrow> x = OSecret s"
  "asConfigMap x = Some c \<longleftrightarrow> x = OConfigMap c" "asStorageClass x = Some d \<longleftrightarrow> x = OStorageClass d"
  "asPv x = Some p \<longleftrightarrow> x = OPv p" "asPvc x = Some q \<longleftrightarrow> x = OPvc q"
  "asConsole x = Some e \<longleftrightarrow> x = OConsole e" "asConsolePlugin x = Some l \<longleftrightarrow> x = OConsolePlugin l"
  "asService x = Some v \<longleftrightarrow> x = OService v" "asDeployment x = Some y \<longleftrightarrow> x = ODeployment y"
  "asServiceMonitor x = Some m \<longleftrightarrow> x = OServiceMonitor m" "asClusterVersion x = Some r \<longleftrightarrow> x = OClusterVersion r"
  by (cases x; auto)+

section \<open>Rules for the calls\<close>

lemma afterCall_simps [simp]:
  "world (afterCall q r w s) = w"
  "calls (afterCall q r w s) = calls s @ [(q, r)]"
  "IsCSICRCreated (afterCall q r w s) = IsCSICRCreated s"
  "watchNamespace (afterCall q r w s) = watchNamespace s"
  by (simp_all add: afterCall_def)

lemma wp_call: "wpre (call E q) Q s =
    (case api E q (world s) of (r, w) \<Rightarrow> Q r (afterCall q r w s))"
  by (simp add: wpre_def call_def split: prod.splits)

text \<open>Whatever the server answers.\<close>

lemma wp_call_any: "(\<And>r w. Q r (afterCall q r w s)) \<Longrightarrow> wpre (call E q) Q s"
  by (simp add: wp_call split: prod.splits)

lemma wp_now: "wpre (now E) Q s = (case timeNow E (world s) of (t, w) \<Rightarrow> Q t (s\<lparr>world := w\<rparr>))"
  by (simp add: wpre_def now_def split: prod.splits)

lemma wp_now_any: "(\<And>t w. Q t (s\<lparr>world := w\<rparr>)) \<Longrightarrow> wpre (now E) Q s"
  by (simp add: wp_now split: prod.splits)

lemma wp_askWorld [wp]: "wpre (askWorld f) Q s = Q (f (world s)) s"
  by (simp add: wpre_def askWorld_def)

subsection \<open>Which calls an operation issues\<close>

text \<open>
  \<open>issues P m\<close>: whatever the world answers, \<open>m\<close> only appends to the history, only calls that
  satisfy \<open>P\<close>. The rules below prove it of a whole operation from its calls.
\<close>

definition issues :: "(req \<Rightarrow> bool) \<Rightarrow> ('w, 'a) oper \<Rightarrow> bool" where
  "issues P m \<longleftrightarrow> (\<forall>s. \<exists>xs. calls (snd (run_state m s)) = calls s @ xs \<and> list_all (P \<circ> fst) xs)"

lemma issuesE:
  assumes "issues P m" and "run_state m s = (a, t)"
  obtains xs where "calls t = calls s @ xs" and "list_all (P \<circ> fst) xs"
  using assms by (metis issues_def snd_conv)

lemma issues_ret [issues_intro]: "issues P (ret x)"
  by (simp add: issues_def)

lemma issues_strong_bind:
  assumes "issues P m" and "\<And>a s t. run_state m s = (a, t) \<Longrightarrow> issues P (f a)"
  shows "issues P (State_Monad.bind m f)"
  unfolding issues_def
proof
  fix s
  obtain a t where m: "run_state m s = (a, t)" by fastforce
  obtain b u where f: "run_state (f a) t = (b, u)" by fastforce
  from assms(1) m obtain xs where xs: "calls t = calls s @ xs" "list_all (P \<circ> fst) xs"
    by (rule issuesE)
  from assms(2) [OF m] f obtain ys where ys: "calls u = calls t @ ys" "list_all (P \<circ> fst) ys"
    by (rule issuesE)
  show "\<exists>zs. calls (snd (run_state (State_Monad.bind m f) s)) = calls s @ zs \<and> list_all (P \<circ> fst) zs"
    using m f xs ys by (intro exI [of _ "xs @ ys"]) simp
qed

lemma issues_bind [issues_intro]:
  "issues P m \<Longrightarrow> (\<And>a. issues P (f a)) \<Longrightarrow> issues P (State_Monad.bind m f)"
  by (rule issues_strong_bind)

lemma issues_call [issues_intro]: "P q \<Longrightarrow> issues P (call E q)"
  by (simp add: issues_def call_def split: prod.splits)

lemma issues_now [issues_intro]: "issues P (now E)"
  by (simp add: issues_def now_def split: prod.splits)

lemma issues_askWorld [issues_intro]: "issues P (askWorld f)"
  by (simp add: issues_def askWorld_def)

lemma issues_get [issues_intro]: "issues P State_Monad.get"
  by (simp add: issues_def)

lemma issues_update [issues_intro]: "(\<And>s. calls (f s) = calls s) \<Longrightarrow> issues P (State_Monad.update f)"
  by (simp add: issues_def State_Monad.update_def)

lemma issues_if [issues_intro]: "issues P m \<Longrightarrow> issues P n \<Longrightarrow> issues P (if b then m else n)"
  by simp

lemma issues_let [issues_intro]: "(\<And>x. issues P (f x)) \<Longrightarrow> issues P (let x = t in f x)"
  by (simp add: Let_def)

lemma issues_case_sum [issues_intro]:
  "(\<And>e. issues P (f e)) \<Longrightarrow> (\<And>x. issues P (g x)) \<Longrightarrow> issues P (case r of Inl e \<Rightarrow> f e | Inr x \<Rightarrow> g x)"
  by (cases r) simp_all

lemma issues_case_res [issues_intro]:
  "(\<And>x. issues P (f x)) \<Longrightarrow> (\<And>e. issues P (g e)) \<Longrightarrow> (\<And>p. issues P (h p)) \<Longrightarrow>
   issues P (case r of Ok x \<Rightarrow> f x | Err e \<Rightarrow> g e | Panic p \<Rightarrow> h p)"
  by (cases r) simp_all

lemma issues_case_option [issues_intro]:
  "issues P f \<Longrightarrow> (\<And>x. issues P (g x)) \<Longrightarrow> issues P (case r of None \<Rightarrow> f | Some x \<Rightarrow> g x)"
  by (cases r) simp_all

lemma issues_case_prod [issues_intro]:
  "(\<And>x y. issues P (f x y)) \<Longrightarrow> issues P (case p of (x, y) \<Rightarrow> f x y)"
  by (cases p) simp

lemma issues_case_list [issues_intro]:
  "issues P f \<Longrightarrow> (\<And>x xs. issues P (g x xs)) \<Longrightarrow> issues P (case l of [] \<Rightarrow> f | x # xs \<Rightarrow> g x xs)"
  by (cases l) simp_all

lemma issues_mono: "issues P m \<Longrightarrow> (\<And>q. P q \<Longrightarrow> Q q) \<Longrightarrow> issues Q m"
  unfolding issues_def list_all_iff comp_def by meson

lemma issues_client [issues_intro]:
  "P (RGet k ns n) \<Longrightarrow> issues P (getAs E proj k ns n)"
  "P (RList k nso ls) \<Longrightarrow> issues P (listAs E proj k nso ls)"
  "P (RCreate x) \<Longrightarrow> issues P (createAs E proj x)"
  "P (RUpdate x) \<Longrightarrow> issues P (updateAs E proj x)"
  "P (RStatusUpdate x) \<Longrightarrow> issues P (statusUpdateAs E proj x)"
  "P (RDelete x) \<Longrightarrow> issues P (deleteObj E x)"
  unfolding client_ops by (intro issues_intro; assumption)+

section \<open>Loops over slices with an early return\<close>

fun forErr :: "('a \<Rightarrow> ('w, goerr + unit) oper) \<Rightarrow> 'a list \<Rightarrow> ('w, goerr + unit) oper" where
  "forErr f [] = ret (Inr ())"
| "forErr f (x # xs) = do {
     r \<leftarrow> f x;
     (case r of Inl e \<Rightarrow> ret (Inl e) | Inr _ \<Rightarrow> forErr f xs)
   }"

lemma issues_forErr [issues_intro]:
  "(\<And>x. x \<in> set xs \<Longrightarrow> issues P (f x)) \<Longrightarrow> issues P (forErr f xs)"
  by (induction xs) (auto intro!: issues_intro)

end
