(* ===== verification/Apiserver.thy ===== *)
theory Apiserver
  imports Client
begin

text \<open>
  The documented behaviour of the API server that the functional properties rely on, as a predicate
  on the parameter \<^const>\<open>api\<close>: \<open>api_laws E v\<close> says that the objects the server holds in the world \<open>w\<close> are
  \<open>v w\<close>. The laws are those of a server no other client writes to during the pass. They leave open
  which requests fail, and what a write that is not acknowledged has done to the object it names.
\<close>

type_synonym objkey = "kind \<times> string \<times> string"
type_synonym 'w view = "'w \<Rightarrow> objkey \<Rightarrow> kobj option"

definition keyOf :: "kobj \<Rightarrow> objkey" where
  "keyOf x = (kindOf x, om_Namespace (metaOf x), om_Name (metaOf x))"

definition sameEntries :: "('k, 'v) gomap \<Rightarrow> ('k, 'v) gomap \<Rightarrow> bool" where
  "sameEntries a b \<longleftrightarrow> (\<forall>k. mget a k = mget b k)"

text \<open>
  What the server stores of the object it is sent: the same key, finalizers, owners, labels and content. Empty
  maps are omitted in the serialised object, so they may come back nil.
\<close>

fun sameContent :: "kobj \<Rightarrow> kobj \<Rightarrow> bool" where
  "sameContent (OConfigMap a) (OConfigMap b) = sameEntries (cm_Data a) (cm_Data b)"
| "sameContent (OPv a) (OPv b) = (pv_CSI a = pv_CSI b \<and> pv_ClaimRef a = pv_ClaimRef b)"
| "sameContent (OConsole a) (OConsole b) = (con_Plugins a = con_Plugins b)"
| "sameContent (OStorageClass a) (OStorageClass b) =
     (sc_Provisioner a = sc_Provisioner b \<and> sameEntries (sc_Parameters a) (sc_Parameters b))"
| "sameContent (OFsc a) (OFsc b) = (fsc_Spec a = fsc_Spec b)"
| "sameContent a b = True"

definition agrees :: "kobj \<Rightarrow> kobj \<Rightarrow> bool" where
  "agrees a b \<longleftrightarrow> keyOf a = keyOf b \<and> om_Finalizers (metaOf a) = om_Finalizers (metaOf b) \<and>
     GetOwnerReferences (metaOf a) = GetOwnerReferences (metaOf b) \<and>
     sameEntries (om_Labels (metaOf a)) (om_Labels (metaOf b)) \<and> sameContent a b"

definition deletionOf :: "kobj \<Rightarrow> int option" where
  "deletionOf x = om_DeletionTimestamp (metaOf x)"

text \<open>An update is accepted when the resource version it carries is the stored one.\<close>

definition versionOf :: "kobj \<Rightarrow> string" where
  "versionOf x = om_ResourceVersion (metaOf x)"

text \<open>An object without finalizers whose deletion has begun is removed by the update that says so.\<close>

definition released :: "kobj \<Rightarrow> bool" where
  "released x \<longleftrightarrow> deletionOf x \<noteq> None \<and> om_Finalizers (metaOf x) = []"

lemma released_live [simp]: "om_DeletionTimestamp (metaOf x) = None \<Longrightarrow> \<not> released x"
  by (simp add: released_def deletionOf_def)

definition selects :: "kind \<Rightarrow> string option \<Rightarrow> (string \<times> string) list \<Rightarrow> kobj \<Rightarrow> bool" where
  "selects k ns ls x \<longleftrightarrow> kindOf x = k \<and> (case ns of None \<Rightarrow> True | Some n \<Rightarrow> om_Namespace (metaOf x) = n) \<and>
     list_all (\<lambda>(l, y). mget (om_Labels (metaOf x)) l = Some y) ls"

definition onlyAt :: "objkey \<Rightarrow> (objkey \<Rightarrow> kobj option) \<Rightarrow> (objkey \<Rightarrow> kobj option) \<Rightarrow> bool" where
  "onlyAt k a b \<longleftrightarrow> (\<forall>k'. k' \<noteq> k \<longrightarrow> a k' = b k')"

text \<open>A deletion that is acknowledged has removed the object, or begun its deletion when a finalizer holds it.\<close>

definition leaving :: "objkey \<Rightarrow> (objkey \<Rightarrow> kobj option) \<Rightarrow> bool" where
  "leaving k b \<longleftrightarrow> (case b k of None \<Rightarrow> True | Some y \<Rightarrow> deletionOf y \<noteq> None)"

fun answers :: "req \<Rightarrow> resp \<Rightarrow> (objkey \<Rightarrow> kobj option) \<Rightarrow> (objkey \<Rightarrow> kobj option) \<Rightarrow> bool" where
  "answers (RGet k ns n) r a b \<longleftrightarrow> b = a \<and>
     (case r of ROk x \<Rightarrow> a (k, ns, n) = Some x | RErr e \<Rightarrow> IsNotFound e \<longrightarrow> a (k, ns, n) = None | RItems _ \<Rightarrow> True)"
| "answers (RList k ns ls) r a b \<longleftrightarrow> b = a \<and>
     (case r of RItems xs \<Rightarrow> (\<forall>x. x \<in> set xs \<longleftrightarrow> selects k ns ls x \<and> a (keyOf x) = Some x) | _ \<Rightarrow> True)"
| "answers (RCreate x) r a b \<longleftrightarrow> onlyAt (keyOf x) a b \<and>
     (case r of
        ROk y \<Rightarrow> a (keyOf x) = None \<and> b (keyOf x) = Some y \<and> agrees x y \<and> deletionOf y = None
      | _ \<Rightarrow> True)"
| "answers (RUpdate x) r a b \<longleftrightarrow> onlyAt (keyOf x) a b \<and>
     (case r of
        ROk y \<Rightarrow> (case a (keyOf x) of None \<Rightarrow> False
                  | Some z \<Rightarrow> versionOf z = versionOf x \<and> deletionOf y = deletionOf z) \<and> agrees x y \<and>
                 b (keyOf x) = (if released y then None else Some y)
      | _ \<Rightarrow> True)"
| "answers (RStatusUpdate x) r a b \<longleftrightarrow> onlyAt (keyOf x) a b \<and> (case r of ROk y \<Rightarrow> a (keyOf x) \<noteq> None | _ \<Rightarrow> True)"
| "answers (RDelete x) r a b \<longleftrightarrow> onlyAt (keyOf x) a b \<and> (case r of RErr e \<Rightarrow> True | _ \<Rightarrow> leaving (keyOf x) b)"

text \<open>The error values of the operator itself, which no client returns.\<close>

definition ownError :: "goerr \<Rightarrow> bool" where
  "ownError e \<longleftrightarrow> e = FSCMatchNotFoundError \<or> e = UniqueFSCMatchError"

definition api_laws :: "'w env \<Rightarrow> 'w view \<Rightarrow> bool" where
  "api_laws E v \<longleftrightarrow>
     (\<forall>w k ns n x. v w (k, ns, n) = Some x \<longrightarrow> keyOf x = (k, ns, n)) \<and>
     (\<forall>q w. case api E q w of (r, w') \<Rightarrow> answers q r (v w) (v w')) \<and>
     (\<forall>q w e. fst (api E q w) = RErr e \<longrightarrow> \<not> ownError e) \<and>
     (\<forall>w k x. v w k = Some x \<longrightarrow> \<not> released x) \<and>
     (\<forall>w. v (snd (timeNow E w)) = v w)"

section \<open>Rules under the laws\<close>

lemma api_lawsD:
  assumes "api_laws E v"
  shows "v w (k, ns, n) = Some x \<Longrightarrow> keyOf x = (k, ns, n)"
    and "api E q w = (r, w') \<Longrightarrow> answers q r (v w) (v w')"
    and "timeNow E w = (t, w') \<Longrightarrow> v w' = v w"
    and "api E q w = (RErr e, w') \<Longrightarrow> \<not> ownError e"
    and "v w key = Some x \<Longrightarrow> \<not> released x"
proof -
  note laws = assms [unfolded api_laws_def]
  from laws show "v w (k, ns, n) = Some x \<Longrightarrow> keyOf x = (k, ns, n)" by blast
  from laws show "api E q w = (r, w') \<Longrightarrow> answers q r (v w) (v w')"
    by (metis (mono_tags, lifting) case_prod_conv)
  from laws show "timeNow E w = (t, w') \<Longrightarrow> v w' = v w" by (metis snd_conv)
  from laws show "api E q w = (RErr e, w') \<Longrightarrow> \<not> ownError e" by (metis fst_conv)
  from laws show "v w key = Some x \<Longrightarrow> \<not> released x" by blast
qed

lemma api_laws_key: "api_laws E v \<Longrightarrow> v w k = Some x \<Longrightarrow> keyOf x = k"
  by (cases k) (auto dest: api_lawsD(1))

lemma sameEntries_refl [simp]: "sameEntries a a"
  by (simp add: sameEntries_def)

text \<open>One call under the laws, for every answer they allow.\<close>

lemma wp_call_laws:
  assumes "api_laws E v"
    and "\<And>r w. answers q r (v (world s)) (v w) \<Longrightarrow> (\<And>e. r = RErr e \<Longrightarrow> \<not> ownError e) \<Longrightarrow> Q r (afterCall q r w s)"
  shows "wpre (call E q) Q s"
  using assms by (auto simp: wp_call dest: api_lawsD split: prod.splits)

lemma wp_now_laws:
  assumes "api_laws E v" and "\<And>t w. v w = v (world s) \<Longrightarrow> Q t (s\<lparr>world := w\<rparr>)"
  shows "wpre (now E) Q s"
  using assms by (auto simp: wp_now dest: api_lawsD split: prod.splits)

lemma decodeOne_eq:
  "decodeOne proj r = Inr y \<longleftrightarrow> (\<exists>x. r = ROk x \<and> proj x = Some y)"
  "decodeOne proj r = Inl e \<longleftrightarrow>
     r = RErr e \<or> (e = decodeErr \<and> ((\<exists>x. r = ROk x \<and> proj x = None) \<or> (\<exists>xs. r = RItems xs)))"
  by (auto simp: decodeOne_def split: resp.splits option.splits)

lemma IsNotFound_decodeErr [simp]: "\<not> IsNotFound decodeErr" "\<not> IsConflict decodeErr" "\<not> IsAlreadyExists decodeErr" "\<not> ownError decodeErr"
  by (simp_all add: decodeErr_def ownError_def)

lemma onlyAt_upd: "onlyAt k a b \<Longrightarrow> b = a(k := b k)"
  by (auto simp: onlyAt_def fun_eq_iff)

lemma onlyAt_refl [simp]: "onlyAt k a a"
  by (simp add: onlyAt_def)

lemma onlyAt_trans: "onlyAt k a b \<Longrightarrow> onlyAt k b c \<Longrightarrow> onlyAt k a c"
  by (simp add: onlyAt_def)

text \<open>Reads and writes through the typed client, one case per outcome.\<close>

lemma wp_getAs_laws:
  assumes laws: "api_laws E v"
    and Fail: "\<And>e r w. v w = v (world s) \<Longrightarrow> \<not> ownError e \<Longrightarrow> (IsNotFound e \<Longrightarrow> v (world s) (k, ns, n) = None) \<Longrightarrow>
       Q (Inl e) (afterCall (RGet k ns n) r w s)"
    and Found: "\<And>x y w. v w = v (world s) \<Longrightarrow> v (world s) (k, ns, n) = Some x \<Longrightarrow> keyOf x = (k, ns, n) \<Longrightarrow>
       proj x = Some y \<Longrightarrow> Q (Inr y) (afterCall (RGet k ns n) (ROk x) w s)"
  shows "wpre (getAs E proj k ns n) Q s"
  unfolding getAs_def wp
proof (rule wp_call_laws [OF laws])
  fix r w
  assume a: "answers (RGet k ns n) r (v (world s)) (v w)" and e: "\<And>e. r = RErr e \<Longrightarrow> \<not> ownError e"
  show "Q (decodeOne proj r) (afterCall (RGet k ns n) r w s)"
  proof (cases "decodeOne proj r")
    case (Inl e)
    with a e show ?thesis by (auto simp: decodeOne_def intro!: Fail split: resp.splits option.splits)
  next
    case (Inr y)
    then obtain x where r: "r = ROk x" "proj x = Some y" by (auto simp: decodeOne_eq)
    from a r have "v (world s) (k, ns, n) = Some x" by simp
    with a r show ?thesis by (auto simp: decodeOne_def intro!: Found dest: api_lawsD(1) [OF laws])
  qed
qed

lemma wp_listAs_laws:
  assumes laws: "api_laws E v"
    and Fail: "\<And>e r w. v w = v (world s) \<Longrightarrow> \<not> ownError e \<Longrightarrow> Q (Inl e) (afterCall (RList k ns ls) r w s)"
    and Found: "\<And>xs w. v w = v (world s) \<Longrightarrow> list_all (\<lambda>x. proj x \<noteq> None) xs \<Longrightarrow>
       (\<And>x. x \<in> set xs \<longleftrightarrow> selects k ns ls x \<and> v (world s) (keyOf x) = Some x) \<Longrightarrow>
       Q (Inr (map (the \<circ> proj) xs)) (afterCall (RList k ns ls) (RItems xs) w s)"
  shows "wpre (listAs E proj k ns ls) Q s"
  unfolding listAs_def wp
  by (rule wp_call_laws [OF laws]) (auto simp: decodeItems_def intro!: Fail Found split: resp.splits)

lemma wp_createAs_laws:
  assumes laws: "api_laws E v"
    and Fail: "\<And>e r w. onlyAt (keyOf x) (v (world s)) (v w) \<Longrightarrow> \<not> ownError e \<Longrightarrow> Q (Inl e) (afterCall (RCreate x) r w s)"
    and Done: "\<And>x' y w. v (world s) (keyOf x) = None \<Longrightarrow> v w = (v (world s))(keyOf x := Some x') \<Longrightarrow>
       agrees x x' \<Longrightarrow> deletionOf x' = None \<Longrightarrow> proj x' = Some y \<Longrightarrow> Q (Inr y) (afterCall (RCreate x) (ROk x') w s)"
  shows "wpre (createAs E proj x) Q s"
  unfolding createAs_def wp
  by (rule wp_call_laws [OF laws])
    (auto simp: decodeOne_def intro!: Fail Done split: resp.splits option.splits dest: onlyAt_upd)

lemma wp_updateAs_laws:
  assumes laws: "api_laws E v"
    and Fail: "\<And>e r w. onlyAt (keyOf x) (v (world s)) (v w) \<Longrightarrow> \<not> ownError e \<Longrightarrow> Q (Inl e) (afterCall (RUpdate x) r w s)"
    and Done: "\<And>z x' y w. v (world s) (keyOf x) = Some z \<Longrightarrow> versionOf z = versionOf x \<Longrightarrow>
       deletionOf x' = deletionOf z \<Longrightarrow> agrees x x' \<Longrightarrow> proj x' = Some y \<Longrightarrow>
       v w = (v (world s))(keyOf x := if released x' then None else Some x') \<Longrightarrow>
       Q (Inr y) (afterCall (RUpdate x) (ROk x') w s)"
  shows "wpre (updateAs E proj x) Q s"
  unfolding updateAs_def wp
proof (rule wp_call_laws [OF laws])
  fix r w
  assume a: "answers (RUpdate x) r (v (world s)) (v w)" and e: "\<And>e. r = RErr e \<Longrightarrow> \<not> ownError e"
  show "Q (decodeOne proj r) (afterCall (RUpdate x) r w s)"
  proof (cases "decodeOne proj r")
    case (Inl e)
    with a e show ?thesis by (auto simp: decodeOne_def intro!: Fail split: resp.splits option.splits)
  next
    case (Inr y)
    then obtain x' where r: "r = ROk x'" "proj x' = Some y" by (auto simp: decodeOne_eq)
    with a Inr show ?thesis by (auto intro!: Done split: option.splits dest: onlyAt_upd)
  qed
qed

lemma wp_deleteObj_laws:
  assumes laws: "api_laws E v"
    and Done: "\<And>a r w. onlyAt (keyOf x) (v (world s)) (v w) \<Longrightarrow> (a = Inr () \<Longrightarrow> leaving (keyOf x) (v w)) \<Longrightarrow>
       Q a (afterCall (RDelete x) r w s)"
  shows "wpre (deleteObj E x) Q s"
  unfolding deleteObj_def wp by (rule wp_call_laws [OF laws]) (auto simp: decodeDone_def intro!: Done split: resp.splits)

section \<open>Operations that only read\<close>

definition keeps :: "'w view \<Rightarrow> ('w, 'a) oper \<Rightarrow> bool" where
  "keeps v m \<longleftrightarrow> (\<forall>s. v (world (snd (run_state m s))) = v (world s))"

lemma keepsD: "keeps v m \<Longrightarrow> run_state m s = (a, t) \<Longrightarrow> v (world t) = v (world s)"
  by (metis keeps_def snd_conv)

lemma wp_keeps: "keeps v m \<Longrightarrow> (\<And>a t. run_state m s = (a, t) \<Longrightarrow> v (world t) = v (world s) \<Longrightarrow> Q a t) \<Longrightarrow> wpre m Q s"
  by (auto intro!: wp_runI dest: keepsD)

lemma keeps_ret: "keeps v (ret x)"
  by (simp add: keeps_def)

lemma keeps_bind: "keeps v m \<Longrightarrow> (\<And>a. keeps v (f a)) \<Longrightarrow> keeps v (State_Monad.bind m f)"
  by (simp add: keeps_def split: prod.splits) (metis snd_conv)

lemma keeps_read: "api_laws E v \<Longrightarrow> keeps v (getAs E proj k ns n)" "api_laws E v \<Longrightarrow> keeps v (listAs E proj k nso ls)"
  by (auto simp: keeps_def getAs_def listAs_def call_def split: prod.splits dest: api_lawsD)

lemma keeps_cases:
  "keeps v m \<Longrightarrow> keeps v n \<Longrightarrow> keeps v (if b then m else n)"
  "(\<And>e. keeps v (f e)) \<Longrightarrow> (\<And>x. keeps v (g x)) \<Longrightarrow> keeps v (case r of Inl e \<Rightarrow> f e | Inr x \<Rightarrow> g x)"
  "(\<And>x. keeps v (f' x)) \<Longrightarrow> (\<And>e. keeps v (g' e)) \<Longrightarrow> (\<And>p. keeps v (h p)) \<Longrightarrow>
   keeps v (case r' of Ok x \<Rightarrow> f' x | Err e \<Rightarrow> g' e | Panic p \<Rightarrow> h p)"
  "(\<And>x y. keeps v (j x y)) \<Longrightarrow> keeps v (case pr of (x, y) \<Rightarrow> j x y)"
  by (simp_all split: sum.splits res.splits prod.splits)

lemmas keeps_intro = keeps_ret keeps_bind keeps_read keeps_cases

end
