(* ===== verification/Sample.thy ===== *)
theory Sample
  imports Apiserver
begin

text \<open>
  A server that satisfies \<^const>\<open>api_laws\<close>: a list of objects with optimistic concurrency on resource
  versions. The concrete runs of the development use it.
\<close>

record store =
  objs :: "kobj list"
  clock :: nat

fun setMeta :: "ObjectMeta \<Rightarrow> kobj \<Rightarrow> kobj" where
  "setMeta m (OFsc x) = OFsc (x\<lparr>fsc_Meta := m\<rparr>)"
| "setMeta m (OSecret x) = OSecret (x\<lparr>sec_Meta := m\<rparr>)"
| "setMeta m (OConfigMap x) = OConfigMap (x\<lparr>cm_Meta := m\<rparr>)"
| "setMeta m (OStorageClass x) = OStorageClass (x\<lparr>sc_Meta := m\<rparr>)"
| "setMeta m (OPv x) = OPv (x\<lparr>pv_Meta := m\<rparr>)"
| "setMeta m (OPvc x) = OPvc (x\<lparr>pvc_Meta := m\<rparr>)"
| "setMeta m (OEvent x) = OEvent (x\<lparr>ev_Meta := m\<rparr>)"
| "setMeta m (OService x) = OService (x\<lparr>svc_Meta := m\<rparr>)"
| "setMeta m (ODeployment x) = ODeployment (x\<lparr>dep_Meta := m\<rparr>)"
| "setMeta m (OServiceMonitor x) = OServiceMonitor (x\<lparr>sm_Meta := m\<rparr>)"
| "setMeta m (OPromRule x) = OPromRule (x\<lparr>pru_Meta := m\<rparr>)"
| "setMeta m (OClusterVersion x) = OClusterVersion (x\<lparr>cv_Meta := m\<rparr>)"
| "setMeta m (OConsolePlugin x) = OConsolePlugin (x\<lparr>cpl_Meta := m\<rparr>)"
| "setMeta m (OConsole x) = OConsole (x\<lparr>con_Meta := m\<rparr>)"
| "setMeta m (ONamespace x) = ONamespace (x\<lparr>ns_Meta := m\<rparr>)"
| "setMeta m (OCsiCR x) = OCsiCR (x\<lparr>un_Meta := m\<rparr>)"

definition stamp :: "nat \<Rightarrow> int option \<Rightarrow> kobj \<Rightarrow> kobj" where
  "stamp n d x = setMeta ((metaOf x)\<lparr>om_ResourceVersion := natBase 10 n, om_DeletionTimestamp := d\<rparr>) x"

text \<open>An empty data map is omitted when the object is serialised.\<close>

fun serialise :: "kobj \<Rightarrow> kobj" where
  "serialise (OConfigMap x) = OConfigMap (if entries (cm_Data x) = [] then x\<lparr>cm_Data := NilMap\<rparr> else x)"
| "serialise x = x"

text \<open>An object whose deletion has begun and that no finalizer holds is not there.\<close>

definition lookupObj :: "kobj list \<Rightarrow> objkey \<Rightarrow> kobj option" where
  "lookupObj xs k = find (\<lambda>x. keyOf x = k \<and> \<not> released x) xs"

definition dropObj :: "objkey \<Rightarrow> kobj list \<Rightarrow> kobj list" where
  "dropObj k xs = filter (\<lambda>x. keyOf x \<noteq> k) xs"

definition withStatusOf :: "kobj \<Rightarrow> kobj \<Rightarrow> kobj" where
  "withStatusOf x z = (case (x, z) of (OFsc a, OFsc b) \<Rightarrow> OFsc (a\<lparr>fsc_Status := fsc_Status b\<rparr>) | _ \<Rightarrow> x)"

definition statusErr :: "status_reason \<Rightarrow> resp" where
  "statusErr r = RErr (StatusError r ''refused'')"

definition tick :: "kobj list \<Rightarrow> store \<Rightarrow> store" where
  "tick xs w = \<lparr>objs = xs, clock = Suc (clock w)\<rparr>"

fun storeApi :: "req \<Rightarrow> store \<Rightarrow> resp \<times> store" where
  "storeApi (RGet k ns n) w =
     ((case lookupObj (objs w) (k, ns, n) of Some x \<Rightarrow> ROk x | None \<Rightarrow> statusErr NotFound), w)"
| "storeApi (RList k ns ls) w = (RItems (filter (\<lambda>x. selects k ns ls x \<and> lookupObj (objs w) (keyOf x) = Some x) (objs w)), w)"
| "storeApi (RCreate x) w =
     (case lookupObj (objs w) (keyOf x) of
        Some _ \<Rightarrow> (statusErr AlreadyExists, w)
      | None \<Rightarrow> (let y = stamp (clock w) None (serialise x) in (ROk y, tick (y # objs w) w)))"
| "storeApi (RUpdate x) w =
     (case lookupObj (objs w) (keyOf x) of
        None \<Rightarrow> (statusErr NotFound, w)
      | Some z \<Rightarrow>
          if versionOf z \<noteq> versionOf x then (statusErr Conflict, w)
          else (let y = stamp (clock w) (deletionOf z) (withStatusOf (serialise x) z) in
                (ROk y, tick (if released y then dropObj (keyOf x) (objs w) else y # dropObj (keyOf x) (objs w)) w)))"
| "storeApi (RStatusUpdate x) w =
     (case lookupObj (objs w) (keyOf x) of
        None \<Rightarrow> (statusErr NotFound, w)
      | Some z \<Rightarrow>
          if versionOf z \<noteq> versionOf x then (statusErr Conflict, w)
          else (let y = stamp (clock w) (deletionOf z) (withStatusOf z x) in (ROk y, tick (y # dropObj (keyOf x) (objs w)) w)))"
| "storeApi (RDelete x) w =
     (case lookupObj (objs w) (keyOf x) of
        None \<Rightarrow> (statusErr NotFound, w)
      | Some z \<Rightarrow> (ROk z, tick (dropObj (keyOf x) (objs w)) w))"

definition storeView :: "store view" where
  "storeView w k = lookupObj (objs w) k"

definition storeEnv :: "store env" where
  "storeEnv = \<lparr>api = storeApi, timeNow = (\<lambda>w. (int (clock w), w)), lookupEnv = (\<lambda>_. None),
     readFile = (\<lambda>p w. Inr p), readDir = (\<lambda>p w. Inr []), evalSymlinks = (\<lambda>p w. Inr p),
     fileExists = (\<lambda>p w. False), getwd = (\<lambda>w. Inr ''/''),
     yamlRule = (\<lambda>s. Inr \<lparr>pru_Meta = mkMeta ''template'' [], pru_Groups = []\<rparr>),
     yamlCR = (\<lambda>s. Inr \<lparr>un_GVK = \<lparr>gvk_Group = ''csi.ibm.com'', gvk_Version = ''v1'', gvk_Kind = ''IBMBlockCSI''\<rparr>,
        un_Meta = mkMeta ''ibm-block-csi'' [], un_Content = s\<rparr>),
     kMarshal = (\<lambda>c. Inr (Marshal_content c)), kUnmarshal = Unmarshal_content, kUnmarshalAny = Unmarshal_any\<rparr>"

section \<open>It satisfies the laws\<close>

lemma metaOf_setMeta [simp]: "metaOf (setMeta m x) = m" "kindOf (setMeta m x) = kindOf x"
  by (cases x; simp)+

lemma metaOf_serialise [simp]: "metaOf (serialise x) = metaOf x" "kindOf (serialise x) = kindOf x"
  by (cases x; simp)+

lemma metaOf_withStatusOf [simp]: "metaOf (withStatusOf x z) = metaOf x" "kindOf (withStatusOf x z) = kindOf x"
  by (cases x; cases z; simp add: withStatusOf_def)+

lemma metaOf_stamp [simp]:
  "metaOf (stamp n d x) = (metaOf x)\<lparr>om_ResourceVersion := natBase 10 n, om_DeletionTimestamp := d\<rparr>"
  "kindOf (stamp n d x) = kindOf x"
  by (simp_all add: stamp_def)

lemma keyOf_stored [simp]:
  "keyOf (stamp n d x) = keyOf x" "deletionOf (stamp n d x) = d" "keyOf (serialise x) = keyOf x"
  "keyOf (withStatusOf x z) = keyOf x" "\<not> released (stamp n None x)"
  by (simp_all add: keyOf_def deletionOf_def released_def)

lemma sameContent_stored: "sameContent x (stamp n d (serialise x))" "sameContent x (stamp n d (withStatusOf (serialise x) z))"
  by (cases x; cases z; simp add: stamp_def withStatusOf_def sameEntries_def mget_def)+

lemma lookupObj_simps [simp]:
  "lookupObj [] k = None"
  "lookupObj (x # xs) k = (if keyOf x = k \<and> \<not> released x then Some x else lookupObj xs k)"
  "lookupObj (dropObj k' xs) k = (if k = k' then None else lookupObj xs k)"
  by (induction xs) (auto simp: lookupObj_def dropObj_def)

lemma lookupObj_Some: "lookupObj xs k = Some x \<Longrightarrow> x \<in> set xs \<and> keyOf x = k \<and> \<not> released x"
  by (induction xs) (auto split: if_splits)

lemma agrees_stored:
  "agrees x (stamp n d (withStatusOf (serialise x) z))" "agrees x (stamp n d (serialise x))"
  by (simp_all add: agrees_def sameContent_stored GetOwnerReferences_def)

lemma storeApi_answers: "case storeApi q w of (r, w') \<Rightarrow> answers q r (storeView w) (storeView w')"
  by (cases q) (auto simp: storeView_def fun_eq_iff onlyAt_def leaving_def statusErr_def Let_def tick_def agrees_stored
       versionOf_def dest: lookupObj_Some split: option.splits)

lemma storeApi_errors: "fst (storeApi q w) = RErr e \<Longrightarrow> \<not> ownError e"
  by (cases q) (auto simp: statusErr_def ownError_def Let_def split: option.splits if_splits)

lemma storeEnv_laws: "api_laws storeEnv storeView"
  unfolding api_laws_def using storeApi_answers storeApi_errors
  by (auto simp: storeEnv_def storeView_def dest: lookupObj_Some)

section \<open>Sample objects\<close>

definition demoSecret :: Secret where
  "demoSecret = \<lparr>sec_Meta = (mkMeta ''fs-secret'' ''ns'')\<lparr>om_ResourceVersion := ''1''\<rparr>,
     sec_Data = MkMap [(''management_address'', ''10.0.0.1'')]\<rparr>"

definition demoFsc :: FlashSystemCluster where
  "demoFsc = \<lparr>fsc_Kind = ''FlashSystemCluster'', fsc_APIVersion = ''odf.ibm.com/v1alpha1'',
     fsc_Meta = (mkMeta ''fs1'' ''ns'')\<lparr>om_UID := ''u1'', om_ResourceVersion := ''2'',
       om_Finalizers := [''flashsystemcluster.odf.ibm.com'']\<rparr>,
     fsc_Spec = \<lparr>fs_Name = ''fs1'', fs_Secret = \<lparr>sr_Name = ''fs-secret'', sr_Namespace = ''ns''\<rparr>,
       fs_InsecureSkipVerify = True, fs_DefaultPool = Some \<lparr>scc_StorageClassName = ''sc1'', scc_PoolName = ''p0'',
         scc_FsType = ''ext4'', scc_VolumeNamePrefix = [], scc_SpaceEfficiency = ''thin''\<rparr>\<rparr>,
     fsc_Status = \<lparr>st_Phase = [], st_Conditions = []\<rparr>\<rparr>"

text \<open>The same instance after the user has deleted it.\<close>

definition demoDeleted :: FlashSystemCluster where
  "demoDeleted = demoFsc\<lparr>fsc_Meta := (fsc_Meta demoFsc)\<lparr>om_DeletionTimestamp := Some 7\<rparr>\<rparr>"

definition demoState :: "kobj list \<Rightarrow> store st" where
  "demoState xs = \<lparr>world = \<lparr>objs = xs, clock = 100\<rparr>, calls = [], IsCSICRCreated = False, watchNamespace = ''ns''\<rparr>"

definition demoStart :: "store st" where
  "demoStart = demoState [OFsc demoFsc, OSecret demoSecret]"

definition demoCm :: ConfigMap where
  "demoCm = \<lparr>cm_Meta = (mkMeta ''ibm-flashsystem-pools'' ''ns'')\<lparr>om_ResourceVersion := ''3''\<rparr>,
     cm_Data = MkMap [(''fs1'', ''x''), (''fs2'', ''y'')]\<rparr>"

definition demoContent :: FlashSystemClusterMapContent where
  "demoContent = \<lparr>ScPoolMap = MkMap [(''sc1'', ''old''), (''sc9'', ''p9'')], ContentSecret = ''fs-secret''\<rparr>"

definition demoPools :: ConfigMap where
  "demoPools = demoCm\<lparr>cm_Data := MkMap [(''fs1'', Marshal_content demoContent)]\<rparr>"

definition demoSc :: StorageClass where
  "demoSc = \<lparr>sc_Meta = (mkMeta ''sc1'' [])\<lparr>om_ResourceVersion := ''4''\<rparr>, sc_Provisioner = ''block.csi.ibm.com'',
     sc_Parameters = MkMap [(''pool'', ''p0''), (''csi.storage.k8s.io/secret-name'', ''fs-secret''),
       (''csi.storage.k8s.io/secret-namespace'', ''ns'')]\<rparr>"

definition demoWorld :: "kobj list" where
  "demoWorld = [OConfigMap demoPools, OStorageClass demoSc, OSecret demoSecret, OFsc demoFsc]"

definition demoPv :: PersistentVolume where
  "demoPv = \<lparr>pv_Meta = (mkMeta ''pv1'' [])\<lparr>om_ResourceVersion := ''5'', om_Labels := MkMap [(''a'', ''b'')]\<rparr>,
     pv_CSI = Some \<lparr>csi_Driver = ''block.csi.ibm.com'', csi_VolumeHandle = ''SVC:1;2''\<rparr>,
     pv_ClaimRef = Some \<lparr>ref_Kind = ''PersistentVolumeClaim'', ref_Namespace = ''app'', ref_Name = ''c1'', ref_UID = [],
       ref_ResourceVersion = [], ref_APIVersion = []\<rparr>\<rparr>"

definition demoPvc :: PersistentVolumeClaim where
  "demoPvc = \<lparr>pvc_Meta = mkMeta ''c1'' ''app'', pvc_StorageClassName = Some ''sc1''\<rparr>"

definition demoVolumes :: "kobj list" where
  "demoVolumes = [OPv demoPv, OPvc demoPvc, OStorageClass demoSc, OSecret demoSecret, OFsc demoFsc]"

end
