(* ===== verification/Conditions.thy ===== *)
theory Conditions
  imports Sample
begin

text \<open>
  The status conditions of a FlashSystemCluster (\<^verbatim>\<open>controllers/util/condition.go\<close>). A pointer to a
  slice element is an index; a function that writes through the slice pointer returns the new slice.
\<close>

section \<open>Definitions\<close>

definition PhaseProgressing :: string where "PhaseProgressing = ''Progressing''"
definition PhaseError :: string where "PhaseError = ''Error''"
definition PhaseReady :: string where "PhaseReady = ''Ready''"
definition PhaseNotReady :: string where "PhaseNotReady = ''Not Ready''"

lemmas phases = PhaseProgressing_def PhaseError_def PhaseReady_def PhaseNotReady_def

fun FindStatusCondition :: "Condition list \<Rightarrow> ConditionType \<Rightarrow> nat option" where
  "FindStatusCondition [] ty = None"
| "FindStatusCondition (c # cs) ty =
     (if c_Type c = ty then Some 0 else map_option Suc (FindStatusCondition cs ty))"

definition SetStatusCondition :: "'w env \<Rightarrow> Condition list \<Rightarrow> Condition \<Rightarrow> ('w, Condition list) oper" where
  "SetStatusCondition E conditions newCondition =
     (case FindStatusCondition conditions (c_Type newCondition) of
        None \<Rightarrow> do {
          t1 \<leftarrow> now E;
          t2 \<leftarrow> now E;
          ret (conditions @ [newCondition\<lparr>c_LastTransitionTime := t1, c_LastHeartbeatTime := t2\<rparr>])
        }
      | Some i \<Rightarrow> do {
          existing \<leftarrow>
            (if c_Status (conditions ! i) \<noteq> c_Status newCondition then do {
               t1 \<leftarrow> now E;
               ret ((conditions ! i)\<lparr>c_Status := c_Status newCondition, c_LastTransitionTime := t1\<rparr>)
             } else ret (conditions ! i));
          t2 \<leftarrow> now E;
          ret (conditions[i := existing\<lparr>c_Reason := c_Reason newCondition,
                 c_Message := c_Message newCondition, c_LastHeartbeatTime := t2\<rparr>])
        })"

definition RemoveStatusCondition :: "Condition list \<Rightarrow> ConditionType \<Rightarrow> Condition list" where
  "RemoveStatusCondition conditions ty = filter (\<lambda>c. c_Type c \<noteq> ty) conditions"

fun IsStatusConditionPresentAndEqual :: "Condition list \<Rightarrow> ConditionType \<Rightarrow> ConditionStatus \<Rightarrow> bool" where
  "IsStatusConditionPresentAndEqual [] ty status = False"
| "IsStatusConditionPresentAndEqual (c # cs) ty status =
     (if c_Type c = ty then c_Status c = status else IsStatusConditionPresentAndEqual cs ty status)"

definition IsStatusConditionTrue :: "Condition list \<Rightarrow> ConditionType \<Rightarrow> bool" where
  "IsStatusConditionTrue conditions ty = IsStatusConditionPresentAndEqual conditions ty ConditionTrue"

definition IsStatusConditionFalse :: "Condition list \<Rightarrow> ConditionType \<Rightarrow> bool" where
  "IsStatusConditionFalse conditions ty = IsStatusConditionPresentAndEqual conditions ty ConditionFalse"

text \<open>A condition literal of the source leaves both times zero.\<close>

definition mkCond :: "ConditionType \<Rightarrow> ConditionStatus \<Rightarrow> string \<Rightarrow> string \<Rightarrow> Condition" where
  "mkCond ty status reason message = \<lparr>c_Type = ty, c_Status = status, c_Reason = reason,
     c_Message = message, c_LastHeartbeatTime = 0, c_LastTransitionTime = 0\<rparr>"

definition SetReconcileProgressingCondition ::
    "'w env \<Rightarrow> Condition list \<Rightarrow> string \<Rightarrow> string \<Rightarrow> ('w, Condition list) oper" where
  "SetReconcileProgressingCondition E conditions reason message = do {
     cs \<leftarrow> SetStatusCondition E conditions (mkCond ConditionReconcileComplete ConditionUnknown reason message);
     cs \<leftarrow> SetStatusCondition E cs (mkCond ConditionProgressing ConditionTrue reason message);
     SetStatusCondition E cs (mkCond ProvisionerReady ConditionUnknown reason message)
   }"

definition SetReconcileErrorCondition ::
    "'w env \<Rightarrow> Condition list \<Rightarrow> string \<Rightarrow> string \<Rightarrow> ('w, Condition list) oper" where
  "SetReconcileErrorCondition E conditions reason message = do {
     cs \<leftarrow> SetStatusCondition E conditions (mkCond ConditionReconcileComplete ConditionFalse reason message);
     SetStatusCondition E cs
       (mkCond ConditionProgressing ConditionTrue reason ''processing FlashSystem ODF resources'')
   }"

definition SetReconcileProvisionerErrorCondition ::
    "'w env \<Rightarrow> Condition list \<Rightarrow> string \<Rightarrow> string \<Rightarrow> ('w, Condition list) oper" where
  "SetReconcileProvisionerErrorCondition E conditions reason message = do {
     cs \<leftarrow> SetStatusCondition E conditions (mkCond ConditionReconcileComplete ConditionFalse reason message);
     SetStatusCondition E cs (mkCond ProvisionerReady ConditionFalse reason message)
   }"

definition SetReconcileCompleteCondition ::
    "'w env \<Rightarrow> Condition list \<Rightarrow> string \<Rightarrow> string \<Rightarrow> ('w, Condition list) oper" where
  "SetReconcileCompleteCondition E conditions reason message = do {
     cs \<leftarrow> SetStatusCondition E conditions (mkCond ConditionReconcileComplete ConditionTrue reason message);
     cs \<leftarrow> SetStatusCondition E cs (mkCond ConditionProgressing ConditionFalse reason message);
     SetStatusCondition E cs (mkCond ProvisionerReady ConditionTrue reason message)
   }"

section \<open>The contract of a condition list\<close>

text \<open>
  What the clients of a condition list rely on: setting a condition makes its type report its
  status, leaves every other type alone, and keeps the invariant that no type occurs twice.
\<close>

locale condition_store =
  fixes put :: "int \<Rightarrow> int \<Rightarrow> 'cs \<Rightarrow> Condition \<Rightarrow> 'cs"
    and status :: "'cs \<Rightarrow> ConditionType \<Rightarrow> ConditionStatus option"
    and inv :: "'cs \<Rightarrow> bool"
  assumes status_put: "status (put t1 t2 cs c) ty = (if ty = c_Type c then Some (c_Status c) else status cs ty)"
    and inv_put: "inv cs \<Longrightarrow> inv (put t1 t2 cs c)"
begin

lemma status_puts:
  "status (fold (\<lambda>(t1, t2, c) cs. put t1 t2 cs c) ops cs) ty =
     (case find (\<lambda>(t1, t2, c). c_Type c = ty) (rev ops) of
        Some (t1, t2, c) \<Rightarrow> Some (c_Status c)
      | None \<Rightarrow> status cs ty)"
  by (induction ops rule: rev_induct) (auto simp: status_put split: prod.splits)

lemma inv_puts: "inv cs \<Longrightarrow> inv (fold (\<lambda>(t1, t2, c) cs. put t1 t2 cs c) ops cs)"
  by (induction ops arbitrary: cs) (auto simp: inv_put split: prod.splits)

end

section \<open>The slice implements it\<close>

text \<open>The list \<open>SetStatusCondition\<close> returns, as a function of the two times it may have read.\<close>

definition setCond :: "int \<Rightarrow> int \<Rightarrow> Condition list \<Rightarrow> Condition \<Rightarrow> Condition list" where
  "setCond t1 t2 cs c =
     (case FindStatusCondition cs (c_Type c) of
        None \<Rightarrow> cs @ [c\<lparr>c_LastTransitionTime := t1, c_LastHeartbeatTime := t2\<rparr>]
      | Some i \<Rightarrow>
          cs[i := (cs ! i)\<lparr>c_Status := c_Status c,
             c_LastTransitionTime :=
               (if c_Status (cs ! i) = c_Status c then c_LastTransitionTime (cs ! i) else t1),
             c_Reason := c_Reason c, c_Message := c_Message c, c_LastHeartbeatTime := t2\<rparr>])"

definition statusOf :: "Condition list \<Rightarrow> ConditionType \<Rightarrow> ConditionStatus option" where
  "statusOf cs ty = map_option (\<lambda>i. c_Status (cs ! i)) (FindStatusCondition cs ty)"

definition condInv :: "Condition list \<Rightarrow> bool" where
  "condInv cs = distinct (map c_Type cs)"

lemma Find_SomeD: "FindStatusCondition cs ty = Some i \<Longrightarrow> i < length cs \<and> c_Type (cs ! i) = ty"
  by (induction cs arbitrary: i) (auto split: if_splits)

lemma Find_eq_None: "FindStatusCondition cs ty = None \<longleftrightarrow> ty \<notin> c_Type ` set cs"
  by (induction cs) auto

lemma Find_cong: "map c_Type cs = map c_Type ds \<Longrightarrow> FindStatusCondition cs ty = FindStatusCondition ds ty"
proof (induction cs arbitrary: ds)
  case Nil
  then show ?case by simp
next
  case (Cons c cs)
  then obtain d ds' where "ds = d # ds'" by (cases ds) auto
  with Cons show ?case by auto
qed

lemma Find_append:
  "FindStatusCondition (cs @ [c]) ty =
     (case FindStatusCondition cs ty of Some i \<Rightarrow> Some i
      | None \<Rightarrow> if c_Type c = ty then Some (length cs) else None)"
  by (induction cs) (auto split: option.splits)

lemma types_update: "c_Type d = c_Type (cs ! i) \<Longrightarrow> map c_Type (cs[i := d]) = map c_Type cs"
  by (cases "i < length cs") (simp_all add: map_update list_update_same_conv list_update_beyond)

lemma setCond_types:
  "map c_Type (setCond t1 t2 cs c) =
     (if c_Type c \<in> c_Type ` set cs then map c_Type cs else map c_Type cs @ [c_Type c])"
proof (cases "FindStatusCondition cs (c_Type c)")
  case None
  then show ?thesis using Find_eq_None [of cs "c_Type c"] by (simp add: setCond_def)
next
  case (Some i)
  then have "c_Type c \<in> c_Type ` set cs"
    using Find_eq_None [of cs "c_Type c"] by auto
  with Some show ?thesis by (simp add: setCond_def types_update)
qed

lemma setCond_condInv: "condInv cs \<Longrightarrow> condInv (setCond t1 t2 cs c)"
  by (auto simp: condInv_def setCond_types)

lemma statusOf_setCond:
  "statusOf (setCond t1 t2 cs c) ty = (if ty = c_Type c then Some (c_Status c) else statusOf cs ty)"
proof (cases "FindStatusCondition cs (c_Type c)")
  case None
  then show ?thesis
    by (auto simp: setCond_def statusOf_def Find_append nth_append split: option.splits dest: Find_SomeD)
next
  case (Some i)
  then have i: "i < length cs" "c_Type (cs ! i) = c_Type c" by (auto dest: Find_SomeD)
  have F: "FindStatusCondition (setCond t1 t2 cs c) ty = FindStatusCondition cs ty" for ty
    using Some by (intro Find_cong) (simp add: setCond_def types_update)
  show ?thesis
  proof (cases "ty = c_Type c")
    case True
    with Some i show ?thesis by (simp add: statusOf_def F) (simp add: setCond_def)
  next
    case False
    have "c_Status (setCond t1 t2 cs c ! j) = c_Status (cs ! j)" if "FindStatusCondition cs ty = Some j" for j
      using Find_SomeD [OF that] i False Some by (cases "i = j") (auto simp: setCond_def)
    with False show ?thesis by (cases "FindStatusCondition cs ty") (simp_all add: statusOf_def F)
  qed
qed

interpretation cond: condition_store setCond statusOf condInv
  by unfold_locales (rule statusOf_setCond, rule setCond_condInv)

section \<open>Running the setters\<close>

lemma wp_SetStatusCondition:
  assumes "\<And>t1 t2 w. Q (setCond t1 t2 cs c) (s\<lparr>world := w\<rparr>)"
  shows "wpre (SetStatusCondition E cs c) Q s"
proof (cases "FindStatusCondition cs (c_Type c)")
  case None
  with assms show ?thesis
    by (auto simp: SetStatusCondition_def setCond_def wp wp_now split: prod.splits)
next
  case (Some i)
  have same: "x\<lparr>c_Status := v\<rparr> = x" if "c_Status x = v" for x :: Condition and v
    using that by (cases x) simp
  from assms Some show ?thesis
    by (cases "c_Status (cs ! i) = c_Status c")
      (auto simp: SetStatusCondition_def setCond_def wp wp_now same split: prod.splits)
qed

text \<open>
  A setter that sets several conditions is a sequence of \<open>setCond\<close> with some times.
\<close>

definition setConds :: "(int \<times> int \<times> Condition) list \<Rightarrow> Condition list \<Rightarrow> Condition list" where
  "setConds ops cs = fold (\<lambda>(t1, t2, c) cs. setCond t1 t2 cs c) ops cs"

lemma statusOf_setConds:
  "statusOf (setConds ops cs) ty =
     (case find (\<lambda>(t1, t2, c). c_Type c = ty) (rev ops) of
        Some (t1, t2, c) \<Rightarrow> Some (c_Status c) | None \<Rightarrow> statusOf cs ty)"
  unfolding setConds_def by (rule cond.status_puts)

lemma condInv_setConds: "condInv cs \<Longrightarrow> condInv (setConds ops cs)"
  unfolding setConds_def by (rule cond.inv_puts)

lemma wp_two_conds:
  assumes "\<And>t1 t2 u1 u2 w. Q (setConds [(t1, t2, c), (u1, u2, d)] cs) (s\<lparr>world := w\<rparr>)"
  shows "wpre (do { x \<leftarrow> SetStatusCondition E cs c; SetStatusCondition E x d }) Q s"
  unfolding wp
  by (intro wp_SetStatusCondition) (insert assms, simp add: setConds_def)

lemma wp_three_conds:
  assumes "\<And>t1 t2 u1 u2 v1 v2 w. Q (setConds [(t1, t2, c), (u1, u2, d), (v1, v2, e)] cs) (s\<lparr>world := w\<rparr>)"
  shows "wpre (do { x \<leftarrow> SetStatusCondition E cs c; y \<leftarrow> SetStatusCondition E x d; SetStatusCondition E y e }) Q s"
  unfolding wp
  by (intro wp_SetStatusCondition) (insert assms, simp add: setConds_def)

lemma IsStatusConditionPresentAndEqual_iff:
  "IsStatusConditionPresentAndEqual cs ty st \<longleftrightarrow> statusOf cs ty = Some st"
  by (induction cs) (auto simp: statusOf_def split: option.splits)

lemma IsStatusConditionTrue_iff: "IsStatusConditionTrue cs ty \<longleftrightarrow> statusOf cs ty = Some ConditionTrue"
  by (simp add: IsStatusConditionTrue_def IsStatusConditionPresentAndEqual_iff)

lemma IsStatusConditionFalse_iff: "IsStatusConditionFalse cs ty \<longleftrightarrow> statusOf cs ty = Some ConditionFalse"
  by (simp add: IsStatusConditionFalse_def IsStatusConditionPresentAndEqual_iff)

lemma issues_SetStatusCondition [issues_intro]: "issues P (SetStatusCondition E cs c)"
  unfolding SetStatusCondition_def by (intro issues_intro)

lemmas condition_setters =
  SetReconcileProgressingCondition_def SetReconcileErrorCondition_def
  SetReconcileProvisionerErrorCondition_def SetReconcileCompleteCondition_def

lemma issues_setters [issues_intro]:
  "issues P (SetReconcileProgressingCondition E cs r m)"
  "issues P (SetReconcileErrorCondition E cs r m)"
  "issues P (SetReconcileProvisionerErrorCondition E cs r m)"
  "issues P (SetReconcileCompleteCondition E cs r m)"
  unfolding condition_setters by (intro issues_intro)+

text \<open>What each setter makes of the list, whatever the clock says.\<close>

lemma wp_SetReconcileErrorCondition:
  assumes "\<And>cs' w. (condInv cs \<Longrightarrow> condInv cs') \<Longrightarrow>
     (\<And>ty. statusOf cs' ty = (if ty = ConditionProgressing then Some ConditionTrue
         else if ty = ConditionReconcileComplete then Some ConditionFalse else statusOf cs ty)) \<Longrightarrow>
     Q cs' (s\<lparr>world := w\<rparr>)"
  shows "wpre (SetReconcileErrorCondition E cs reason message) Q s"
  unfolding SetReconcileErrorCondition_def
  by (intro wp_two_conds assms condInv_setConds)
    (auto simp: statusOf_setConds mkCond_def)

lemma wp_SetReconcileProvisionerErrorCondition:
  assumes "\<And>cs' w. (condInv cs \<Longrightarrow> condInv cs') \<Longrightarrow>
     (\<And>ty. statusOf cs' ty = (if ty = ProvisionerReady then Some ConditionFalse
         else if ty = ConditionReconcileComplete then Some ConditionFalse else statusOf cs ty)) \<Longrightarrow>
     Q cs' (s\<lparr>world := w\<rparr>)"
  shows "wpre (SetReconcileProvisionerErrorCondition E cs reason message) Q s"
  unfolding SetReconcileProvisionerErrorCondition_def
  by (intro wp_two_conds assms condInv_setConds)
    (auto simp: statusOf_setConds mkCond_def)

lemma wp_SetReconcileCompleteCondition:
  assumes "\<And>cs' w. (condInv cs \<Longrightarrow> condInv cs') \<Longrightarrow>
     (\<And>ty. statusOf cs' ty = (if ty = ProvisionerReady then Some ConditionTrue
         else if ty = ConditionProgressing then Some ConditionFalse
         else if ty = ConditionReconcileComplete then Some ConditionTrue else statusOf cs ty)) \<Longrightarrow>
     Q cs' (s\<lparr>world := w\<rparr>)"
  shows "wpre (SetReconcileCompleteCondition E cs reason message) Q s"
  unfolding SetReconcileCompleteCondition_def
  by (intro wp_three_conds assms condInv_setConds)
    (auto simp: statusOf_setConds mkCond_def)

end
