(* ===== verification/K8sutil.thy ===== *)
theory K8sutil
  imports Conditions
begin

text \<open>
  \<^verbatim>\<open>controllers/util/k8sutil.go\<close>, \<^verbatim>\<open>events.go\<close> and \<^verbatim>\<open>openshift.go\<close>: labels, environment variables, the
  slice helpers behind the finalizer list, and Kubernetes events.
\<close>

section \<open>Labels and environment\<close>

record Label =
  lb_Name :: string
  lb_Value :: string

definition WatchNamespaceEnvVar :: string where "WatchNamespaceEnvVar = ''RESOURCES_NAMESPACE''"
definition ExporterImageEnvVar :: string where "ExporterImageEnvVar = ''EXPORTER_IMAGE''"
definition OdfFsStorageSystemLabelKey :: string where "OdfFsStorageSystemLabelKey = ''odf-fs-storage-system''"

definition OdfLabel :: Label where
  "OdfLabel = \<lparr>lb_Name = ''odf'', lb_Value = ''storage.ibm.com''\<rparr>"
definition ComponentLabel :: Label where
  "ComponentLabel = \<lparr>lb_Name = ''app.kubernetes.io/component'', lb_Value = ''ibm-storage-odf-operator''\<rparr>"
definition OdfFsLabel :: Label where
  "OdfFsLabel = \<lparr>lb_Name = ''odf-fs'', lb_Value = ''odf-fs-workspace''\<rparr>"

definition GetWatchNamespace :: "'w env \<Rightarrow> goerr + string" where
  "GetWatchNamespace E =
     (case lookupEnv E WatchNamespaceEnvVar of
        None \<Rightarrow> Inl (FmtError (WatchNamespaceEnvVar @ '' must be set''))
      | Some ns \<Rightarrow> Inr ns)"

definition GetExporterImage :: "'w env \<Rightarrow> goerr + string" where
  "GetExporterImage E =
     (case lookupEnv E ExporterImageEnvVar of
        None \<Rightarrow> Inl (FmtError (ExporterImageEnvVar @ '' must be set''))
      | Some img \<Rightarrow> Inr img)"

definition GetLabels :: "(string, string) gomap" where
  "GetLabels = MkMap [(lb_Name OdfLabel, lb_Value OdfLabel),
     (lb_Name ComponentLabel, lb_Value ComponentLabel),
     (lb_Name OdfFsLabel, lb_Value OdfFsLabel)]"

lemmas labels_defs = GetLabels_def OdfLabel_def ComponentLabel_def OdfFsLabel_def

section \<open>Slices of strings\<close>

fun IsContain :: "string list \<Rightarrow> string \<Rightarrow> bool" where
  "IsContain [] s = False"
| "IsContain (item # items) s = (if item = s then True else IsContain items s)"

fun Remove :: "string list \<Rightarrow> string \<Rightarrow> string list" where
  "Remove [] s = []"
| "Remove (item # items) s = (if item = s then Remove items s else item # Remove items s)"

text \<open>
  The contract behind the finalizer list and the console's plugin list: a slice used as a set,
  extended by \<^verbatim>\<open>append\<close> under a membership test.
\<close>

locale slice_set =
  fixes has :: "'a list \<Rightarrow> 'a \<Rightarrow> bool"
  assumes has_iff: "has xs x \<longleftrightarrow> x \<in> set xs"
begin

lemma ensure_has: "has (if has xs x then xs else xs @ [x]) x"
  by (simp add: has_iff)

lemma ensure_idem:
  "(let ys = (if has xs x then xs else xs @ [x]) in if has ys x then ys else ys @ [x]) =
     (if has xs x then xs else xs @ [x])"
  by (simp add: Let_def has_iff)

lemma ensure_distinct: "distinct xs \<Longrightarrow> distinct (if has xs x then xs else xs @ [x])"
  by (simp add: has_iff)

end

locale slice_set_del = slice_set has for has :: "'a list \<Rightarrow> 'a \<Rightarrow> bool" +
  fixes del :: "'a list \<Rightarrow> 'a \<Rightarrow> 'a list"
  assumes del_filter: "del xs x = filter (\<lambda>y. y \<noteq> x) xs"
begin

lemma has_del: "has (del xs x) y \<longleftrightarrow> y \<noteq> x \<and> has xs y"
  by (auto simp: has_iff del_filter)

lemma del_ensure: "del (if has xs x then xs else xs @ [x]) x = del xs x"
  by (simp add: del_filter)

end

lemma IsContain_iff: "IsContain xs s \<longleftrightarrow> s \<in> set xs"
  by (induction xs) auto

lemma Remove_filter: "Remove xs s = filter (\<lambda>y. y \<noteq> s) xs"
  by (induction xs) auto

interpretation finalizers: slice_set_del IsContain Remove
  by unfold_locales (rule IsContain_iff, rule Remove_filter)

section \<open>Error texts and events\<close>

fun errText :: "goerr \<Rightarrow> string" where
  "errText (StatusError r m) = m"
| "errText (FmtError m) = m"
| "errText (JsonError m) = m"
| "errText (OsError m) = m"
| "errText (DecodeError m) = m"
| "errText FSCMatchNotFoundError = ''no matching FlashSystemCluster found''"
| "errText UniqueFSCMatchError = ''cannot find unique FlashSystemCluster''"

definition EventTypeNormal :: string where "EventTypeNormal = ''Normal''"
definition EventTypeWarning :: string where "EventTypeWarning = ''Warning''"

definition SuccessfulLaunchBlockCSIReason :: string where
  "SuccessfulLaunchBlockCSIReason = ''SuccessfulLaunchBlockCSI''"
definition FailedLaunchBlockCSIReason :: string where
  "FailedLaunchBlockCSIReason = ''FailedLaunchBlockCSI''"
definition SuccessfulDetectBlockCSIReason :: string where
  "SuccessfulDetectBlockCSIReason = ''SuccessfulDetectBlockCSI''"
definition FailedLaunchBlockExporterReason :: string where
  "FailedLaunchBlockExporterReason = ''FailedLaunchBlockExporter''"
definition FailedEnsureSecretOwnershipReason :: string where
  "FailedEnsureSecretOwnershipReason = ''FailedEnsureSecretOwnership''"
definition FailedCreateServiceReason :: string where
  "FailedCreateServiceReason = ''FailedCreateService''"
definition FailedScPoolConfigMapReason :: string where
  "FailedScPoolConfigMapReason = ''FailedEnsureScPoolConfigMap''"
definition FailedCreateServiceMonitorReason :: string where
  "FailedCreateServiceMonitorReason = ''FailedCreateServiceMonitor''"
definition FailedCreateStorageClassReason :: string where
  "FailedCreateStorageClassReason = ''FailedCreateStorageClass''"
definition DeletedDuplicatedStorageClassReason :: string where
  "DeletedDuplicatedStorageClassReason = ''DeletedDuplicatedStorageClass''"
definition FailedCreatePromRuleReason :: string where
  "FailedCreatePromRuleReason = ''FailedCreatePromRule''"

definition InitK8sEvent :: "'w env \<Rightarrow> FlashSystemCluster \<Rightarrow> string \<Rightarrow> string \<Rightarrow> string \<Rightarrow> ('w, Event) oper" where
  "InitK8sEvent E inst eventType reason message = do {
     t \<leftarrow> now E;
     (let m = fsc_Meta inst in
      ret \<lparr>ev_Meta = (mkMeta (om_Name m @ ''.'' @ hexInt t) (om_Namespace m))\<lparr>om_Labels := GetLabels\<rparr>,
           ev_InvolvedObject = \<lparr>ref_Kind = fsc_Kind inst, ref_Namespace = om_Namespace m,
             ref_Name = om_Name m, ref_UID = om_UID m, ref_ResourceVersion = om_ResourceVersion m,
             ref_APIVersion = fsc_APIVersion inst\<rparr>,
           ev_Reason = reason, ev_Message = message, ev_FirstTimestamp = t, ev_LastTimestamp = t,
           ev_Count = 1, ev_Type = eventType\<rparr>)
   }"

lemma issues_InitK8sEvent [issues_intro]: "issues P (InitK8sEvent E i ty r m)"
  unfolding InitK8sEvent_def by (intro issues_intro)

section \<open>The OpenShift version\<close>

text \<open>The loop of \<^verbatim>\<open>DetermineOpenShiftVersion\<close> keeps the version of the last item.\<close>

fun lastVersion :: "ClusterVersion list \<Rightarrow> string \<Rightarrow> string" where
  "lastVersion [] v = v"
| "lastVersion (x # xs) v = lastVersion xs (cv_DesiredVersion x)"

definition DetermineOpenShiftVersion :: "'w env \<Rightarrow> ('w, goerr + string) oper" where
  "DetermineOpenShiftVersion E = do {
     r \<leftarrow> listAs E asClusterVersion KClusterVersion None [];
     (case r of Inl e \<Rightarrow> ret (Inl e) | Inr items \<Rightarrow> ret (Inr (lastVersion items [])))
   }"

end
