(* ===== verification/Poolutil.thy ===== *)
theory Poolutil
  imports K8sutil
begin

text \<open>
  \<^verbatim>\<open>controllers/util/poolutil.go\<close>: the pools ConfigMap that the operator shares with the exporter, the
  secrets behind storage classes, the map from management addresses to clusters, and the event
  filters of the controllers.
\<close>

section \<open>Constants\<close>

definition PoolConfigmapName :: string where "PoolConfigmapName = ''ibm-flashsystem-pools''"
definition PoolsKey :: string where "PoolsKey = ''pools''"
definition FSCConfigmapMountPath :: string where "FSCConfigmapMountPath = ''/config''"
definition TopologySecretDataKey :: string where "TopologySecretDataKey = ''config''"
definition TopologyStorageClassByMgmtId :: string where "TopologyStorageClassByMgmtId = ''by_management_id''"
definition CsiIBMBlockDriver :: string where "CsiIBMBlockDriver = ''block.csi.ibm.com''"
definition CsiIBMBlockScPool :: string where "CsiIBMBlockScPool = ''pool''"
definition PersistentVolumeClaimKind :: string where "PersistentVolumeClaimKind = ''PersistentVolumeClaim''"
definition DefaultSecretNameKey :: string where
  "DefaultSecretNameKey = ''csi.storage.k8s.io/secret-name''"
definition DefaultSecretNamespaceKey :: string where
  "DefaultSecretNamespaceKey = ''csi.storage.k8s.io/secret-namespace''"
definition ProvisionerSecretNameKey :: string where
  "ProvisionerSecretNameKey = ''csi.storage.k8s.io/provisioner-secret-name''"
definition ProvisionerSecretNamespaceKey :: string where
  "ProvisionerSecretNamespaceKey = ''csi.storage.k8s.io/provisioner-secret-namespace''"
definition SecretManagementAddressKey :: string where "SecretManagementAddressKey = ''management_address''"

section \<open>Event filters\<close>

text \<open>
  An event of controller-runtime carries objects of any kind; a type assertion that fails yields no
  object. The update filter of the secrets asserts the new object without the second result, so a
  new object of another kind panics there.
\<close>

datatype event = CreateEvent kobj | DeleteEvent kobj | UpdateEvent kobj kobj | GenericEvent kobj

fun IgnoreUpdateAndGenericPredicate :: "event \<Rightarrow> bool" where
  "IgnoreUpdateAndGenericPredicate (CreateEvent _) = True"
| "IgnoreUpdateAndGenericPredicate (DeleteEvent _) = True"
| "IgnoreUpdateAndGenericPredicate (UpdateEvent _ _) = False"
| "IgnoreUpdateAndGenericPredicate (GenericEvent _) = False"

fun RunDeletePredicate :: "event \<Rightarrow> bool" where
  "RunDeletePredicate (CreateEvent _) = False"
| "RunDeletePredicate (DeleteEvent _) = True"
| "RunDeletePredicate (UpdateEvent _ _) = False"
| "RunDeletePredicate (GenericEvent _) = False"

definition isTopologySecretHasMgmtAddr :: "Secret \<Rightarrow> bool" where
  "isTopologySecretHasMgmtAddr secret =
     (case Unmarshal_strmaps (mgets (sec_Data secret) TopologySecretDataKey) of
        Inl e \<Rightarrow> False
      | Inr m \<Rightarrow> list_all (\<lambda>mgmtId.
          case mget m mgmtId of
            Some mgmtData \<Rightarrow> mget mgmtData SecretManagementAddressKey \<noteq> None
          | None \<Rightarrow> True) (mkeys m))"

text \<open>\<^verbatim>\<open>m[id][key]\<close> on a map of maps: a missing inner map reads as nil.\<close>

definition addrIn :: "(string, (string, string) gomap) gomap \<Rightarrow> string \<Rightarrow> string" where
  "addrIn m mgmtId =
     (case mget m mgmtId of None \<Rightarrow> [] | Some d \<Rightarrow> mgets d SecretManagementAddressKey)"

definition isTopologySecretUpdated :: "Secret \<Rightarrow> Secret \<Rightarrow> bool" where
  "isTopologySecretUpdated oldSecret newSecret =
     (case Unmarshal_strmaps (mgets (sec_Data oldSecret) TopologySecretDataKey) of
        Inl e \<Rightarrow> False
      | Inr om \<Rightarrow>
          (case Unmarshal_strmaps (mgets (sec_Data newSecret) TopologySecretDataKey) of
             Inl e \<Rightarrow> False
           | Inr nm \<Rightarrow> list_ex (\<lambda>mgmtId. mget nm mgmtId = None \<or> addrIn om mgmtId \<noteq> addrIn nm mgmtId)
               (mkeys om)))"

definition secretHasMgmtAddr :: "kobj \<Rightarrow> bool" where
  "secretHasMgmtAddr x =
     (case asSecret x of
        None \<Rightarrow> False
      | Some secret \<Rightarrow>
          if mget (sec_Data secret) TopologySecretDataKey \<noteq> None then isTopologySecretHasMgmtAddr secret
          else mget (sec_Data secret) SecretManagementAddressKey \<noteq> None)"

fun SecretMgmtAddrPredicate :: "event \<Rightarrow> bool res" where
  "SecretMgmtAddrPredicate (CreateEvent x) = Ok (secretHasMgmtAddr x)"
| "SecretMgmtAddrPredicate (DeleteEvent x) = Ok (secretHasMgmtAddr x)"
| "SecretMgmtAddrPredicate (UpdateEvent old new) =
     (case asSecret new of
        None \<Rightarrow> Panic ''interface conversion''
      | Some newSecret \<Rightarrow>
          (case asSecret old of
             None \<Rightarrow> Ok False
           | Some oldSecret \<Rightarrow>
               if mget (sec_Data oldSecret) TopologySecretDataKey \<noteq> None
               then Ok (isTopologySecretUpdated oldSecret newSecret)
               else Ok (case (mget (sec_Data oldSecret) SecretManagementAddressKey,
                              mget (sec_Data newSecret) SecretManagementAddressKey) of
                          (Some a, Some b) \<Rightarrow> a \<noteq> b
                        | _ \<Rightarrow> False)))"
| "SecretMgmtAddrPredicate (GenericEvent x) = Ok False"

section \<open>The pools ConfigMap\<close>

definition initScPoolConfigMap :: "string \<Rightarrow> ConfigMap" where
  "initScPoolConfigMap ns = \<lparr>cm_Meta = (mkMeta PoolConfigmapName ns)\<lparr>om_Labels := GetLabels\<rparr>, cm_Data = NilMap\<rparr>"

definition GetCreateConfigmap :: "'w env \<Rightarrow> string \<Rightarrow> bool \<Rightarrow> ('w, goerr + ConfigMap) oper" where
  "GetCreateConfigmap E ns createIfMissing = do {
     r \<leftarrow> getAs E asConfigMap KConfigMap ns PoolConfigmapName;
     (case r of
        Inl e \<Rightarrow>
          if IsNotFound e \<and> createIfMissing then do {
            r' \<leftarrow> createAs E asConfigMap (OConfigMap ((initScPoolConfigMap ns)\<lparr>cm_Data := MkMap []\<rparr>));
            (case r' of Inl e' \<Rightarrow> ret (Inl e') | Inr cm \<Rightarrow> ret (Inr cm))
          } else ret (Inl e)
      | Inr cm \<Rightarrow> ret (Inr cm))
   }"

section \<open>Clusters by management address\<close>

fun mapClustersLoop :: "'w env \<Rightarrow> FlashSystemCluster list \<Rightarrow> (string, FlashSystemCluster) gomap
    \<Rightarrow> ('w, goerr + (string, FlashSystemCluster) gomap) oper" where
  "mapClustersLoop E [] m = ret (Inr m)"
| "mapClustersLoop E (cluster # rest) m = do {
     r \<leftarrow> getAs E asSecret KSecret (sr_Namespace (fs_Secret (fsc_Spec cluster)))
            (sr_Name (fs_Secret (fsc_Spec cluster)));
     (case r of
        Inl e \<Rightarrow> ret (Inl e)
      | Inr clusterSecret \<Rightarrow>
          mapClustersLoop E rest (mput m (mgets (sec_Data clusterSecret) SecretManagementAddressKey) cluster))
   }"

definition MapClustersByMgmtAddress :: "'w env \<Rightarrow> ('w, goerr + (string, FlashSystemCluster) gomap) oper" where
  "MapClustersByMgmtAddress E = do {
     r \<leftarrow> listAs E asFsc KFsc None [];
     (case r of Inl e \<Rightarrow> ret (Inl e) | Inr clusters \<Rightarrow> mapClustersLoop E clusters (MkMap []))
   }"

section \<open>The secret of a storage class\<close>

definition GetStorageClassSecretNamespacedName :: "StorageClass \<Rightarrow> goerr + (string \<times> string)" where
  "GetStorageClassSecretNamespacedName sc =
     (let p = sc_Parameters sc;
          secretName = mgets p DefaultSecretNameKey;
          secretNamespace = mgets p DefaultSecretNamespaceKey
      in if secretName = [] \<or> secretNamespace = [] then
           (let secretName = mgets p ProvisionerSecretNameKey;
                secretNamespace = mgets p ProvisionerSecretNamespaceKey
            in if secretName = [] \<or> secretNamespace = []
               then Inl (FmtError ''failed to find secret name or namespace in StorageClass'')
               else Inr (secretName, secretNamespace))
         else Inr (secretName, secretNamespace))"

definition GetStorageClassSecret :: "'w env \<Rightarrow> StorageClass \<Rightarrow> ('w, goerr + Secret) oper" where
  "GetStorageClassSecret E sc =
     (case GetStorageClassSecretNamespacedName sc of
        Inl e \<Rightarrow> ret (Inl e)
      | Inr (secretName, secretNamespace) \<Rightarrow> getAs E asSecret KSecret secretNamespace secretName)"

section \<open>Which calls these operations issue\<close>

lemma issues_GetCreateConfigmap [issues_intro]:
  assumes "P (RGet KConfigMap ns PoolConfigmapName)"
    and "c \<Longrightarrow> P (RCreate (OConfigMap ((initScPoolConfigMap ns)\<lparr>cm_Data := MkMap []\<rparr>)))"
  shows "issues P (GetCreateConfigmap E ns c)"
  unfolding GetCreateConfigmap_def using assms by (cases c) (auto intro!: issues_intro)

lemma issues_mapClustersLoop:
  "(\<And>ns n. P (RGet KSecret ns n)) \<Longrightarrow> issues P (mapClustersLoop E cs m)"
  by (induction cs arbitrary: m) (auto intro!: issues_intro)

lemma issues_MapClustersByMgmtAddress [issues_intro]:
  "(\<And>ns n. P (RGet KSecret ns n)) \<Longrightarrow> P (RList KFsc None []) \<Longrightarrow> issues P (MapClustersByMgmtAddress E)"
  unfolding MapClustersByMgmtAddress_def by (intro issues_intro issues_mapClustersLoop; assumption?)

lemma issues_GetStorageClassSecret [issues_intro]:
  "(\<And>ns n. P (RGet KSecret ns n)) \<Longrightarrow> issues P (GetStorageClassSecret E sc)"
  unfolding GetStorageClassSecret_def by (auto intro!: issues_intro split: sum.split)

section \<open>The pools ConfigMap in the cluster\<close>

text \<open>The ConfigMap the server holds, its entries, and that it is not under deletion.\<close>

definition poolKey :: "string \<Rightarrow> objkey" where
  "poolKey ns = (KConfigMap, ns, PoolConfigmapName)"

definition cmVersion :: "ConfigMap \<Rightarrow> string" where
  "cmVersion c = om_ResourceVersion (cm_Meta c)"

definition poolCm :: "'w view \<Rightarrow> string \<Rightarrow> 'w \<Rightarrow> ConfigMap option" where
  "poolCm v ns w = (case v w (poolKey ns) of Some (OConfigMap c) \<Rightarrow> Some c | _ \<Rightarrow> None)"

definition poolEntry :: "'w view \<Rightarrow> string \<Rightarrow> 'w \<Rightarrow> string \<Rightarrow> string option" where
  "poolEntry v ns w k = (case poolCm v ns w of Some c \<Rightarrow> mget (cm_Data c) k | None \<Rightarrow> None)"

definition poolLive :: "'w view \<Rightarrow> string \<Rightarrow> 'w \<Rightarrow> bool" where
  "poolLive v ns w = (case poolCm v ns w of Some c \<Rightarrow> om_DeletionTimestamp (cm_Meta c) = None | None \<Rightarrow> True)"

lemma poolCm_eq_Some: "poolCm v ns w = Some c \<longleftrightarrow> v w (poolKey ns) = Some (OConfigMap c)"
  by (auto simp: poolCm_def split: option.splits kobj.splits)

lemma keyOf_ConfigMap: "keyOf (OConfigMap c) = poolKey ns \<longleftrightarrow>
    om_Namespace (cm_Meta c) = ns \<and> om_Name (cm_Meta c) = PoolConfigmapName"
  by (auto simp: keyOf_def poolKey_def)

lemma poolEntry_upd: "v w (poolKey ns) = Some (OConfigMap c) \<Longrightarrow> poolEntry v ns w k = mget (cm_Data c) k"
  by (simp add: poolEntry_def poolCm_def)

text \<open>What \<open>GetCreateConfigmap\<close> returns is the ConfigMap the server holds then; the entries do not change.\<close>

lemma wp_GetCreateConfigmap:
  assumes laws: "api_laws E v" and live: "poolLive v ns (world s)"
    and Fail: "\<And>e t. onlyAt (poolKey ns) (v (world s)) (v (world t)) \<Longrightarrow> watchNamespace t = watchNamespace s \<Longrightarrow>
       Q (Inl e) t"
    and Got: "\<And>cm t. onlyAt (poolKey ns) (v (world s)) (v (world t)) \<Longrightarrow> watchNamespace t = watchNamespace s \<Longrightarrow>
       v (world t) (poolKey ns) = Some (OConfigMap cm) \<Longrightarrow> keyOf (OConfigMap cm) = poolKey ns \<Longrightarrow>
       om_DeletionTimestamp (cm_Meta cm) = None \<Longrightarrow>
       (\<And>k. mget (cm_Data cm) k = poolEntry v ns (world s) k) \<Longrightarrow> Q (Inr cm) t"
  shows "wpre (GetCreateConfigmap E ns c) Q s"
proof -
  let ?x = "OConfigMap ((initScPoolConfigMap ns)\<lparr>cm_Data := MkMap []\<rparr>)"
  have k: "keyOf ?x = poolKey ns" by (simp add: keyOf_ConfigMap initScPoolConfigMap_def)
  have create: "wpre (createAs E asConfigMap ?x) (\<lambda>r. wpre (case r of Inl e \<Rightarrow> ret (Inl e) | Inr cm \<Rightarrow> ret (Inr cm)) Q) t"
    if t: "v (world t) = v (world s)" "v (world s) (poolKey ns) = None" "watchNamespace t = watchNamespace s" for t
    unfolding wp
    by (rule wp_createAs_laws [OF laws])
      (use t k in \<open>auto intro!: Fail Got simp: onlyAt_def poolEntry_def poolCm_def agrees_def sameEntries_def
        deletionOf_def\<close>)
  show ?thesis
    unfolding GetCreateConfigmap_def wp_bind [of "getAs _ _ _ _ _"]
  proof (rule wp_getAs_laws [OF laws])
    fix e r w
    assume "v w = v (world s)" and "IsNotFound e \<Longrightarrow> v (world s) (KConfigMap, ns, PoolConfigmapName) = None"
    then show "wpre (case Inl e of Inl e \<Rightarrow> if IsNotFound e \<and> c then do {
            r' \<leftarrow> createAs E asConfigMap ?x;
            (case r' of Inl e' \<Rightarrow> ret (Inl e') | Inr cm \<Rightarrow> ret (Inr cm)) } else ret (Inl e)
          | Inr cm \<Rightarrow> ret (Inr cm)) Q (afterCall (RGet KConfigMap ns PoolConfigmapName) r w s)"
      using create [of "afterCall (RGet KConfigMap ns PoolConfigmapName) r w s"]
      by (auto simp: wp poolKey_def onlyAt_def intro!: Fail)
  qed (use live in \<open>auto simp: wp onlyAt_def poolEntry_def poolLive_def poolCm_def poolKey_def intro!: Got\<close>)
qed

text \<open>An update of the ConfigMap that is acknowledged stores the data it carries.\<close>

lemma wp_updateConfigMap:
  assumes laws: "api_laws E v" and key: "keyOf (OConfigMap cm) = poolKey ns" and live: "poolLive v ns (world s)"
    and Fail: "\<And>e t. onlyAt (poolKey ns) (v (world s)) (v (world t)) \<Longrightarrow> watchNamespace t = watchNamespace s \<Longrightarrow>
       Q (Inl e) t"
    and Done: "\<And>cm' t. onlyAt (poolKey ns) (v (world s)) (v (world t)) \<Longrightarrow> watchNamespace t = watchNamespace s \<Longrightarrow>
       v (world t) (poolKey ns) = Some (OConfigMap cm') \<Longrightarrow> keyOf (OConfigMap cm') = poolKey ns \<Longrightarrow>
       om_DeletionTimestamp (cm_Meta cm') = None \<Longrightarrow>
       (\<And>k. mget (cm_Data cm') k = mget (cm_Data cm) k) \<Longrightarrow> Q (Inr cm') t"
  shows "wpre (updateAs E asConfigMap (OConfigMap cm)) Q s"
proof (rule wp_updateAs_laws [OF laws])
  fix z x' y w
  assume a: "v (world s) (keyOf (OConfigMap cm)) = Some z" "deletionOf x' = deletionOf z" "agrees (OConfigMap cm) x'"
    "asConfigMap x' = Some y"
    "v w = (v (world s))(keyOf (OConfigMap cm) := if released x' then None else Some x')"
  have "keyOf z = poolKey ns"
    using api_lawsD(1) [OF laws, of "world s"] a(1) key by (simp add: poolKey_def)
  then obtain c where "z = OConfigMap c" by (cases z) (auto simp: keyOf_def poolKey_def)
  with a(1) key live have "deletionOf z = None" by (simp add: poolLive_def poolCm_def deletionOf_def)
  with a key show "Q (Inr y) (afterCall (RUpdate (OConfigMap cm)) (ROk x') w s)"
    by (auto intro!: Done simp: released_def onlyAt_def agrees_def sameEntries_def deletionOf_def)
qed (use key in \<open>auto intro!: Fail\<close>)

section \<open>Operations that only read\<close>

lemma keeps_mapClustersLoop: "api_laws E v \<Longrightarrow> keeps v (mapClustersLoop E cs m)"
  by (induction cs arbitrary: m) (auto intro!: keeps_intro)

lemma keeps_MapClustersByMgmtAddress: "api_laws E v \<Longrightarrow> keeps v (MapClustersByMgmtAddress E)"
  unfolding MapClustersByMgmtAddress_def by (intro keeps_intro keeps_mapClustersLoop)

end
