(* ===== verification/Filepath.thy ===== *)
theory Filepath
  imports Gostd
begin

text \<open>
  The lexical path operations of \<^verbatim>\<open>path/filepath\<close> on Unix. A cleaned path is described by its
  components: empty ones and \<^verbatim>\<open>.\<close> are dropped, \<^verbatim>\<open>..\<close> removes the component before it, and at the
  root it is dropped.
\<close>

section \<open>Definitions\<close>

definition slash :: char where "slash = CHR ''/''"

definition IsAbs :: "string \<Rightarrow> bool" where
  "IsAbs p = HasPrefix p [slash]"

definition comps :: "string \<Rightarrow> string list" where
  "comps p = filter (\<lambda>x. x \<noteq> [] \<and> x \<noteq> ''.'') (Split p slash)"

fun cleanStack :: "bool \<Rightarrow> string list \<Rightarrow> string list \<Rightarrow> string list" where
  "cleanStack rooted st [] = st"
| "cleanStack rooted st (x # xs) =
     (if x = ''..'' then
        (case st of
           y # st' \<Rightarrow> if y \<noteq> ''..'' then cleanStack rooted st' xs else cleanStack rooted (x # st) xs
         | [] \<Rightarrow> if rooted then cleanStack rooted [] xs else cleanStack rooted [x] xs)
      else cleanStack rooted (x # st) xs)"

definition cleanComps :: "string \<Rightarrow> string list" where
  "cleanComps p = rev (cleanStack (IsAbs p) [] (comps p))"

definition Clean :: "string \<Rightarrow> string" where
  "Clean p =
     (if IsAbs p then slash # intercalate slash (cleanComps p)
      else if cleanComps p = [] then ''.'' else intercalate slash (cleanComps p))"

definition Join :: "string \<Rightarrow> string \<Rightarrow> string" where
  "Join a b =
     (if a = [] \<and> b = [] then [] else if a = [] then Clean b else if b = [] then Clean a
      else Clean (a @ slash # b))"

text \<open>The directory of a path: what precedes its last slash, that slash included, cleaned.\<close>

definition Dir :: "string \<Rightarrow> string" where
  "Dir p = Clean (rev (dropWhile (\<lambda>c. c \<noteq> slash) (rev p)))"

definition Abs :: "(goerr + string) \<Rightarrow> string \<Rightarrow> goerr + string" where
  "Abs wd p =
     (if IsAbs p then Inr (Clean p)
      else case wd of Inl e \<Rightarrow> Inl e | Inr d \<Rightarrow> Inr (Join d p))"

section \<open>Components of a cleaned path\<close>

definition goodComp :: "string \<Rightarrow> bool" where
  "goodComp x \<longleftrightarrow> x \<noteq> [] \<and> x \<noteq> ''.'' \<and> slash \<notin> set x"

lemma comps_good: "x \<in> set (comps p) \<Longrightarrow> goodComp x"
  by (auto simp: comps_def goodComp_def dest: Split_no_sep)

lemma set_cleanStack: "set (cleanStack r st xs) \<subseteq> set st \<union> set xs"
  by (induction r st xs rule: cleanStack.induct) (auto split: list.splits if_splits)

lemma cleanComps_good: "x \<in> set (cleanComps p) \<Longrightarrow> goodComp x"
  using set_cleanStack [of "IsAbs p" "[]" "comps p"] by (auto simp: cleanComps_def intro: comps_good)

lemma cleanStack_rooted: "''..'' \<notin> set st \<Longrightarrow> ''..'' \<notin> set (cleanStack True st xs)"
  by (induction True st xs rule: cleanStack.induct) (auto split: list.splits if_splits)

lemma cleanComps_rooted: "IsAbs p \<Longrightarrow> ''..'' \<notin> set (cleanComps p)"
  by (simp add: cleanComps_def cleanStack_rooted)

lemma cleanStack_id: "''..'' \<notin> set xs \<Longrightarrow> cleanStack r st xs = rev xs @ st"
  by (induction xs arbitrary: st) auto

text \<open>Splitting what was joined gives the components back.\<close>

lemma split_acc_append:
  "c \<notin> set x \<Longrightarrow> split_acc c acc (x @ c # s) = (rev acc @ x) # split_acc c [] s"
  by (induction x arbitrary: acc) auto

lemma split_acc_plain: "c \<notin> set x \<Longrightarrow> split_acc c acc x = [rev acc @ x]"
  by (induction x arbitrary: acc) auto

lemma Split_intercalate:
  "xs \<noteq> [] \<Longrightarrow> (\<And>x. x \<in> set xs \<Longrightarrow> c \<notin> set x) \<Longrightarrow> Split (intercalate c xs) c = xs"
proof (induction xs)
  case Nil
  then show ?case by simp
next
  case (Cons x xs)
  show ?case
  proof (cases "xs = []")
    case True
    with Cons.prems show ?thesis by (simp add: Split_def split_acc_plain)
  next
    case False
    then have "Split (intercalate c (x # xs)) c = x # Split (intercalate c xs) c"
      using Cons.prems by (simp add: intercalate_Cons Split_def split_acc_append)
    with False Cons show ?thesis by simp
  qed
qed

lemma comps_rooted_intercalate:
  assumes "\<And>x. x \<in> set xs \<Longrightarrow> goodComp x"
  shows "comps (slash # intercalate slash xs) = xs"
proof (cases "xs = []")
  case True
  then show ?thesis by (simp add: comps_def Split_def)
next
  case False
  have "Split (slash # intercalate slash xs) slash = [] # Split (intercalate slash xs) slash"
    by (simp add: Split_def)
  also have "\<dots> = [] # xs"
    using False assms by (subst Split_intercalate) (auto simp: goodComp_def)
  finally show ?thesis using assms by (auto simp: comps_def goodComp_def filter_id_conv)
qed

lemma IsAbs_slash [simp]: "IsAbs (slash # p)"
  by (simp add: IsAbs_def HasPrefix_def)

lemma IsAbs_Clean: "IsAbs p \<Longrightarrow> IsAbs (Clean p)"
  by (simp add: Clean_def)

lemma comps_Clean: "IsAbs p \<Longrightarrow> comps (Clean p) = cleanComps p"
  by (simp add: Clean_def comps_rooted_intercalate cleanComps_good)

lemma cleanComps_Clean: "IsAbs p \<Longrightarrow> cleanComps (Clean p) = cleanComps p"
  by (simp add: cleanComps_def [of "Clean p"] IsAbs_Clean comps_Clean cleanStack_id cleanComps_rooted)

lemma Clean_idem: "IsAbs p \<Longrightarrow> Clean (Clean p) = Clean p"
  by (simp add: Clean_def [of "Clean p"] IsAbs_Clean cleanComps_Clean) (simp add: Clean_def)

lemma Clean_eq_iff:
  "IsAbs p \<Longrightarrow> IsAbs q \<Longrightarrow> Clean p = Clean q \<longleftrightarrow> cleanComps p = cleanComps q"
  by (metis Clean_def comps_Clean)

section \<open>A prefix of a cleaned path is a prefix of its components\<close>

lemma intercalate_append_slash:
  assumes "xs \<noteq> []" and "ys \<noteq> []"
    and "\<And>x. x \<in> set xs \<Longrightarrow> c \<notin> set x" and "\<And>y. y \<in> set ys \<Longrightarrow> c \<notin> set y"
    and "prefix (intercalate c xs @ [c]) (intercalate c ys)"
  shows "\<exists>zs. zs \<noteq> [] \<and> ys = xs @ zs"
  using assms
proof (induction xs arbitrary: ys)
  case Nil
  then show ?case by simp
next
  case (Cons x xs)
  then obtain y ys' where ys: "ys = y # ys'" by (cases ys) auto
  have nx: "c \<notin> set x" and ny: "c \<notin> set y" using Cons.prems ys by auto
  have two: "intercalate c ys = y @ c # intercalate c ys'" if "ys' \<noteq> []"
    using that ys by (simp add: intercalate_Cons)
  obtain u where u: "intercalate c (x # xs) @ [c] = x @ c # u"
    by (cases xs) auto
  have ne: "ys' \<noteq> []"
    using Cons.prems(5) ny u ys by (auto simp: prefix_def)
  have "prefix (x @ c # u) (y @ c # intercalate c ys')"
    using Cons.prems(5) u two [OF ne] by simp
  then have xy: "x = y" and pu: "prefix u (intercalate c ys')"
    using nx ny by (auto simp: prefix_def append_eq_append_conv2 append_eq_Cons_conv Cons_eq_append_conv)
  show ?case
  proof (cases "xs = []")
    case True
    with xy ys ne show ?thesis by auto
  next
    case False
    then have "u = intercalate c xs @ [c]" using u by (simp add: intercalate_Cons)
    with pu False ne Cons.prems ys obtain zs where "zs \<noteq> []" "ys' = xs @ zs"
      using Cons.IH [of ys'] by auto
    with xy ys show ?thesis by auto
  qed
qed

end
