(* ===== verification/Exporter.thy ===== *)
theory Exporter
  imports Poolutil Filepath
begin

text \<open>
  \<^verbatim>\<open>controllers/exporter.go\<close>: the three objects of the exporter (service, deployment, service monitor)
  with their expected state and their update rule, and the Prometheus rules of a cluster.
\<close>

section \<open>Names\<close>

definition ExporterClusterConfigMapVolumeName :: string where
  "ExporterClusterConfigMapVolumeName = ''storageclass-pool''"
definition ServiceAccount :: string where "ServiceAccount = ''ibm-storage-odf-operator''"
definition fsObjectsPrefix :: string where "fsObjectsPrefix = ''ibm-flashsystem-storage''"
definition fsServiceName :: string where "fsServiceName = ''ibm-flashsystem-storage-service''"
definition fsDeploymentName :: string where "fsDeploymentName = ''ibm-flashsystem-storage-deployment''"
definition fsServiceMonitorName :: string where
  "fsServiceMonitorName = ''ibm-flashsystem-storage-service-monitor''"
definition portMetrics :: string where "portMetrics = ''metrics''"
definition scrapeInterval :: string where "scrapeInterval = ''1m''"
definition scrapeTimeout :: string where "scrapeTimeout = ''20s''"
definition FlashSystemPrometheusRuleFilepath :: string where
  "FlashSystemPrometheusRuleFilepath = ''/prometheus-rules/prometheus-flashsystem-rules.yaml''"
definition FlashSystemPrometheusRuleFileEnv :: string where
  "FlashSystemPrometheusRuleFileEnv = ''TEST_FS_PROM_RULE_FILE''"

definition IsFSCSecret :: "string \<Rightarrow> bool" where
  "IsFSCSecret secretName = HasPrefix secretName fsObjectsPrefix"

definition getExporterDeploymentName :: string where
  "getExporterDeploymentName = fsDeploymentName"
definition getExporterMetricsServiceName :: string where
  "getExporterMetricsServiceName = fsServiceName"
definition getExporterMetricsServiceMonitorName :: string where
  "getExporterMetricsServiceMonitorName = fsServiceMonitorName"

section \<open>Owners\<close>

fun isOwnerExist :: "OwnerReference list \<Rightarrow> OwnerReference \<Rightarrow> bool" where
  "isOwnerExist [] newOwner = False"
| "isOwnerExist (owner # owners) newOwner =
     (if or_UID owner = or_UID newOwner then True else isOwnerExist owners newOwner)"

text \<open>The owner reference the sources build for an instance.\<close>

definition ownerOf :: "FlashSystemCluster \<Rightarrow> OwnerReference" where
  "ownerOf inst = \<lparr>or_APIVersion = fsc_APIVersion inst, or_Kind = fsc_Kind inst,
     or_Name = om_Name (fsc_Meta inst), or_UID = om_UID (fsc_Meta inst)\<rparr>"

text \<open>The metadata of an exporter object: labelled, owned by the instance, in its namespace.\<close>

definition exporterMeta :: "string \<Rightarrow> FlashSystemCluster \<Rightarrow> ObjectMeta" where
  "exporterMeta name inst = (mkMeta name (om_Namespace (fsc_Meta inst)))
     \<lparr>om_Labels := GetLabels, om_OwnerReferences := Some [ownerOf inst]\<rparr>"

section \<open>The service\<close>

definition metricsPort :: ServicePort where
  "metricsPort = \<lparr>sp_Name = portMetrics, sp_Protocol = ''TCP'', sp_AppProtocol = None, sp_Port = 9100,
     sp_TargetPort = \<lparr>ios_Type = IntT, ios_IntVal = 9100, ios_StrVal = ''9100''\<rparr>, sp_NodePort = 0\<rparr>"

definition InitExporterMetricsService :: "FlashSystemCluster \<Rightarrow> Service" where
  "InitExporterMetricsService inst =
     \<lparr>svc_Meta = exporterMeta getExporterMetricsServiceName inst,
      svc_Spec = \<lparr>svs_Type = ''ClusterIP'', svs_Ports = [metricsPort], svs_Selector = GetLabels, svs_Rest = []\<rparr>\<rparr>"

text \<open>
  The expected service always comes from \<open>InitExporterMetricsService\<close>, so its first port exists.
\<close>

definition updateExporterMetricsService :: "Service \<Rightarrow> Service \<Rightarrow> OwnerReference \<Rightarrow> Service option" where
  "updateExporterMetricsService found expected newOwner =
     (let isChanged = (svs_Type (svc_Spec found) \<noteq> svs_Type (svc_Spec expected));
          isChanged = (if length (svs_Ports (svc_Spec found)) \<noteq> 1 \<or>
                          svs_Ports (svc_Spec found) ! 0 \<noteq> svs_Ports (svc_Spec expected) ! 0
                       then True else isChanged);
          owners = GetOwnerReferences (svc_Meta found);
          missing = \<not> isOwnerExist owners newOwner;
          found = (if missing
                   then found\<lparr>svc_Meta := SetOwnerReferences (owners @ [newOwner]) (svc_Meta found)\<rparr>
                   else found);
          isChanged = (if missing then True else isChanged)
      in if isChanged then
           Some (found\<lparr>svc_Spec := (svc_Spec found)\<lparr>svs_Type := ''ClusterIP'', svs_Ports := [metricsPort],
             svs_Selector := GetLabels\<rparr>\<rparr>)
         else None)"

section \<open>The deployment\<close>

text \<open>A resource quantity is represented by the text it is parsed from.\<close>

definition exporterProbe :: "int \<Rightarrow> Probe" where
  "exporterProbe delay = \<lparr>pr_Path = ''/'', pr_Port = 9100, pr_InitialDelaySeconds = delay,
     pr_TimeoutSeconds = 1, pr_PeriodSeconds = 10, pr_SuccessThreshold = 1, pr_FailureThreshold = 3\<rparr>"

definition exporterContainer :: "FlashSystemCluster \<Rightarrow> string \<Rightarrow> string \<Rightarrow> Container" where
  "exporterContainer inst pullPolicy img =
     \<lparr>ct_Name = getExporterDeploymentName, ct_Image = img, ct_ImagePullPolicy = pullPolicy,
      ct_Env = [(WatchNamespaceEnvVar, om_Namespace (fsc_Meta inst))],
      ct_Requests = MkMap [(''cpu'', ''0.5''), (''memory'', ''500Mi'')],
      ct_Limits = MkMap [(''cpu'', ''1''), (''memory'', ''1Gi'')],
      ct_Ports = [\<lparr>cp_Name = portMetrics, cp_Protocol = ''TCP'', cp_ContainerPort = 9100\<rparr>],
      ct_VolumeMounts = [(ExporterClusterConfigMapVolumeName, FSCConfigmapMountPath)],
      ct_LivenessProbe = Some (exporterProbe 15), ct_ReadinessProbe = Some (exporterProbe 5),
      ct_SecurityContext = Some \<lparr>sctx_RunAsNonRoot = True, sctx_AllowPrivilegeEscalation = False,
        sctx_SeccompProfile = ''RuntimeDefault'', sctx_DropCapabilities = [''ALL'']\<rparr>,
      ct_Rest = []\<rparr>"

definition InitExporterDeployment :: "FlashSystemCluster \<Rightarrow> string \<Rightarrow> string \<Rightarrow> goerr + Deployment" where
  "InitExporterDeployment inst pullPolicy img = Inr
     \<lparr>dep_Meta = exporterMeta getExporterDeploymentName inst,
      dep_Spec = \<lparr>ds_Replicas = Some 1, ds_MatchLabels = GetLabels, ds_TemplateLabels = GetLabels,
        ds_Containers = [exporterContainer inst pullPolicy img],
        ds_ServiceAccountName = ServiceAccount,
        ds_Volumes = [(ExporterClusterConfigMapVolumeName, PoolConfigmapName)], ds_Rest = []\<rparr>\<rparr>"

text \<open>\<^verbatim>\<open>reflect.DeepEqual\<close>: field by field, maps as maps.\<close>

definition containerEq :: "Container \<Rightarrow> Container \<Rightarrow> bool" where
  "containerEq a b \<longleftrightarrow> mapEq (ct_Requests a) (ct_Requests b) \<and> mapEq (ct_Limits a) (ct_Limits b) \<and>
     a\<lparr>ct_Requests := NilMap, ct_Limits := NilMap\<rparr> = b\<lparr>ct_Requests := NilMap, ct_Limits := NilMap\<rparr>"

definition deploymentSpecEq :: "DeploymentSpec \<Rightarrow> DeploymentSpec \<Rightarrow> bool" where
  "deploymentSpecEq a b \<longleftrightarrow> mapEq (ds_MatchLabels a) (ds_MatchLabels b) \<and>
     mapEq (ds_TemplateLabels a) (ds_TemplateLabels b) \<and>
     list_all2 containerEq (ds_Containers a) (ds_Containers b) \<and>
     a\<lparr>ds_MatchLabels := NilMap, ds_TemplateLabels := NilMap, ds_Containers := []\<rparr> =
     b\<lparr>ds_MatchLabels := NilMap, ds_TemplateLabels := NilMap, ds_Containers := []\<rparr>"

definition updateExporterDeployment :: "Deployment \<Rightarrow> Deployment \<Rightarrow> OwnerReference \<Rightarrow> Deployment option" where
  "updateExporterDeployment found expected newOwner =
     (let owners = GetOwnerReferences (dep_Meta found);
          isExist = isOwnerExist owners newOwner;
          found = (if \<not> isExist
                   then found\<lparr>dep_Meta := SetOwnerReferences (owners @ [newOwner]) (dep_Meta found)\<rparr>
                   else found)
      in if \<not> deploymentSpecEq (dep_Spec found) (dep_Spec expected) \<or> \<not> isExist
         then Some (found\<lparr>dep_Spec := dep_Spec expected\<rparr>)
         else None)"

section \<open>The service monitor\<close>

definition InitExporterMetricsServiceMonitor :: "FlashSystemCluster \<Rightarrow> ServiceMonitor" where
  "InitExporterMetricsServiceMonitor inst =
     \<lparr>sm_Meta = exporterMeta fsServiceMonitorName inst,
      sm_Spec = \<lparr>sms_MatchNames = [om_Namespace (fsc_Meta inst)], sms_MatchLabels = GetLabels,
        sms_Endpoints = [\<lparr>ep_Port = portMetrics, ep_Interval = scrapeInterval,
          ep_ScrapeTimeout = scrapeTimeout, ep_Rest = []\<rparr>],
        sms_Rest = []\<rparr>\<rparr>"

definition monitorSpecEq :: "ServiceMonitorSpec \<Rightarrow> ServiceMonitorSpec \<Rightarrow> bool" where
  "monitorSpecEq a b \<longleftrightarrow> mapEq (sms_MatchLabels a) (sms_MatchLabels b) \<and>
     a\<lparr>sms_MatchLabels := NilMap\<rparr> = b\<lparr>sms_MatchLabels := NilMap\<rparr>"

definition updateExporterMetricsServiceMonitor ::
    "ServiceMonitor \<Rightarrow> ServiceMonitor \<Rightarrow> OwnerReference \<Rightarrow> ServiceMonitor option" where
  "updateExporterMetricsServiceMonitor found expected newOwner =
     (let owners = GetOwnerReferences (sm_Meta found);
          isExist = isOwnerExist owners newOwner;
          found = (if \<not> isExist
                   then found\<lparr>sm_Meta := SetOwnerReferences (owners @ [newOwner]) (sm_Meta found)\<rparr>
                   else found)
      in if monitorSpecEq (sm_Spec found) (sm_Spec expected) \<and> isExist then None
         else Some (found\<lparr>sm_Spec := sm_Spec expected\<rparr>))"

section \<open>The Prometheus rules\<close>

definition getFlashSystemPrometheusRuleFilepath :: "'w env \<Rightarrow> string" where
  "getFlashSystemPrometheusRuleFilepath E =
     (case lookupEnv E FlashSystemPrometheusRuleFileEnv of
        Some file \<Rightarrow> file | None \<Rightarrow> FlashSystemPrometheusRuleFilepath)"

text \<open>One rule of the template: an expression that is a number is left alone; assigning to nil labels panics.\<close>

definition updateRule :: "string \<Rightarrow> string \<Rightarrow> Rule \<Rightarrow> Rule res" where
  "updateRule template name rule =
     (if ios_Type (rule_Expr rule) = StringT then
        (case mset (rule_Labels rule) ''managedBy'' name of
           None \<Rightarrow> Panic ''assignment to entry in nil map''
         | Some ls \<Rightarrow> Ok (rule\<lparr>rule_Expr := (rule_Expr rule)\<lparr>ios_StrVal :=
              ReplaceAll (ios_StrVal (rule_Expr rule)) template name\<rparr>, rule_Labels := ls\<rparr>))
      else Ok rule)"

fun updateRules :: "string \<Rightarrow> string \<Rightarrow> Rule list \<Rightarrow> Rule list res" where
  "updateRules template name [] = Ok []"
| "updateRules template name (r # rs) =
     (case updateRule template name r of
        Err e \<Rightarrow> Err e | Panic p \<Rightarrow> Panic p
      | Ok r' \<Rightarrow>
          (case updateRules template name rs of
             Err e \<Rightarrow> Err e | Panic p \<Rightarrow> Panic p | Ok rs' \<Rightarrow> Ok (r' # rs')))"

fun updateGroups :: "string \<Rightarrow> string \<Rightarrow> RuleGroup list \<Rightarrow> RuleGroup list res" where
  "updateGroups template name [] = Ok []"
| "updateGroups template name (g # gs) =
     (case updateRules template name (rg_Rules g) of
        Err e \<Rightarrow> Err e | Panic p \<Rightarrow> Panic p
      | Ok rs \<Rightarrow>
          (case updateGroups template name gs of
             Err e \<Rightarrow> Err e | Panic p \<Rightarrow> Panic p | Ok gs' \<Rightarrow> Ok (g\<lparr>rg_Rules := rs\<rparr> # gs')))"

definition mergeLabels :: "(string, string) gomap \<Rightarrow> (string, string) gomap \<Rightarrow> (string, string) gomap" where
  "mergeLabels updateLabels labels =
     (case updateLabels of
        NilMap \<Rightarrow> labels
      | MkMap _ \<Rightarrow> fold (\<lambda>k m. mput m k (mgets labels k)) (mkeys labels) updateLabels)"

definition instantiateRule :: "PrometheusRule \<Rightarrow> FlashSystemCluster \<Rightarrow> OwnerReference \<Rightarrow> PrometheusRule res" where
  "instantiateRule promRule inst newOwner =
     (let template = om_Name (pru_Meta promRule);
          name = om_Name (fsc_Meta inst);
          m = (pru_Meta promRule)\<lparr>om_Name := name, om_Namespace := om_Namespace (fsc_Meta inst),
                 om_Labels := mergeLabels (om_Labels (pru_Meta promRule)) GetLabels\<rparr>
      in case updateGroups template name (pru_Groups promRule) of
           Err e \<Rightarrow> Err e | Panic p \<Rightarrow> Panic p
         | Ok gs \<Rightarrow> Ok \<lparr>pru_Meta = SetOwnerReferences [newOwner] m, pru_Groups = gs\<rparr>)"

definition getPrometheusRules :: "'w env \<Rightarrow> FlashSystemCluster \<Rightarrow> OwnerReference \<Rightarrow> ('w, PrometheusRule res) oper" where
  "getPrometheusRules E inst newOwner = do {
     ruleFile \<leftarrow> askWorld (readFile E (Clean (getFlashSystemPrometheusRuleFilepath E)));
     (case ruleFile of
        Inl e \<Rightarrow> ret (Err (FmtError (''PrometheusRules file could not be fetched. '' @ errText e)))
      | Inr text \<Rightarrow>
          (case yamlRule E text of
             Inl e \<Rightarrow> ret (Err (FmtError (''PrometheusRules could not be decoded. '' @ errText e)))
           | Inr promRule \<Rightarrow> ret (instantiateRule promRule inst newOwner)))
   }"

lemma issues_getPrometheusRules [issues_intro]: "issues P (getPrometheusRules E inst o')"
  unfolding getPrometheusRules_def by (intro issues_intro)

end
