(* ===== verification/Safeio.thy ===== *)
theory Safeio
  imports Client Filepath
begin

text \<open>
  \<^verbatim>\<open>controllers/util/safeio.go\<close>: finding the module root by walking up the directories, and keeping a
  path under a base directory.
\<close>

section \<open>Walking up ends at the root\<close>

definition wt :: "string list \<Rightarrow> nat" where
  "wt xs = sum_list (map (\<lambda>x. Suc (length x)) xs)"

lemma wt_simps [simp]: "wt [] = 0" "wt (x # xs) = Suc (length x) + wt xs" "wt (xs @ ys) = wt xs + wt ys"
  by (simp_all add: wt_def)

lemma wt_rev [simp]: "wt (rev xs) = wt xs"
  by (induction xs) simp_all

lemma length_intercalate: "xs \<noteq> [] \<Longrightarrow> Suc (length (intercalate c xs)) = wt xs"
  by (induction c xs rule: intercalate.induct) auto

lemma wt_Split: "wt (Split s c) = Suc (length s)"
  using length_intercalate [of "Split s c" c] by (simp add: intercalate_Split)

lemma wt_filter: "wt (filter P xs) \<le> wt xs"
  by (induction xs) auto

lemma wt_cleanStack: "wt (cleanStack r st xs) \<le> wt st + wt xs"
  by (induction r st xs rule: cleanStack.induct) (auto split: list.splits if_splits)

lemma split_acc_snoc: "split_acc c acc (s @ [c]) = split_acc c acc s @ [[]]"
  by (induction c acc s rule: split_acc.induct) auto

lemma Split_snoc: "Split (s @ [c]) c = Split s c @ [[]]"
  by (simp add: Split_def split_acc_snoc)

lemma Split_Cons: "Split (c # s) c = [] # Split s c"
  by (simp add: Split_def)

lemma wt_cleanComps: "wt (cleanComps p) \<le> wt (comps p)"
  using wt_cleanStack [of "IsAbs p" "[]" "comps p"] by (simp add: cleanComps_def)

lemma Clean_trailing:
  assumes "d = u @ [slash]"
  shows "Clean d = ''.'' \<or> length (Clean d) < length d \<or> d = [slash]"
proof (cases "IsAbs d \<and> u \<noteq> []")
  case True
  then obtain v where v: "u = slash # v"
    using assms by (cases u) (auto simp: IsAbs_def HasPrefix_def)
  have "Split d slash = [] # Split v slash @ [[]]"
    using assms v by (simp add: Split_Cons Split_snoc)
  then have "wt (comps d) \<le> Suc (length v)"
    using wt_filter [of "\<lambda>x. x \<noteq> [] \<and> x \<noteq> ''.''" "Split v slash"] by (simp add: comps_def wt_Split)
  with wt_cleanComps [of d] have w: "wt (cleanComps d) \<le> Suc (length v)" by simp
  show ?thesis
  proof (cases "cleanComps d = []")
    case True
    with assms v \<open>IsAbs d \<and> u \<noteq> []\<close> show ?thesis by (simp add: Clean_def)
  next
    case False
    from length_intercalate [OF False, of slash] w assms v \<open>IsAbs d \<and> u \<noteq> []\<close>
    show ?thesis by (simp add: Clean_def)
  qed
next
  case False
  show ?thesis
  proof (cases "u = []")
    case True
    with assms show ?thesis by simp
  next
    case u: False
    with False have na: "\<not> IsAbs d" by simp
    have "wt (comps d) \<le> Suc (length u)"
      using assms wt_filter [of "\<lambda>x. x \<noteq> [] \<and> x \<noteq> ''.''" "Split u slash"]
      by (simp add: comps_def Split_snoc wt_Split)
    with wt_cleanComps [of d] have "wt (cleanComps d) \<le> Suc (length u)" by simp
    with na assms show ?thesis
      using length_intercalate [of "cleanComps d" slash] by (auto simp: Clean_def)
  qed
qed

definition depth :: "string \<Rightarrow> nat" where
  "depth p = (if p = ''.'' then 0 else Suc (length p))"

lemma Dir_depth:
  assumes "Dir p \<noteq> p"
  shows "depth (Dir p) < depth p"
proof -
  define d where "d = rev (dropWhile (\<lambda>c. c \<noteq> slash) (rev p))"
  have Dir: "Dir p = Clean d" by (simp add: Dir_def d_def)
  obtain t where p: "p = d @ t"
    unfolding d_def by (metis rev_append rev_rev_ident takeWhile_dropWhile_id)
  have "d = [] \<or> (\<exists>u. d = u @ [slash])"
  proof (cases "dropWhile (\<lambda>c. c \<noteq> slash) (rev p)")
    case Nil
    then show ?thesis by (simp add: d_def)
  next
    case (Cons x xs)
    then have "x = slash" using hd_dropWhile [of "\<lambda>c. c \<noteq> slash" "rev p"] by auto
    with Cons show ?thesis by (simp add: d_def)
  qed
  then show ?thesis
  proof
    assume "d = []"
    then have "Dir p = ''.''"
      by (simp add: Dir Clean_def cleanComps_def comps_def Split_def IsAbs_def HasPrefix_def)
    with assms show ?thesis by (auto simp: depth_def)
  next
    assume "\<exists>u. d = u @ [slash]"
    then obtain u where u: "d = u @ [slash]" by blast
    have len: "length d \<le> length p" using arg_cong [OF p, of length] by simp
    have np: "p \<noteq> ''.''" using p u by (auto simp: slash_def append_eq_Cons_conv)
    from Clean_trailing [OF u] show ?thesis
    proof (elim disjE)
      assume "d = [slash]"
      then have C: "Clean d = [slash]"
        by (simp add: Clean_def cleanComps_def comps_def Split_def)
      with assms Dir p \<open>d = [slash]\<close> have "length p \<noteq> length d" by auto
      with len C Dir \<open>d = [slash]\<close> show ?thesis by (auto simp: depth_def slash_def)
    qed (use assms len Dir np in \<open>auto simp: depth_def\<close>)
  qed
qed

section \<open>Definitions\<close>

definition errNotExist :: goerr where
  "errNotExist = OsError ''file does not exist''"

function findRootFrom :: "'w env \<Rightarrow> 'w \<Rightarrow> string \<Rightarrow> goerr + string" where
  "findRootFrom E w dir =
     (if fileExists E (Join dir ''go.mod'') w then Inr dir
      else (let parent = Dir dir in
            if parent = dir then Inl errNotExist else findRootFrom E w parent))"
  by pat_completeness auto
termination
  by (relation "measure (\<lambda>(E, w, dir). depth dir)") (auto intro: Dir_depth)

declare findRootFrom.simps [simp del]

definition FindModuleRoot :: "'w env \<Rightarrow> ('w, goerr + string) oper" where
  "FindModuleRoot E = askWorld (\<lambda>w. case getwd E w of Inl e \<Rightarrow> Inl e | Inr dir \<Rightarrow> findRootFrom E w dir)"

definition underBaseErr :: goerr where
  "underBaseErr = FmtError ''invalid path: outside allowed base directory''"

definition EnsureUnderBase :: "'w env \<Rightarrow> string \<Rightarrow> string \<Rightarrow> 'w \<Rightarrow> goerr + string" where
  "EnsureUnderBase E base p w =
     (let cleaned = Clean p;
          candidate = (if IsAbs cleaned then cleaned else Join base cleaned);
          candResolved = (case evalSymlinks E candidate w of Inl _ \<Rightarrow> candidate | Inr r \<Rightarrow> r);
          cleanBase = Clean base;
          baseAbs = (if IsAbs cleanBase then Inr cleanBase else Abs (getwd E w) cleanBase)
      in case baseAbs of
           Inl e \<Rightarrow> Inl e
         | Inr baseAbs \<Rightarrow>
             (let cleanCand = Clean candResolved;
                  candAbs = (if IsAbs cleanCand then Inr cleanCand else Abs (getwd E w) cleanCand)
              in case candAbs of
                   Inl e \<Rightarrow> Inl e
                 | Inr candAbs \<Rightarrow>
                     (let basePrefix = (if HasSuffix baseAbs [slash] then baseAbs else baseAbs @ [slash])
                      in if candAbs = baseAbs \<or> HasPrefix candAbs basePrefix then Inr candAbs
                         else Inl underBaseErr)))"

end
