(* ===== verification/Driver.thy ===== *)
theory Driver
  imports Exporter Safeio
begin

text \<open>
  \<^verbatim>\<open>controllers/driver.go\<close>: the default storage class of a cluster and the custom resource of the
  block CSI driver.
\<close>

section \<open>The default storage class\<close>

definition InitDefaultStorageClass :: "FlashSystemCluster \<Rightarrow> StorageClass option" where
  "InitDefaultStorageClass inst =
     (let secret = fs_Secret (fsc_Spec inst) in
      case fs_DefaultPool (fsc_Spec inst) of
        None \<Rightarrow> None
      | Some pool \<Rightarrow> Some
         \<lparr>sc_Meta = (mkMeta (scc_StorageClassName pool) [])\<lparr>om_Labels := GetLabels\<rparr>,
          sc_Provisioner = CsiIBMBlockDriver,
          sc_Parameters = MkMap [
            (''SpaceEfficiency'', scc_SpaceEfficiency pool),
            (''pool'', scc_PoolName pool),
            (''csi.storage.k8s.io/provisioner-secret-name'', sr_Name secret),
            (''csi.storage.k8s.io/provisioner-secret-namespace'', sr_Namespace secret),
            (''csi.storage.k8s.io/controller-publish-secret-name'', sr_Name secret),
            (''csi.storage.k8s.io/controller-publish-secret-namespace'', sr_Namespace secret),
            (''csi.storage.k8s.io/controller-expand-secret-name'', sr_Name secret),
            (''csi.storage.k8s.io/controller-expand-secret-namespace'', sr_Namespace secret),
            (''csi.storage.k8s.io/fstype'', scc_FsType pool),
            (''volume_name_prefix'', scc_VolumeNamePrefix pool)]\<rparr>)"

definition compareDefaultStorageClass :: "StorageClass \<Rightarrow> StorageClass \<Rightarrow> bool" where
  "compareDefaultStorageClass found expected =
     (if sc_Provisioner found = sc_Provisioner expected
      then list_all (\<lambda>k. case mget (sc_Parameters found) k of
             None \<Rightarrow> False | Some foundVal \<Rightarrow> mgets (sc_Parameters expected) k = foundVal)
           (mkeys (sc_Parameters expected))
      else False)"

section \<open>The CSI custom resource\<close>

definition FlashSystemCRFilePath :: string where
  "FlashSystemCRFilePath = ''/config/csi.ibm.com_v1_ibmblockcsi_cr.yaml''"
definition FlashSystemCRFilePathEnvVar :: string where
  "FlashSystemCRFilePathEnvVar = ''TEST_FS_CR_FILEPATH''"
definition baseDir :: string where "baseDir = ''config/samples''"
definition ConfigMapBaseDir :: string where "ConfigMapBaseDir = ''/config''"

definition getFlashSystemCSIOperatorResource :: GroupVersionKind where
  "getFlashSystemCSIOperatorResource =
     \<lparr>gvk_Group = ''csi.ibm.com'', gvk_Version = ''v1'', gvk_Kind = ''IBMBlockCSI''\<rparr>"

definition getFlashSystemCRFilePath :: "'w env \<Rightarrow> string" where
  "getFlashSystemCRFilePath E =
     (case lookupEnv E FlashSystemCRFilePathEnvVar of Some file \<Rightarrow> file | None \<Rightarrow> FlashSystemCRFilePath)"

definition badGVK :: goerr where
  "badGVK = FmtError ''decoded GVK is unexpected''"

text \<open>
  The two decoding steps of the source (\<^verbatim>\<open>NewYAMLOrJSONDecoder\<close>, \<^verbatim>\<open>NewDecodingSerializer\<close>) and the
  conversion to an unstructured map are the parameter \<^const>\<open>yamlCR\<close>.
\<close>

definition LoadFlashSystemCRFromFile :: "'w env \<Rightarrow> ('w, goerr + Unstructured) oper" where
  "LoadFlashSystemCRFromFile E =
     (let crFile = getFlashSystemCRFilePath E in do {
        base \<leftarrow> (case lookupEnv E FlashSystemCRFilePathEnvVar of
                 Some _ \<Rightarrow> do {
                   modRoot \<leftarrow> FindModuleRoot E;
                   (case modRoot of Inl e \<Rightarrow> ret (Inl e) | Inr d \<Rightarrow> ret (Inr (Join d baseDir)))
                 }
               | None \<Rightarrow> ret (Inr ConfigMapBaseDir));
        (case base of
           Inl e \<Rightarrow> ret (Inl e)
         | Inr baseAbs \<Rightarrow> do {
             safePath \<leftarrow> askWorld (EnsureUnderBase E baseAbs crFile);
             (case safePath of
                Inl e \<Rightarrow> ret (Inl e)
              | Inr path \<Rightarrow> do {
                  fileBytes \<leftarrow> askWorld (readFile E path);
                  (case fileBytes of
                     Inl e \<Rightarrow> ret (Inl e)
                   | Inr text \<Rightarrow>
                       (case yamlCR E text of
                          Inl e \<Rightarrow> ret (Inl e)
                        | Inr obj \<Rightarrow>
                            if gvk_Group (un_GVK obj) \<noteq> gvk_Group getFlashSystemCSIOperatorResource \<or>
                               gvk_Kind (un_GVK obj) \<noteq> gvk_Kind getFlashSystemCSIOperatorResource \<or>
                               gvk_Version (un_GVK obj) \<noteq> gvk_Version getFlashSystemCSIOperatorResource
                            then ret (Inl badGVK)
                            else ret (Inr obj)))
                })
           })
      })"

definition CreateIBMBlockCSICR :: "'w env \<Rightarrow> string \<Rightarrow> ('w, goerr + Unstructured) oper" where
  "CreateIBMBlockCSICR E ns = do {
     r \<leftarrow> LoadFlashSystemCRFromFile E;
     (case r of
        Inl e \<Rightarrow> ret (Inl e)
      | Inr obj \<Rightarrow> createAs E asCsiCR (OCsiCR (obj\<lparr>un_Meta := (un_Meta obj)\<lparr>om_Namespace := ns\<rparr>\<rparr>)))
   }"

text \<open>The source collects \<^verbatim>\<open>ns.Namespace\<close>, the namespace of the Namespace object, not its name.\<close>

definition GetAllNamespace :: "'w env \<Rightarrow> ('w, goerr + string list) oper" where
  "GetAllNamespace E = do {
     r \<leftarrow> listAs E asNamespace KNamespace None [];
     (case r of
        Inl e \<Rightarrow> ret (Inl e)
      | Inr namespaces \<Rightarrow> ret (Inr (map (\<lambda>ns. om_Namespace (ns_Meta ns)) namespaces)))
   }"

text \<open>
  \<^verbatim>\<open>dc.Namespace(ns).List\<close>: an empty namespace is a list over all namespaces.
\<close>

fun HasIBMBlockCSICRExisted :: "'w env \<Rightarrow> string list \<Rightarrow> ('w, goerr + bool) oper" where
  "HasIBMBlockCSICRExisted E [] = ret (Inr False)"
| "HasIBMBlockCSICRExisted E (ns # nss) = do {
     r \<leftarrow> listAs E asCsiCR KCsiCR (if ns = [] then None else Some ns) [];
     (case r of
        Inl e \<Rightarrow> if IsNotFound e then HasIBMBlockCSICRExisted E nss else ret (Inl e)
      | Inr items \<Rightarrow> if items \<noteq> [] then ret (Inr True) else HasIBMBlockCSICRExisted E nss)
   }"

section \<open>Which calls these operations issue\<close>

lemma issues_FindModuleRoot [issues_intro]: "issues P (FindModuleRoot E)"
  unfolding FindModuleRoot_def by (intro issues_intro)

lemma issues_LoadFlashSystemCRFromFile [issues_intro]: "issues P (LoadFlashSystemCRFromFile E)"
  unfolding LoadFlashSystemCRFromFile_def by (intro issues_intro)

lemma issues_CreateIBMBlockCSICR [issues_intro]:
  "(\<And>x. P (RCreate (OCsiCR x))) \<Longrightarrow> issues P (CreateIBMBlockCSICR E ns)"
  unfolding CreateIBMBlockCSICR_def by (intro issues_intro)

lemma issues_GetAllNamespace [issues_intro]:
  "P (RList KNamespace None []) \<Longrightarrow> issues P (GetAllNamespace E)"
  unfolding GetAllNamespace_def by (intro issues_intro)

lemma issues_HasIBMBlockCSICRExisted [issues_intro]:
  "(\<And>ns. P (RList KCsiCR ns [])) \<Longrightarrow> issues P (HasIBMBlockCSICRExisted E nss)"
  by (induction nss) (auto intro!: issues_intro)

end
