(* ===== verification/FscController.thy ===== *)
theory FscController
  imports Driver
begin

text \<open>
  \<^verbatim>\<open>controllers/flashsystemcluster_controller.go\<close>: the reconciler of FlashSystemClusters, step by step, and
  the functions that map cluster events to reconcile requests. The instance is a pointer in the
  source; operations that write through it return it.
\<close>

definition flashSystemClusterFinalizer :: string where
  "flashSystemClusterFinalizer = ''flashsystemcluster.odf.ibm.com''"

text \<open>A reconcile request is the namespace and the name of an object; a result may ask to be called again.\<close>

type_synonym request = "string \<times> string"

record Result =
  RequeueAfter :: "int option"

definition emptyResult :: Result where "emptyResult = \<lparr>RequeueAfter = None\<rparr>"

section \<open>Mapping events to requests\<close>

definition reqOf :: "ObjectMeta \<Rightarrow> request" where
  "reqOf m = (om_Namespace m, om_Name m)"

text \<open>The loop of the storage class mapper dereferences the default pool, which is optional.\<close>

fun defaultPoolRequests :: "string \<Rightarrow> FlashSystemCluster list \<Rightarrow> request list res" where
  "defaultPoolRequests name [] = Ok []"
| "defaultPoolRequests name (c # cs) =
     (case fs_DefaultPool (fsc_Spec c) of
        None \<Rightarrow> Panic ''nil pointer dereference''
      | Some pool \<Rightarrow>
          (case defaultPoolRequests name cs of
             Err e \<Rightarrow> Err e | Panic p \<Rightarrow> Panic p
           | Ok rs \<Rightarrow> Ok (if scc_StorageClassName pool = name then reqOf (fsc_Meta c) # rs else rs)))"

definition DefaultStorageClassToClusterMapperFunc :: "'w env \<Rightarrow> kobj \<Rightarrow> ('w, request list res) oper" where
  "DefaultStorageClassToClusterMapperFunc E obj = do {
     r \<leftarrow> listAs E asFsc KFsc None [];
     (case r of
        Inl e \<Rightarrow> ret (Ok [])
      | Inr clusters \<Rightarrow> ret (defaultPoolRequests (om_Name (metaOf obj)) clusters))
   }"

definition ConfigMapToClusterMapFunc :: "'w env \<Rightarrow> kobj \<Rightarrow> ('w, request list) oper" where
  "ConfigMapToClusterMapFunc E obj =
     (if om_Name (metaOf obj) = PoolConfigmapName then do {
        r \<leftarrow> listAs E asFsc KFsc None [];
        (case r of Inl e \<Rightarrow> ret [] | Inr clusters \<Rightarrow> ret (map (\<lambda>c. reqOf (fsc_Meta c)) clusters))
      } else ret [])"

definition CSIToClusterMapFunc :: "'w env \<Rightarrow> kobj \<Rightarrow> ('w, request list) oper" where
  "CSIToClusterMapFunc E obj = do {
     State_Monad.update (\<lambda>s. s\<lparr>IsCSICRCreated := False\<rparr>);
     r \<leftarrow> listAs E asFsc KFsc None [];
     (case r of Inl e \<Rightarrow> ret [] | Inr clusters \<Rightarrow> ret (map (\<lambda>c. reqOf (fsc_Meta c)) clusters))
   }"

definition SecretToClusterMapFunc :: "'w env \<Rightarrow> kobj \<Rightarrow> ('w, request list) oper" where
  "SecretToClusterMapFunc E obj = do {
     r \<leftarrow> listAs E asFsc KFsc None [];
     (case r of
        Inl e \<Rightarrow> ret []
      | Inr clusters \<Rightarrow> ret (map (\<lambda>c. reqOf (fsc_Meta c))
          (filter (\<lambda>c. sr_Name (fs_Secret (fsc_Spec c)) = om_Name (metaOf obj) \<and>
                       sr_Namespace (fs_Secret (fsc_Spec c)) = om_Namespace (metaOf obj)) clusters)))
   }"

section \<open>Events, the secret and the pools ConfigMap\<close>

definition createEvent :: "'w env \<Rightarrow> FlashSystemCluster \<Rightarrow> string \<Rightarrow> string \<Rightarrow> string \<Rightarrow> ('w, unit) oper" where
  "createEvent E inst eventType reason message = do {
     newEvent \<leftarrow> InitK8sEvent E inst eventType reason message;
     r \<leftarrow> createAs E asEvent (OEvent newEvent);
     ret ()
   }"

definition ensureSecretOwnership :: "'w env \<Rightarrow> FlashSystemCluster \<Rightarrow> OwnerReference \<Rightarrow> ('w, goerr + unit) oper" where
  "ensureSecretOwnership E inst newOwnerForSecret =
     (let sr = fs_Secret (fsc_Spec inst) in do {
        r \<leftarrow> getAs E asSecret KSecret (sr_Namespace sr) (sr_Name sr);
        (case r of
           Inl e \<Rightarrow> ret (Inl e)
         | Inr secret \<Rightarrow>
             if om_OwnerReferences (sec_Meta secret) = None then do {
               r' \<leftarrow> updateAs E asSecret
                 (OSecret (secret\<lparr>sec_Meta := SetOwnerReferences [newOwnerForSecret] (sec_Meta secret)\<rparr>));
               (case r' of Inl e \<Rightarrow> ret (Inl e) | Inr _ \<Rightarrow> ret (Inr ()))
             } else ret (Inr ()))
      })"

definition askNamespace :: "('w, string) oper" where
  "askNamespace = State (\<lambda>s. (watchNamespace s, s))"

definition newContent :: "FlashSystemCluster \<Rightarrow> FlashSystemClusterMapContent" where
  "newContent inst = \<lparr>ScPoolMap = MkMap [], ContentSecret = sr_Name (fs_Secret (fsc_Spec inst))\<rparr>"

text \<open>
  The second half of the function: the ConfigMap is the one that was read, or what the server
  answered to the update that removed the \<^verbatim>\<open>pools\<close> key. Its data may then be nil again.
\<close>

definition addFscEntry :: "'w env \<Rightarrow> FlashSystemCluster \<Rightarrow> ConfigMap \<Rightarrow> ('w, unit res) oper" where
  "addFscEntry E inst configmap =
     (let name = om_Name (fsc_Meta inst) in
      if mget (cm_Data configmap) name = None then
        (case kMarshal E (newContent inst) of
           Inl e \<Rightarrow> ret (Err e)
         | Inr val \<Rightarrow>
             (case mset (cm_Data configmap) name val of
                None \<Rightarrow> ret (Panic ''assignment to entry in nil map'')
              | Some d \<Rightarrow> do {
                  r \<leftarrow> updateAs E asConfigMap (OConfigMap (configmap\<lparr>cm_Data := d\<rparr>));
                  (case r of Inl e \<Rightarrow> ret (Err e) | Inr _ \<Rightarrow> ret (Ok ()))
                }))
      else ret (Ok ()))"

definition ensureScPoolConfigMap :: "'w env \<Rightarrow> FlashSystemCluster \<Rightarrow> ('w, unit res) oper" where
  "ensureScPoolConfigMap E inst = do {
     ns \<leftarrow> askNamespace;
     r \<leftarrow> GetCreateConfigmap E ns True;
     (case r of
        Inl e \<Rightarrow> ret (Err e)
      | Inr cm0 \<Rightarrow>
          (let cm = (if cm_Data cm0 = NilMap then cm0\<lparr>cm_Data := MkMap []\<rparr> else cm0) in
           if mget (cm_Data cm) PoolsKey \<noteq> None then do {
             r' \<leftarrow> updateAs E asConfigMap (OConfigMap (cm\<lparr>cm_Data := mdel (cm_Data cm) PoolsKey\<rparr>));
             (case r' of Inl e \<Rightarrow> ret (Err e) | Inr cm' \<Rightarrow> addFscEntry E inst cm')
           } else addFscEntry E inst cm))
   }"

definition removeFscFromConfigMap :: "'w env \<Rightarrow> string \<Rightarrow> ('w, goerr + unit) oper" where
  "removeFscFromConfigMap E fscName = do {
     ns \<leftarrow> askNamespace;
     r \<leftarrow> GetCreateConfigmap E ns True;
     (case r of
        Inl e \<Rightarrow> ret (Inl e)
      | Inr cm \<Rightarrow> do {
          r' \<leftarrow> updateAs E asConfigMap (OConfigMap (cm\<lparr>cm_Data := mdel (cm_Data cm) fscName\<rparr>));
          (case r' of Inl e \<Rightarrow> ret (Inl e) | Inr _ \<Rightarrow> ret (Inr ()))
        })
   }"

section \<open>The exporter objects\<close>

definition isOldObject :: "(string, string) gomap \<Rightarrow> string \<Rightarrow> bool" where
  "isOldObject labels objectName \<longleftrightarrow>
     mget labels (lb_Name OdfFsLabel) = None \<and> HasPrefix objectName fsObjectsPrefix"

text \<open>The list options of \<^verbatim>\<open>getObjectListByLabel\<close>: the instance's namespace and the ODF label.\<close>

definition getObjectListByLabel :: "'w env \<Rightarrow> FlashSystemCluster \<Rightarrow> (kobj \<Rightarrow> 'a option) \<Rightarrow> kind
    \<Rightarrow> ('w, goerr + 'a list) oper" where
  "getObjectListByLabel E inst proj k =
     listAs E proj k (Some (om_Namespace (fsc_Meta inst))) [(lb_Name OdfLabel, lb_Value OdfLabel)]"

definition deleteOld :: "'w env \<Rightarrow> kobj \<Rightarrow> ('w, goerr + unit) oper" where
  "deleteOld E x =
     (if isOldObject (om_Labels (metaOf x)) (om_Name (metaOf x)) then deleteObj E x else ret (Inr ()))"

definition deleteDuplicatedService :: "'w env \<Rightarrow> FlashSystemCluster \<Rightarrow> ('w, goerr + unit) oper" where
  "deleteDuplicatedService E inst = do {
     r \<leftarrow> getObjectListByLabel E inst asService KService;
     (case r of Inl e \<Rightarrow> ret (Inl e) | Inr items \<Rightarrow> forErr (\<lambda>x. deleteOld E (OService x)) items)
   }"

definition deleteDuplicatedDeployment :: "'w env \<Rightarrow> FlashSystemCluster \<Rightarrow> ('w, goerr + unit) oper" where
  "deleteDuplicatedDeployment E inst = do {
     r \<leftarrow> getObjectListByLabel E inst asDeployment KDeployment;
     (case r of Inl e \<Rightarrow> ret (Inl e) | Inr items \<Rightarrow> forErr (\<lambda>x. deleteOld E (ODeployment x)) items)
   }"

definition deleteDuplicatedServiceMonitor :: "'w env \<Rightarrow> FlashSystemCluster \<Rightarrow> ('w, goerr + unit) oper" where
  "deleteDuplicatedServiceMonitor E inst = do {
     r \<leftarrow> getObjectListByLabel E inst asServiceMonitor KServiceMonitor;
     (case r of Inl e \<Rightarrow> ret (Inl e) | Inr items \<Rightarrow> forErr (\<lambda>x. deleteOld E (OServiceMonitor x)) items)
   }"

definition ensureExporterService :: "'w env \<Rightarrow> FlashSystemCluster \<Rightarrow> OwnerReference \<Rightarrow> ('w, goerr + unit) oper" where
  "ensureExporterService E inst newOwner = do {
     d \<leftarrow> deleteDuplicatedService E inst;
     (case d of
        Inl e \<Rightarrow> ret (Inl e)
      | Inr _ \<Rightarrow>
          (let expectedService = InitExporterMetricsService inst in do {
             r \<leftarrow> getAs E asService KService (om_Namespace (fsc_Meta inst)) getExporterMetricsServiceName;
             (case r of
                Inl e \<Rightarrow>
                  if IsNotFound e then do {
                    c \<leftarrow> createAs E asService (OService expectedService);
                    (case c of Inl e' \<Rightarrow> ret (Inl e') | Inr _ \<Rightarrow> ret (Inr ()))
                  } else ret (Inl e)
              | Inr foundService \<Rightarrow>
                  (case updateExporterMetricsService foundService expectedService newOwner of
                     Some u \<Rightarrow> do {
                       c \<leftarrow> updateAs E asService (OService u);
                       (case c of Inl e' \<Rightarrow> ret (Inl e') | Inr _ \<Rightarrow> ret (Inr ()))
                     }
                   | None \<Rightarrow> ret (Inr ())))
           }))
   }"

definition ensureExporterDeployment :: "'w env \<Rightarrow> FlashSystemCluster \<Rightarrow> OwnerReference \<Rightarrow> ('w, goerr + unit) oper" where
  "ensureExporterDeployment E inst newOwner = do {
     d \<leftarrow> deleteDuplicatedDeployment E inst;
     (case d of
        Inl e \<Rightarrow> ret (Inl e)
      | Inr _ \<Rightarrow>
          (let exporterImg = (case GetExporterImage E of Inl _ \<Rightarrow> [] | Inr img \<Rightarrow> img);
               sr = fs_Secret (fsc_Spec inst) in do {
             sec \<leftarrow> getAs E asSecret KSecret (sr_Namespace sr) (sr_Name sr);
             (case sec of
                Inl e \<Rightarrow> ret (Inl e)
              | Inr _ \<Rightarrow>
                  (case InitExporterDeployment inst ''IfNotPresent'' exporterImg of
                     Inl e \<Rightarrow> ret (Inl e)
                   | Inr expectedDeployment \<Rightarrow> do {
                       r \<leftarrow> getAs E asDeployment KDeployment (om_Namespace (fsc_Meta inst)) getExporterDeploymentName;
                       (case r of
                          Inl e \<Rightarrow>
                            if IsNotFound e then do {
                              c \<leftarrow> createAs E asDeployment (ODeployment expectedDeployment);
                              (case c of Inl e' \<Rightarrow> ret (Inl e') | Inr _ \<Rightarrow> ret (Inr ()))
                            } else ret (Inl e)
                        | Inr foundDeployment \<Rightarrow>
                            (case updateExporterDeployment foundDeployment expectedDeployment newOwner of
                               Some u \<Rightarrow> do {
                                 c \<leftarrow> updateAs E asDeployment (ODeployment u);
                                 (case c of Inl e' \<Rightarrow> ret (Inl e') | Inr _ \<Rightarrow> ret (Inr ()))
                               }
                             | None \<Rightarrow> ret (Inr ())))
                     }))
           }))
   }"

definition ensureExporterServiceMonitor :: "'w env \<Rightarrow> FlashSystemCluster \<Rightarrow> OwnerReference \<Rightarrow> ('w, goerr + unit) oper" where
  "ensureExporterServiceMonitor E inst newOwner = do {
     d \<leftarrow> deleteDuplicatedServiceMonitor E inst;
     (case d of
        Inl e \<Rightarrow> ret (Inl e)
      | Inr _ \<Rightarrow>
          (let expectedServiceMonitor = InitExporterMetricsServiceMonitor inst in do {
             r \<leftarrow> getAs E asServiceMonitor KServiceMonitor (om_Namespace (fsc_Meta inst))
                    getExporterMetricsServiceMonitorName;
             (case r of
                Inl e \<Rightarrow>
                  if IsNotFound e then do {
                    c \<leftarrow> createAs E asServiceMonitor (OServiceMonitor expectedServiceMonitor);
                    (case c of Inl e' \<Rightarrow> ret (Inl e') | Inr _ \<Rightarrow> ret (Inr ()))
                  } else ret (Inl e)
              | Inr foundServiceMonitor \<Rightarrow>
                  (case updateExporterMetricsServiceMonitor foundServiceMonitor expectedServiceMonitor newOwner of
                     Some u \<Rightarrow> do {
                       c \<leftarrow> updateAs E asServiceMonitor (OServiceMonitor u);
                       (case c of Inl e' \<Rightarrow> ret (Inl e') | Inr _ \<Rightarrow> ret (Inr ()))
                     }
                   | None \<Rightarrow> ret (Inr ())))
           }))
   }"

section \<open>The default storage class\<close>

definition duplicatedStorageClassMsg :: string where
  "duplicatedStorageClassMsg = ''storageClass with same name already exists and doesn't match ODF-FS requirements. '' @
     ''Deletion of existing StorageClass is required. Failing FlashSystemCluster reconcile''"

definition ensureDefaultStorageClass :: "'w env \<Rightarrow> FlashSystemCluster \<Rightarrow> ('w, goerr + unit) oper" where
  "ensureDefaultStorageClass E inst =
     (case (fs_DefaultPool (fsc_Spec inst), InitDefaultStorageClass inst) of
        (Some pool, Some expectedStorageClass) \<Rightarrow> do {
          r \<leftarrow> getAs E asStorageClass KStorageClass [] (scc_StorageClassName pool);
          (case r of
             Inl e \<Rightarrow>
               if IsNotFound e then do {
                 c \<leftarrow> createAs E asStorageClass (OStorageClass expectedStorageClass);
                 (case c of Inl e' \<Rightarrow> ret (Inl e') | Inr _ \<Rightarrow> ret (Inr ()))
               } else ret (Inl e)
           | Inr foundStorageClass \<Rightarrow>
               if compareDefaultStorageClass foundStorageClass expectedStorageClass then ret (Inr ())
               else do {
                 createEvent E inst EventTypeWarning DeletedDuplicatedStorageClassReason duplicatedStorageClassMsg;
                 ret (Inl (FmtError duplicatedStorageClassMsg))
               })
        }
      | _ \<Rightarrow> ret (Inr ()))"

definition deleteDefaultStorageClass :: "'w env \<Rightarrow> FlashSystemCluster \<Rightarrow> ('w, goerr + unit) oper" where
  "deleteDefaultStorageClass E inst =
     (case (fs_DefaultPool (fsc_Spec inst), InitDefaultStorageClass inst) of
        (Some pool, Some expectedStorageClass) \<Rightarrow> do {
          r \<leftarrow> getAs E asStorageClass KStorageClass [] (scc_StorageClassName pool);
          (case r of
             Inl e \<Rightarrow> if IsNotFound e then ret (Inr ()) else ret (Inl e)
           | Inr foundStorageClass \<Rightarrow> deleteObj E (OStorageClass foundStorageClass))
        }
      | _ \<Rightarrow> ret (Inr ()))"

section \<open>Prometheus rules and the CSI custom resource\<close>

definition CreateOrUpdatePrometheusRules :: "'w env \<Rightarrow> PrometheusRule \<Rightarrow> ('w, goerr + unit) oper" where
  "CreateOrUpdatePrometheusRules E rule = do {
     r \<leftarrow> createAs E asPromRule (OPromRule rule);
     (case r of
        Inr _ \<Rightarrow> ret (Inr ())
      | Inl e \<Rightarrow>
          if IsAlreadyExists e then do {
            r' \<leftarrow> getAs E asPromRule KPromRule (om_Namespace (pru_Meta rule)) (om_Name (pru_Meta rule));
            (case r' of
               Inl e' \<Rightarrow> ret (Inl (FmtError (''failed while fetching PrometheusRule: '' @ errText e')))
             | Inr oldRule \<Rightarrow> do {
                 u \<leftarrow> updateAs E asPromRule (OPromRule (oldRule\<lparr>pru_Groups := pru_Groups rule\<rparr>));
                 (case u of
                    Inl e' \<Rightarrow> ret (Inl (FmtError (''failed while updating PrometheusRule: '' @ errText e')))
                  | Inr _ \<Rightarrow> ret (Inr ()))
               })
          } else ret (Inl (FmtError (''failed while creating PrometheusRule: '' @ errText e))))
   }"

definition enablePrometheusRules :: "'w env \<Rightarrow> FlashSystemCluster \<Rightarrow> OwnerReference \<Rightarrow> ('w, unit res) oper" where
  "enablePrometheusRules E inst newOwner = do {
     r \<leftarrow> getPrometheusRules E inst newOwner;
     (case r of
        Err e \<Rightarrow> ret (Err e)
      | Panic p \<Rightarrow> ret (Panic p)
      | Ok rule \<Rightarrow> do { x \<leftarrow> CreateOrUpdatePrometheusRules E rule; ret (of_sum x) })
   }"

definition ensureFlashSystemCSICR :: "'w env \<Rightarrow> FlashSystemCluster \<Rightarrow> ('w, goerr + unit) oper" where
  "ensureFlashSystemCSICR E inst = do {
     s \<leftarrow> State_Monad.get;
     (if IsCSICRCreated s then ret (Inr ())
      else do {
        r \<leftarrow> GetAllNamespace E;
        (case r of
           Inl e \<Rightarrow> ret (Inl e)
         | Inr namespaces \<Rightarrow> do {
             f \<leftarrow> HasIBMBlockCSICRExisted E namespaces;
             (case f of
                Inl e \<Rightarrow> ret (Inl e)
              | Inr isCSICRFound \<Rightarrow> do {
                  x \<leftarrow> (if \<not> isCSICRFound then do {
                         o' \<leftarrow> CreateIBMBlockCSICR E (om_Namespace (fsc_Meta inst));
                         (case o' of
                            Inl e \<Rightarrow> ret (Inl e)
                          | Inr obj \<Rightarrow> do {
                              createEvent E inst EventTypeNormal SuccessfulLaunchBlockCSIReason
                                (''CSI CR:  '' @ om_Namespace (un_Meta obj) @ ''/'' @ om_Name (un_Meta obj));
                              ret (Inr ())
                            })
                       } else do {
                         createEvent E inst EventTypeNormal SuccessfulDetectBlockCSIReason
                           ''CSI CR is found, skip to create CSI CR instance'';
                         ret (Inr ())
                       });
                  (case x of
                     Inl e \<Rightarrow> ret (Inl e)
                   | Inr _ \<Rightarrow> do {
                       State_Monad.update (\<lambda>s. s\<lparr>IsCSICRCreated := True\<rparr>);
                       ret (Inr ())
                     })
                })
           })
      })
   }"

section \<open>The entry of a cluster in the ConfigMap\<close>

lemma wp_askNamespace [wp]: "wpre askNamespace Q s = Q (watchNamespace s) s"
  by (simp add: wpre_def askNamespace_def)

lemma issues_askNamespace [issues_intro]: "issues P askNamespace"
  by (simp add: issues_def askNamespace_def)

lemma wp_removeFscFromConfigMap:
  assumes laws: "api_laws E v" and live: "poolLive v (watchNamespace s) (world s)"
  shows "wpre (removeFscFromConfigMap E fscName) (\<lambda>r t.
     onlyAt (poolKey (watchNamespace s)) (v (world s)) (v (world t)) \<and>
     (r = Inr () \<longrightarrow> (\<forall>k. poolEntry v (watchNamespace s) (world t) k =
        (if k = fscName then None else poolEntry v (watchNamespace s) (world s) k)))) s"
proof -
  let ?ns = "watchNamespace s"
  show ?thesis
    unfolding removeFscFromConfigMap_def wp
  proof (rule wp_GetCreateConfigmap [OF laws live], goal_cases)
    case (2 cm t)
    show ?case
      unfolding sum.case
      by (rule wp_updateConfigMap [OF laws, of _ ?ns])
        (use 2 in \<open>auto simp: wp poolLive_def poolCm_def onlyAt_def poolEntry_upd keyOf_ConfigMap\<close>)
  qed simp
qed


lemma wp_addFscEntry:
  assumes laws: "api_laws E v" and val: "kMarshal E (newContent inst) = Inr val"
    and cm: "v (world s) (poolKey ns) = Some (OConfigMap cm)" "keyOf (OConfigMap cm) = poolKey ns"
      "om_DeletionTimestamp (cm_Meta cm) = None"
    and same: "cm_Meta cm' = cm_Meta cm" "\<And>k. mget (cm_Data cm') k = mget (cm_Data cm) k"
  shows "wpre (addFscEntry E inst cm') (\<lambda>r t.
     onlyAt (poolKey ns) (v (world s)) (v (world t)) \<and>
     (r = Ok () \<longrightarrow> (\<forall>k. poolEntry v ns (world t) k =
        (if k = om_Name (fsc_Meta inst) \<and> mget (cm_Data cm) k = None then Some val else mget (cm_Data cm) k)))) s"
proof (cases "mget (cm_Data cm) (om_Name (fsc_Meta inst)) = None \<and> cm_Data cm' \<noteq> NilMap")
  case True
  then have m: "mset (cm_Data cm') (om_Name (fsc_Meta inst)) val = Some (mput (cm_Data cm') (om_Name (fsc_Meta inst)) val)"
    by (simp add: mset_eq_Some)
  show ?thesis
    unfolding addFscEntry_def Let_def
    by (simp add: True same val m wp, rule wp_updateConfigMap [OF laws, of _ ns])
      (use cm same in \<open>auto simp: wp keyOf_ConfigMap poolLive_def poolCm_def poolEntry_upd\<close>)
next
  case False
  then show ?thesis
    using cm same val by (auto simp: addFscEntry_def Let_def wp onlyAt_def poolEntry_upd)
qed

text \<open>The entries after \<open>ensureScPoolConfigMap\<close>: the legacy key is gone, the cluster's entry exists, the rest is kept.\<close>

definition ensuredEntry :: "string \<Rightarrow> string \<Rightarrow> (string \<Rightarrow> string option) \<Rightarrow> string \<Rightarrow> string option" where
  "ensuredEntry name val old k =
     (let kept = (if k = PoolsKey then None else old k) in if k = name \<and> kept = None then Some val else kept)"

lemma wp_ensureScPoolConfigMap:
  assumes laws: "api_laws E v" and live: "poolLive v (watchNamespace s) (world s)"
    and val: "kMarshal E (newContent inst) = Inr val"
  shows "wpre (ensureScPoolConfigMap E inst) (\<lambda>r t.
     onlyAt (poolKey (watchNamespace s)) (v (world s)) (v (world t)) \<and>
     (r = Ok () \<longrightarrow> (\<forall>k. poolEntry v (watchNamespace s) (world t) k =
        ensuredEntry (om_Name (fsc_Meta inst)) val (poolEntry v (watchNamespace s) (world s)) k))) s"
proof -
  let ?ns = "watchNamespace s"
  show ?thesis
    unfolding ensureScPoolConfigMap_def wp_bind [of askNamespace] wp_bind [of "GetCreateConfigmap _ _ _"] wp_askNamespace
  proof (rule wp_GetCreateConfigmap [OF laws live], goal_cases)
    case (2 cm t)
    define cm' where "cm' = (if cm_Data cm = NilMap then cm\<lparr>cm_Data := MkMap []\<rparr> else cm)"
    have cm': "cm_Meta cm' = cm_Meta cm" "\<And>k. mget (cm_Data cm') k = poolEntry v ?ns (world s) k"
      using 2 by (auto simp: cm'_def simp flip: 2(6))
    have add: "wpre (addFscEntry E inst cm'') (\<lambda>r t'.
       onlyAt (poolKey ?ns) (v (world s)) (v (world t')) \<and>
       (r = Ok () \<longrightarrow> (\<forall>k. poolEntry v ?ns (world t') k =
          ensuredEntry (om_Name (fsc_Meta inst)) val (poolEntry v ?ns (world s)) k))) u"
      if "onlyAt (poolKey ?ns) (v (world s)) (v (world u))" "v (world u) (poolKey ?ns) = Some (OConfigMap c)"
        "keyOf (OConfigMap c) = poolKey ?ns" "om_DeletionTimestamp (cm_Meta c) = None" "cm_Meta cm'' = cm_Meta c"
        "\<And>k. mget (cm_Data cm'') k = mget (cm_Data c) k"
        "\<And>k. mget (cm_Data c) k = (if k = PoolsKey then None else poolEntry v ?ns (world s) k)" for c cm'' u
      by (rule wp_mono [OF wp_addFscEntry [OF laws val that(2-6)]])
        (use that(1,7) in \<open>auto simp: ensuredEntry_def Let_def intro: onlyAt_trans\<close>)
    show ?case
    proof (cases "poolEntry v ?ns (world s) PoolsKey = None")
      case True
      with 2 show ?thesis
        by (auto simp: Let_def cm'_def [symmetric] cm' intro!: add [of t cm])
    next
      case False
      have "wpre (do { r \<leftarrow> updateAs E asConfigMap (OConfigMap (cm'\<lparr>cm_Data := mdel (cm_Data cm') PoolsKey\<rparr>));
          (case r of Inl e \<Rightarrow> ret (Err e) | Inr c \<Rightarrow> addFscEntry E inst c) }) (\<lambda>r t'.
       onlyAt (poolKey ?ns) (v (world s)) (v (world t')) \<and>
       (r = Ok () \<longrightarrow> (\<forall>k. poolEntry v ?ns (world t') k =
          ensuredEntry (om_Name (fsc_Meta inst)) val (poolEntry v ?ns (world s)) k))) t"
        unfolding wp_bind
        by (rule wp_updateConfigMap [OF laws, of _ ?ns])
          (use 2 cm' in \<open>auto simp: wp keyOf_ConfigMap poolLive_def poolCm_def
            intro: onlyAt_trans intro!: add\<close>)
      with False show ?thesis by (simp add: Let_def cm'_def [symmetric] cm')
    qed
  qed (simp add: wp)
qed
end
