(* ===== verification/FscReconcile.thy ===== *)
theory FscReconcile
  imports FscController
begin

text \<open>
  The reconcile loop of \<^verbatim>\<open>controllers/flashsystemcluster_controller.go\<close> (\<^verbatim>\<open>Reconcile\<close> and \<^verbatim>\<open>reconcile\<close>) and what it
  guarantees about the status of the instance.
\<close>

section \<open>Definitions\<close>

definition setConditions :: "Condition list \<Rightarrow> FlashSystemCluster \<Rightarrow> FlashSystemCluster" where
  "setConditions cs inst = inst\<lparr>fsc_Status := (fsc_Status inst)\<lparr>st_Conditions := cs\<rparr>\<rparr>"

definition setPhase :: "string \<Rightarrow> FlashSystemCluster \<Rightarrow> FlashSystemCluster" where
  "setPhase ph inst = inst\<lparr>fsc_Status := (fsc_Status inst)\<lparr>st_Phase := ph\<rparr>\<rparr>"

definition conditionsOf :: "FlashSystemCluster \<Rightarrow> Condition list" where
  "conditionsOf inst = st_Conditions (fsc_Status inst)"

definition phaseOf :: "FlashSystemCluster \<Rightarrow> string" where
  "phaseOf inst = st_Phase (fsc_Status inst)"

definition setFinalizers :: "string list \<Rightarrow> FlashSystemCluster \<Rightarrow> FlashSystemCluster" where
  "setFinalizers fs inst = inst\<lparr>fsc_Meta := (fsc_Meta inst)\<lparr>om_Finalizers := fs\<rparr>\<rparr>"

text \<open>
  The error branch that seven of the eight steps share: error conditions, phase Error, a warning
  event, and the step's error is returned.
\<close>

definition failStep :: "'w env \<Rightarrow> FlashSystemCluster \<Rightarrow> string \<Rightarrow> string \<Rightarrow> goerr
    \<Rightarrow> ('w, FlashSystemCluster \<times> unit res) oper" where
  "failStep E inst step reason err =
     (let message = ''failed to '' @ step @ '': '' @ errText err in do {
        cs \<leftarrow> SetReconcileErrorCondition E (conditionsOf inst) ReasonReconcileFailed message;
        (let inst = setPhase PhaseError (setConditions cs inst) in do {
           createEvent E inst EventTypeWarning reason message;
           ret (inst, Err err)
         })
      })"

text \<open>The error branch of the CSI step sets other conditions and leaves the phase.\<close>

definition failProvisioner :: "'w env \<Rightarrow> FlashSystemCluster \<Rightarrow> goerr \<Rightarrow> ('w, FlashSystemCluster \<times> unit res) oper" where
  "failProvisioner E inst err =
     (let message = ''failed to ensureFlashSystemCSICR: '' @ errText err in do {
        cs \<leftarrow> SetReconcileProvisionerErrorCondition E (conditionsOf inst) ReasonReconcileFailed message;
        (let inst = setConditions cs inst in do {
           createEvent E inst EventTypeWarning FailedLaunchBlockCSIReason message;
           ret (inst, Err err)
         })
      })"

text \<open>The end of \<^verbatim>\<open>reconcile\<close>: complete conditions, then the phase from the conditions.\<close>

definition finish :: "'w env \<Rightarrow> FlashSystemCluster \<Rightarrow> ('w, FlashSystemCluster \<times> unit res) oper" where
  "finish E inst = do {
     cs \<leftarrow> SetReconcileCompleteCondition E (conditionsOf inst) ReasonReconcileCompleted ''reconciling done'';
     (let inst = setConditions cs inst in
      ret (if IsStatusConditionTrue (conditionsOf inst) ConditionReconcileComplete \<and>
              IsStatusConditionTrue (conditionsOf inst) ExporterReady \<and>
              IsStatusConditionTrue (conditionsOf inst) StorageClusterReady \<and>
              IsStatusConditionTrue (conditionsOf inst) ProvisionerReady
           then setPhase PhaseReady inst
           else if IsStatusConditionTrue (conditionsOf inst) ConditionProgressing
           then setPhase PhaseProgressing inst
           else setPhase PhaseNotReady inst, Ok ()))
   }"

text \<open>
  \<open>attempt m inst h k\<close> is the source's \<^verbatim>\<open>if err = m; err != nil { h; return err }\<close> followed by \<open>k\<close>; a panic in
  \<open>m\<close> leaves the function at once.
\<close>

definition attempt :: "('w, unit res) oper \<Rightarrow> FlashSystemCluster \<Rightarrow> (goerr \<Rightarrow> ('w, FlashSystemCluster \<times> unit res) oper)
    \<Rightarrow> ('w, FlashSystemCluster \<times> unit res) oper \<Rightarrow> ('w, FlashSystemCluster \<times> unit res) oper" where
  "attempt m inst h k = do {
     r \<leftarrow> m;
     (case r of Ok _ \<Rightarrow> k | Err e \<Rightarrow> h e | Panic p \<Rightarrow> ret (inst, Panic p))
   }"

definition lift :: "('w, goerr + unit) oper \<Rightarrow> ('w, unit res) oper" where
  "lift m = do { r \<leftarrow> m; ret (of_sum r) }"

text \<open>The eight steps, from the secret to the Prometheus rules.\<close>

definition reconcileSteps :: "'w env \<Rightarrow> FlashSystemCluster \<Rightarrow> OwnerReference
    \<Rightarrow> ('w, FlashSystemCluster \<times> unit res) oper" where
  "reconcileSteps E inst newOwner =
     attempt (lift (ensureSecretOwnership E inst newOwner)) inst
       (failStep E inst ''ensureSecretOwnership'' FailedEnsureSecretOwnershipReason) (
     attempt (lift (ensureFlashSystemCSICR E inst)) inst
       (failProvisioner E inst) (
     attempt (ensureScPoolConfigMap E inst) inst
       (failStep E inst ''ensureScPoolConfigMap'' FailedScPoolConfigMapReason) (
     attempt (lift (ensureExporterService E inst newOwner)) inst
       (failStep E inst ''ensureExporterService'' FailedCreateServiceReason) (
     attempt (lift (ensureExporterDeployment E inst newOwner)) inst
       (failStep E inst ''ensureExporterDeployment'' FailedLaunchBlockExporterReason) (
     attempt (lift (ensureExporterServiceMonitor E inst newOwner)) inst
       (failStep E inst ''ensureExporterServiceMonitor'' FailedCreateServiceMonitorReason) (do {
     cs \<leftarrow> SetStatusCondition E (conditionsOf inst) (mkCond ExporterCreated ConditionTrue [] []);
     (let inst = setConditions cs inst in
     attempt (lift (ensureDefaultStorageClass E inst)) inst
       (failStep E inst ''ensureDefaultStorageClass'' FailedCreateStorageClassReason) (
     attempt (enablePrometheusRules E inst newOwner) inst
       (failStep E inst ''enablePrometheusRules'' FailedCreatePromRuleReason) (
     finish E inst)))
     }))))))"

text \<open>An instance under deletion: the default storage class goes first, then the finalizer, then the entry of the ConfigMap.\<close>

definition removeEntry :: "'w env \<Rightarrow> FlashSystemCluster \<Rightarrow> ('w, FlashSystemCluster \<times> unit res) oper" where
  "removeEntry E inst = do {
     r \<leftarrow> removeFscFromConfigMap E (om_Name (fsc_Meta inst));
     ret (inst, of_sum r)
   }"

definition finalizeInstance :: "'w env \<Rightarrow> FlashSystemCluster \<Rightarrow> ('w, FlashSystemCluster \<times> unit res) oper" where
  "finalizeInstance E inst =
     (if IsContain (om_Finalizers (fsc_Meta inst)) flashSystemClusterFinalizer then do {
        r \<leftarrow> deleteDefaultStorageClass E inst;
        (case r of
           Inl e \<Rightarrow> ret (inst, Err e)
         | Inr _ \<Rightarrow>
             (let inst = setFinalizers (Remove (om_Finalizers (fsc_Meta inst)) flashSystemClusterFinalizer) inst in do {
                u \<leftarrow> updateAs E asFsc (OFsc inst);
                (case u of Inl e \<Rightarrow> ret (inst, Err e) | Inr inst' \<Rightarrow> removeEntry E inst')
              }))
      } else removeEntry E inst)"

definition reconcile :: "'w env \<Rightarrow> FlashSystemCluster \<Rightarrow> ('w, FlashSystemCluster \<times> unit res) oper" where
  "reconcile E inst =
     (let newOwnerDetails = ownerOf inst in
      if om_DeletionTimestamp (fsc_Meta inst) = None then
        (if \<not> IsContain (om_Finalizers (fsc_Meta inst)) flashSystemClusterFinalizer then
           (let inst = setFinalizers (om_Finalizers (fsc_Meta inst) @ [flashSystemClusterFinalizer]) inst in do {
              u \<leftarrow> updateAs E asFsc (OFsc inst);
              (case u of Inl e \<Rightarrow> ret (inst, Err e) | Inr inst' \<Rightarrow> reconcileSteps E inst' newOwnerDetails)
            })
         else reconcileSteps E inst newOwnerDetails)
      else finalizeInstance E inst)"

text \<open>
  The deferred function of the source assigns to the local variables \<^verbatim>\<open>result\<close> and \<^verbatim>\<open>err\<close>. The results
  of \<^verbatim>\<open>Reconcile\<close> are not named, so what a \<^verbatim>\<open>return\<close> statement has evaluated is what the caller gets:
  the assignments have no effect, and they do not appear here.
\<close>

definition Reconcile :: "'w env \<Rightarrow> request \<Rightarrow> ('w, Result res) oper" where
  "Reconcile E rq = do {
     r \<leftarrow> getAs E asFsc KFsc (fst rq) (snd rq);
     (case r of
        Inl e \<Rightarrow>
          if IsNotFound e then do {
            x \<leftarrow> removeFscFromConfigMap E (snd rq);
            (case x of Inl e' \<Rightarrow> ret (Err e') | Inr _ \<Rightarrow> ret (Ok emptyResult))
          } else ret (Err e)
      | Inr inst \<Rightarrow> do {
          y \<leftarrow> reconcile E inst;
          (case snd y of
             Panic p \<Rightarrow> ret (Panic p)
           | Err e \<Rightarrow> do { st \<leftarrow> statusUpdateAs E asFsc (OFsc (fst y)); ret (Err e) }
           | Ok _ \<Rightarrow> do {
               st \<leftarrow> statusUpdateAs E asFsc (OFsc (fst y));
               (case st of Inl statusError \<Rightarrow> ret (Err statusError) | Inr _ \<Rightarrow> ret (Ok emptyResult))
             })
        })
   }"

section \<open>What a pass leaves in the status\<close>

lemma status_setters [simp]:
  "conditionsOf (setConditions cs i) = cs" "conditionsOf (setPhase ph i) = conditionsOf i"
  "phaseOf (setPhase ph i) = ph" "phaseOf (setConditions cs i) = phaseOf i"
  "conditionsOf (setFinalizers fs i) = conditionsOf i" "phaseOf (setFinalizers fs i) = phaseOf i"
  by (simp_all add: conditionsOf_def setConditions_def setPhase_def phaseOf_def setFinalizers_def)

lemma wp_failStep:
  assumes "\<And>cs t. (condInv (conditionsOf inst) \<Longrightarrow> condInv cs) \<Longrightarrow>
     (\<And>ty. statusOf cs ty = (if ty = ConditionProgressing then Some ConditionTrue
        else if ty = ConditionReconcileComplete then Some ConditionFalse
        else statusOf (conditionsOf inst) ty)) \<Longrightarrow>
     Q (setPhase PhaseError (setConditions cs inst), Err e) t"
  shows "wpre (failStep E inst step reason e) Q s"
  unfolding failStep_def Let_def wp
  by (intro wp_SetReconcileErrorCondition wp_any assms) (auto simp: wp)

lemma wp_failProvisioner:
  assumes "\<And>cs t. (condInv (conditionsOf inst) \<Longrightarrow> condInv cs) \<Longrightarrow>
     (\<And>ty. statusOf cs ty = (if ty = ProvisionerReady then Some ConditionFalse
        else if ty = ConditionReconcileComplete then Some ConditionFalse
        else statusOf (conditionsOf inst) ty)) \<Longrightarrow>
     Q (setConditions cs inst, Err e) t"
  shows "wpre (failProvisioner E inst e) Q s"
  unfolding failProvisioner_def Let_def wp
  by (intro wp_SetReconcileProvisionerErrorCondition wp_any assms) (auto simp: wp)

text \<open>The status of a pass that succeeded, and of one that failed in a step.\<close>

definition completeStatus :: "FlashSystemCluster \<Rightarrow> bool" where
  "completeStatus inst \<longleftrightarrow>
     (let st = statusOf (conditionsOf inst) in
      st ConditionReconcileComplete = Some ConditionTrue \<and> st ConditionProgressing = Some ConditionFalse \<and>
      st ProvisionerReady = Some ConditionTrue \<and> st ExporterCreated = Some ConditionTrue \<and>
      phaseOf inst = (if st ExporterReady = Some ConditionTrue \<and> st StorageClusterReady = Some ConditionTrue
                      then PhaseReady else PhaseNotReady))"

definition failedStatus :: "FlashSystemCluster \<Rightarrow> bool" where
  "failedStatus inst \<longleftrightarrow>
     (let st = statusOf (conditionsOf inst) in
      st ConditionReconcileComplete = Some ConditionFalse \<and>
      (phaseOf inst = PhaseError \<and> st ConditionProgressing = Some ConditionTrue \<or>
       st ProvisionerReady = Some ConditionFalse))"

definition stepsPost :: "FlashSystemCluster \<Rightarrow> FlashSystemCluster \<times> unit res \<Rightarrow> bool" where
  "stepsPost inst y \<longleftrightarrow>
     (condInv (conditionsOf inst) \<longrightarrow> condInv (conditionsOf (fst y))) \<and>
     (case snd y of Ok _ \<Rightarrow> completeStatus (fst y) | Err e \<Rightarrow> failedStatus (fst y) | Panic p \<Rightarrow> True)"

lemma failStep_post: "wpre (failStep E inst step reason e) (\<lambda>y t. stepsPost inst y) s"
  by (rule wp_failStep) (auto simp: stepsPost_def failedStatus_def condition_types)

lemma failProvisioner_post: "wpre (failProvisioner E inst e) (\<lambda>y t. stepsPost inst y) s"
  by (rule wp_failProvisioner) (auto simp: stepsPost_def failedStatus_def condition_types)

lemma panic_post: "stepsPost inst (inst, Panic p)"
  by (simp add: stepsPost_def)

lemma finish_post:
  assumes "statusOf (conditionsOf inst) ExporterCreated = Some ConditionTrue"
  shows "wpre (finish E inst) (\<lambda>y t. stepsPost inst y) s"
  unfolding finish_def Let_def wp
  by (rule wp_SetReconcileCompleteCondition)
    (insert assms, simp add: stepsPost_def completeStatus_def IsStatusConditionTrue_iff condition_types)

lemma stepsPost_trans:
  "stepsPost (setConditions cs inst) y \<Longrightarrow> (condInv (conditionsOf inst) \<Longrightarrow> condInv cs) \<Longrightarrow> stepsPost inst y"
  by (simp add: stepsPost_def)

lemma wp_attempt:
  assumes "\<And>e t. wpre (h e) Q t" and "\<And>p t. Q (inst, Panic p) t" and "\<And>t. wpre k Q t"
  shows "wpre (attempt m inst h k) Q s"
  unfolding attempt_def wp_bind
  by (rule wp_res_any) (simp_all add: wp assms)

lemma reconcileSteps_post: "wpre (reconcileSteps E inst newOwner) (\<lambda>y t. stepsPost inst y) s"
proof -
  have tail: "wpre (attempt (lift (ensureDefaultStorageClass E i)) i
       (failStep E i ''ensureDefaultStorageClass'' FailedCreateStorageClassReason) (
     attempt (enablePrometheusRules E i newOwner) i
       (failStep E i ''enablePrometheusRules'' FailedCreatePromRuleReason) (finish E i)))
     (\<lambda>y t. stepsPost i y) t"
    if "statusOf (conditionsOf i) ExporterCreated = Some ConditionTrue" for i t
    by (intro wp_attempt failStep_post panic_post finish_post that)
  show ?thesis
    unfolding reconcileSteps_def Let_def
    by (intro wp_attempt failStep_post failProvisioner_post panic_post)
      (unfold wp_bind, rule wp_SetStatusCondition, rule wp_mono, rule tail,
       auto simp: statusOf_setCond mkCond_def setCond_condInv intro: stepsPost_trans)
qed

end
