(* ===== verification/FscPools.thy ===== *)
theory FscPools
  imports FscReconcile
begin

text \<open>
  What the reconciler of FlashSystemClusters does to the pools ConfigMap, on a server that obeys
  \<^const>\<open>api_laws\<close>.
\<close>

lemma demo_poolLive: "poolLive storeView ''ns'' (world (demoState [OConfigMap demoCm]))"
  by (simp add: demoState_def poolLive_def poolCm_def storeView_def lookupObj_def demoCm_def keyOf_def poolKey_def
      PoolConfigmapName_def)

text \<open>
  Removing a FlashSystemCluster from the pools ConfigMap: when the operation succeeds, the
  ConfigMap in the cluster has lost exactly that cluster's entry (or has been created without it), every
  other entry is what it was, and no other object has changed. When it fails, nothing but the
  ConfigMap can have changed.
\<close>

theorem removeFscFromConfigMap_correct:
  assumes "api_laws E v" and "poolLive v (watchNamespace s) (world s)"
    and "run_state (removeFscFromConfigMap E fscName) s = (r, t)"
  shows "onlyAt (poolKey (watchNamespace s)) (v (world s)) (v (world t)) \<and>
    (r = Inr () \<longrightarrow> (\<forall>k. poolEntry v (watchNamespace s) (world t) k =
       (if k = fscName then None else poolEntry v (watchNamespace s) (world s) k)))"
  using wp_runD [OF wp_removeFscFromConfigMap [OF assms(1,2)] assms(3)] .

theorem removeFscFromConfigMap_correct_witness:
  "\<exists>t. run_state (removeFscFromConfigMap storeEnv ''fs1'') (demoState [OConfigMap demoCm]) = (Inr (), t) \<and>
     poolEntry storeView ''ns'' (world t) ''fs1'' = None \<and>
     poolEntry storeView ''ns'' (world t) ''fs2'' = Some ''y''"
proof -
  let ?s = "demoState [OConfigMap demoCm]"
  obtain r t where run: "run_state (removeFscFromConfigMap storeEnv ''fs1'') ?s = (r, t)" by fastforce
  have "fst (run_state (removeFscFromConfigMap storeEnv ''fs1'') ?s) = Inr ()" by code_simp
  with run have r: "r = Inr ()" by simp
  have ns: "watchNamespace ?s = ''ns''" by (simp add: demoState_def)
  have "poolEntry storeView ''ns'' (world ?s) ''fs2'' = Some ''y''"
    by (simp add: demoState_def poolEntry_def poolCm_def storeView_def lookupObj_def demoCm_def keyOf_def poolKey_def
      PoolConfigmapName_def)
  then show ?thesis
    using removeFscFromConfigMap_correct [OF storeEnv_laws _ run] demo_poolLive run r ns by simp
qed

text \<open>
  Ensuring the entry of a FlashSystemCluster in the pools ConfigMap: when the step succeeds, the
  ConfigMap in the cluster no longer has the legacy \<^verbatim>\<open>pools\<close> key, the cluster has an entry (the one
  it had, else a new one with its secret and no storage class), every other entry is what it was,
  and no other object has changed.
\<close>

theorem ensureScPoolConfigMap_correct:
  assumes "api_laws E v" and "poolLive v (watchNamespace s) (world s)"
    and "kMarshal E (newContent inst) = Inr val"
    and "run_state (ensureScPoolConfigMap E inst) s = (r, t)"
  shows "onlyAt (poolKey (watchNamespace s)) (v (world s)) (v (world t)) \<and>
    (r = Ok () \<longrightarrow> (\<forall>k. poolEntry v (watchNamespace s) (world t) k =
       ensuredEntry (om_Name (fsc_Meta inst)) val (poolEntry v (watchNamespace s) (world s)) k))"
  using wp_runD [OF wp_ensureScPoolConfigMap [OF assms(1-3)] assms(4)] .

theorem ensureScPoolConfigMap_correct_witness:
  "\<exists>t. run_state (ensureScPoolConfigMap storeEnv demoFsc) (demoState []) = (Ok (), t) \<and>
     poolEntry storeView ''ns'' (world t) ''fs1'' = Some (Marshal_content (newContent demoFsc)) \<and>
     poolEntry storeView ''ns'' (world t) ''fs2'' = None"
proof -
  let ?s = "demoState []"
  obtain r t where run: "run_state (ensureScPoolConfigMap storeEnv demoFsc) ?s = (r, t)" by fastforce
  have "fst (run_state (ensureScPoolConfigMap storeEnv demoFsc) ?s) = Ok ()" by code_simp
  with run have r: "r = Ok ()" by simp
  have ns: "watchNamespace ?s = ''ns''" and n: "om_Name (fsc_Meta demoFsc) = ''fs1''"
    by (simp_all add: demoState_def demoFsc_def)
  have live: "poolLive storeView ''ns'' (world ?s)" and e: "poolEntry storeView ''ns'' (world ?s) = (\<lambda>k. None)"
    by (simp_all add: demoState_def poolLive_def poolEntry_def poolCm_def storeView_def fun_eq_iff)
  have m: "kMarshal storeEnv (newContent demoFsc) = Inr (Marshal_content (newContent demoFsc))"
    by (simp add: storeEnv_def)
  show ?thesis
    using ensureScPoolConfigMap_correct [OF storeEnv_laws _ m run] live run r
    by (simp add: ns n e ensuredEntry_def PoolsKey_def)
qed

text \<open>
  The step can panic only through the legacy key: when the ConfigMap has no \<^verbatim>\<open>pools\<close> entry,
  \<open>ensureScPoolConfigMap\<close> returns a value or an error, whatever is in the ConfigMap (its data may be nil).
\<close>

theorem ensureScPoolConfigMap_no_panic:
  assumes "api_laws E v" and "poolLive v (watchNamespace s) (world s)"
    and "poolEntry v (watchNamespace s) (world s) PoolsKey = None"
  shows "fst (run_state (ensureScPoolConfigMap E inst) s) \<noteq> Panic p"
proof -
  have add: "wpre (addFscEntry E inst cm) (\<lambda>r t. r \<noteq> Panic p) u" if "cm_Data cm \<noteq> NilMap" for cm u
    unfolding addFscEntry_def Let_def
    by (auto simp: wp that split: sum.splits option.splits intro!: wp_sum_any)
  have "wpre (ensureScPoolConfigMap E inst) (\<lambda>r t. r \<noteq> Panic p) s"
    unfolding ensureScPoolConfigMap_def wp_bind [of askNamespace] wp_bind [of "GetCreateConfigmap _ _ _"] wp_askNamespace
    by (rule wp_GetCreateConfigmap [OF assms(1,2)])
      (use assms(3) in \<open>auto simp: wp Let_def intro!: add\<close>)
  then show ?thesis by (simp add: wpre_def split: prod.splits)
qed

theorem ensureScPoolConfigMap_no_panic_witness:
  "\<forall>p. fst (run_state (ensureScPoolConfigMap storeEnv demoFsc) (demoState [])) \<noteq> Panic p"
  using ensureScPoolConfigMap_no_panic [OF storeEnv_laws, of "demoState []" demoFsc]
  by (simp add: demoState_def poolLive_def poolEntry_def poolCm_def storeView_def)
text \<open>
  With the legacy key the panic is real: a ConfigMap whose only entry is \<^verbatim>\<open>pools\<close> has no data left
  after the update that removes it, the server answers with nil data, and the assignment panics.
\<close>

definition legacyCm :: ConfigMap where
  "legacyCm = demoCm\<lparr>cm_Data := MkMap [(''pools'', ''z'')]\<rparr>"

lemma ensureScPoolConfigMap_legacy_panic:
  "fst (run_state (ensureScPoolConfigMap storeEnv demoFsc) (demoState [OConfigMap legacyCm])) =
     Panic ''assignment to entry in nil map''"
  by code_simp

end
