(* ===== verification/FscSpec.thy ===== *)
theory FscSpec
  imports FscReconcile
begin

text \<open>
  What the reconciler of FlashSystemClusters guarantees: the status it leaves, the calls it may make
  while an instance is live and while it is deleted, and what it does to the pools ConfigMap.
\<close>

section \<open>The calls of a live instance\<close>

text \<open>
  The writes that a pass over a live instance may make: it never updates or deletes a storage class,
  deletes only exporter objects of the old naming, and creates only its own objects.
\<close>

definition liveCall :: "FlashSystemCluster \<Rightarrow> req \<Rightarrow> bool" where
  "liveCall inst q =
     (let ns = om_Namespace (fsc_Meta inst) in
      case q of
        RGet _ _ _ \<Rightarrow> True
      | RList _ _ _ \<Rightarrow> True
      | RStatusUpdate _ \<Rightarrow> False
      | RDelete x \<Rightarrow> kindOf x \<in> {KService, KDeployment, KServiceMonitor} \<and>
          isOldObject (om_Labels (metaOf x)) (om_Name (metaOf x))
      | RUpdate x \<Rightarrow> kindOf x \<in> {KSecret, KConfigMap, KService, KDeployment, KServiceMonitor, KPromRule}
      | RCreate x \<Rightarrow>
          (case x of
             OEvent e \<Rightarrow> om_Namespace (ev_Meta e) = ns
           | OConfigMap c \<Rightarrow> om_Name (cm_Meta c) = PoolConfigmapName
           | OService v \<Rightarrow> v = InitExporterMetricsService inst
           | ODeployment d \<Rightarrow> om_Name (dep_Meta d) = fsDeploymentName \<and> om_Namespace (dep_Meta d) = ns
           | OServiceMonitor m \<Rightarrow> m = InitExporterMetricsServiceMonitor inst
           | OStorageClass c \<Rightarrow> InitDefaultStorageClass inst = Some c
           | OPromRule r \<Rightarrow> om_Name (pru_Meta r) = om_Name (fsc_Meta inst) \<and> om_Namespace (pru_Meta r) = ns
           | OCsiCR u \<Rightarrow> om_Namespace (un_Meta u) = ns
           | _ \<Rightarrow> False))"

lemma InitK8sEvent_ns: "run_state (InitK8sEvent E inst ty r m) s = (e, t) \<Longrightarrow>
   om_Namespace (ev_Meta e) = om_Namespace (fsc_Meta inst)"
  by (auto simp: InitK8sEvent_def now_def Let_def split: prod.splits)

lemma issues_createEvent [issues_intro]:
  "(\<And>e. om_Namespace (ev_Meta e) = om_Namespace (fsc_Meta inst) \<Longrightarrow> P (RCreate (OEvent e))) \<Longrightarrow>
   issues P (createEvent E inst ty r m)"
  unfolding createEvent_def
  by (intro issues_strong_bind issues_intro) (auto dest: InitK8sEvent_ns)

lemma liveCall_simps [simp]:
  "liveCall inst (RGet k n m)" "liveCall inst (RList k o' l)"
  by (simp_all add: liveCall_def)

lemma live_ensureSecretOwnership: "issues (liveCall inst) (ensureSecretOwnership E inst ow)"
  unfolding ensureSecretOwnership_def Let_def by (intro issues_intro) (simp_all add: liveCall_def)

lemma live_createEvent: "issues (liveCall inst) (createEvent E inst ty r m)"
  by (intro issues_createEvent) (simp add: liveCall_def)

lemma live_CreateIBMBlockCSICR: "issues (liveCall inst) (CreateIBMBlockCSICR E (om_Namespace (fsc_Meta inst)))"
  unfolding CreateIBMBlockCSICR_def by (intro issues_intro) (simp add: liveCall_def)

lemma live_ensureFlashSystemCSICR: "issues (liveCall inst) (ensureFlashSystemCSICR E inst)"
  unfolding ensureFlashSystemCSICR_def
  by (intro live_createEvent live_CreateIBMBlockCSICR issues_intro) simp_all

lemma live_ensureScPoolConfigMap: "issues (liveCall inst) (ensureScPoolConfigMap E inst)"
  unfolding ensureScPoolConfigMap_def addFscEntry_def Let_def by (intro issues_intro) (simp_all add: liveCall_def initScPoolConfigMap_def)


lemma issues_deleteOld:
  "(isOldObject (om_Labels (metaOf x)) (om_Name (metaOf x)) \<Longrightarrow> P (RDelete x)) \<Longrightarrow> issues P (deleteOld E x)"
  unfolding deleteOld_def by (auto intro!: issues_intro)

lemma live_deleteDuplicated:
  "issues (liveCall inst) (deleteDuplicatedService E inst)"
  "issues (liveCall inst) (deleteDuplicatedDeployment E inst)"
  "issues (liveCall inst) (deleteDuplicatedServiceMonitor E inst)"
  unfolding deleteDuplicatedService_def deleteDuplicatedDeployment_def deleteDuplicatedServiceMonitor_def
    getObjectListByLabel_def
  by (intro issues_intro issues_deleteOld; simp add: liveCall_def)+

lemma live_ensureExporterService: "issues (liveCall inst) (ensureExporterService E inst ow)"
  unfolding ensureExporterService_def Let_def
  by (intro live_deleteDuplicated issues_intro) (simp_all add: liveCall_def)

lemma live_ensureExporterServiceMonitor: "issues (liveCall inst) (ensureExporterServiceMonitor E inst ow)"
  unfolding ensureExporterServiceMonitor_def Let_def
  by (intro live_deleteDuplicated issues_intro) (simp_all add: liveCall_def)

lemma live_ensureExporterDeployment: "issues (liveCall inst) (ensureExporterDeployment E inst ow)"
  unfolding ensureExporterDeployment_def InitExporterDeployment_def Let_def sum.case
  by (intro live_deleteDuplicated issues_intro)
    (simp_all add: liveCall_def exporterMeta_def getExporterDeploymentName_def)

lemma live_ensureDefaultStorageClass: "issues (liveCall inst) (ensureDefaultStorageClass E inst)"
  unfolding ensureDefaultStorageClass_def
  by (cases "fs_DefaultPool (fsc_Spec inst)"; cases "InitDefaultStorageClass inst")
    (auto simp: liveCall_def intro!: live_createEvent issues_intro)

lemma getPrometheusRules_meta:
  "run_state (getPrometheusRules E inst ow) s = (Ok rule, t) \<Longrightarrow>
   om_Name (pru_Meta rule) = om_Name (fsc_Meta inst) \<and> om_Namespace (pru_Meta rule) = om_Namespace (fsc_Meta inst)"
  by (auto simp: getPrometheusRules_def askWorld_def instantiateRule_def SetOwnerReferences_def Let_def
      split: sum.splits res.splits)

lemma live_enablePrometheusRules: "issues (liveCall inst) (enablePrometheusRules E inst ow)"
  unfolding enablePrometheusRules_def CreateOrUpdatePrometheusRules_def
  by (rule issues_strong_bind, rule issues_getPrometheusRules)
    (auto simp: liveCall_def dest: getPrometheusRules_meta intro!: issues_intro split: res.split)

lemma live_setters [simp]: "liveCall (setConditions cs inst) = liveCall inst" "liveCall (setPhase ph inst) = liveCall inst"
  by (simp_all add: fun_eq_iff liveCall_def setConditions_def setPhase_def InitExporterMetricsService_def
       InitExporterMetricsServiceMonitor_def InitDefaultStorageClass_def exporterMeta_def ownerOf_def Let_def
       cong: req.case_cong kobj.case_cong)

lemma live_failStep: "issues (liveCall inst) (failStep E inst st re e)"
  unfolding failStep_def Let_def
  by (intro issues_intro) (simp add: liveCall_def setConditions_def setPhase_def)

lemma live_failProvisioner: "issues (liveCall inst) (failProvisioner E inst e)"
  unfolding failProvisioner_def Let_def
  by (intro issues_intro) (simp add: liveCall_def setConditions_def setPhase_def)

lemma issues_attempt:
  "issues P m \<Longrightarrow> (\<And>e. issues P (h e)) \<Longrightarrow> issues P k \<Longrightarrow> issues P (attempt m inst h k)"
  unfolding attempt_def by (intro issues_intro)

lemma issues_lift [issues_intro]: "issues P m \<Longrightarrow> issues P (lift m)"
  unfolding lift_def by (intro issues_intro)

lemma issues_finish [issues_intro]: "issues P (finish E inst)"
  unfolding finish_def Let_def by (intro issues_intro)

lemmas live_steps = live_ensureSecretOwnership live_ensureFlashSystemCSICR live_ensureScPoolConfigMap
  live_ensureExporterService live_ensureExporterDeployment live_ensureExporterServiceMonitor
  live_ensureDefaultStorageClass live_enablePrometheusRules live_failStep live_failProvisioner

lemma live_ensureDefaultStorageClass_after: "issues (liveCall inst) (ensureDefaultStorageClass E (setConditions cs inst))"
  using live_ensureDefaultStorageClass [of "setConditions cs inst"] by simp

lemma live_after:
  "issues (liveCall inst) (enablePrometheusRules E (setConditions cs inst) ow)"
  "issues (liveCall inst) (failStep E (setConditions cs inst) st re e)"
  using live_enablePrometheusRules [of "setConditions cs inst"] live_failStep [of "setConditions cs inst"] by simp_all

lemma live_reconcileSteps: "issues (liveCall inst) (reconcileSteps E inst ow)"
  unfolding reconcileSteps_def Let_def
  by (intro issues_attempt issues_lift live_steps live_after live_ensureDefaultStorageClass_after issues_bind
      issues_SetStatusCondition issues_finish)
section \<open>The status a pass leaves\<close>

lemma demo_reconcile: "snd (fst (run_state (reconcile storeEnv demoFsc) demoStart)) = Ok ()"
  by code_simp

lemma demo_failure: "\<exists>e. snd (fst (run_state (reconcile storeEnv demoFsc) (demoState []))) = Err e"
proof -
  have "(case snd (fst (run_state (reconcile storeEnv demoFsc) (demoState []))) of Err e \<Rightarrow> True | _ \<Rightarrow> False)"
    by code_simp
  then show ?thesis by (auto split: res.splits)
qed

lemma reconcile_post:
  assumes "om_DeletionTimestamp (fsc_Meta inst) = None"
  shows "wpre (reconcile E inst) (\<lambda>y t. case snd y of
     Ok _ \<Rightarrow> completeStatus (fst y) | Panic p \<Rightarrow> True
   | Err e \<Rightarrow> failedStatus (fst y) \<or> (\<not> IsContain (om_Finalizers (fsc_Meta inst)) flashSystemClusterFinalizer \<and>
        fst y = setFinalizers (om_Finalizers (fsc_Meta inst) @ [flashSystemClusterFinalizer]) inst)) s"
proof -
  have steps: "wpre (reconcileSteps E i o') (\<lambda>y t. case snd y of
     Ok _ \<Rightarrow> completeStatus (fst y) | Panic p \<Rightarrow> True | Err e \<Rightarrow> failedStatus (fst y) \<or> F e (fst y)) t" for i o' F t
    by (rule wp_mono [OF reconcileSteps_post]) (auto simp: stepsPost_def split: res.splits)
  show ?thesis
    using assms unfolding reconcile_def Let_def
    by (auto simp: wp intro!: steps wp_sum_any)
qed



text \<open>
  C10: When a pass over a live instance returns an error, either the update that adds the finalizer was
  refused and nothing else has been done to the status, or ReconcileComplete is false, and either the
  phase is Error with Progressing true, or ProvisionerReady is false (the CSI step, which leaves the
  phase as it was).
\<close>

theorem reconcile_error_status:
  assumes "om_DeletionTimestamp (fsc_Meta inst) = None"
    and "run_state (reconcile E inst) s = ((inst', Err e), t)"
  shows "(\<not> IsContain (om_Finalizers (fsc_Meta inst)) flashSystemClusterFinalizer \<and>
      inst' = setFinalizers (om_Finalizers (fsc_Meta inst) @ [flashSystemClusterFinalizer]) inst) \<or>
    (statusOf (conditionsOf inst') ConditionReconcileComplete = Some ConditionFalse \<and>
     (phaseOf inst' = PhaseError \<and> statusOf (conditionsOf inst') ConditionProgressing = Some ConditionTrue \<or>
      statusOf (conditionsOf inst') ProvisionerReady = Some ConditionFalse))"
  using wp_runD [OF reconcile_post [OF assms(1)] assms(2)] by (auto simp: failedStatus_def Let_def)

theorem reconcile_error_status_witness:
  "\<exists>inst' e t. run_state (reconcile storeEnv demoFsc) (demoState []) = ((inst', Err e), t) \<and>
     statusOf (conditionsOf inst') ConditionReconcileComplete = Some ConditionFalse"
proof -
  obtain inst' e t where r: "run_state (reconcile storeEnv demoFsc) (demoState []) = ((inst', Err e), t)"
    using demo_failure by (metis prod.collapse)
  have "om_DeletionTimestamp (fsc_Meta demoFsc) = None"
    and "IsContain (om_Finalizers (fsc_Meta demoFsc)) flashSystemClusterFinalizer"
    by (simp_all add: demoFsc_def flashSystemClusterFinalizer_def)
  with reconcile_error_status [OF this(1) r] r show ?thesis by auto
qed

section \<open>Deletion\<close>

text \<open>The calls show that the default storage class is gone: it was not found, or its deletion was accepted.\<close>

definition scGone :: "string \<Rightarrow> (req \<times> resp) list \<Rightarrow> bool" where
  "scGone name xs \<longleftrightarrow>
     (\<exists>e. IsNotFound e \<and> (RGet KStorageClass [] name, RErr e) \<in> set xs) \<or>
     (\<exists>sc r. (RGet KStorageClass [] name, ROk (OStorageClass sc)) \<in> set xs \<and>
        (RDelete (OStorageClass sc), r) \<in> set xs \<and> (\<forall>e. r \<noteq> RErr e))"

lemma deleteDefaultStorageClass_calls:
  assumes "fs_DefaultPool (fsc_Spec inst) = Some pool"
  shows "wpre (deleteDefaultStorageClass E inst) (\<lambda>r t. \<exists>pre. calls t = calls s @ pre \<and>
     list_all (\<lambda>x. reqKind (fst x) = KStorageClass) pre \<and>
     (r = Inr () \<longrightarrow> scGone (scc_StorageClassName pool) pre)) s"
proof -
  have "InitDefaultStorageClass inst \<noteq> None" using assms by (simp add: InitDefaultStorageClass_def Let_def)
  moreover have "\<exists>pre. calls t = calls s @ pre \<and> list_all (\<lambda>x. reqKind (fst x) = KStorageClass) pre \<and>
      (a = Inr () \<longrightarrow> scGone name pre)"
    if "run_state (do { r \<leftarrow> call E (RGet KStorageClass [] name);
          (case decodeOne asStorageClass r of
             Inl e \<Rightarrow> if IsNotFound e then ret (Inr ()) else ret (Inl e)
           | Inr sc \<Rightarrow> deleteObj E (OStorageClass sc)) }) s = (a, t)" for name a t
    by (rule wp_runD [OF _ that], unfold wp deleteObj_def, rule wp_call_any)
      (auto simp: wp decodeOne_def scGone_def decodeDone_def intro!: wp_call_any split: resp.splits option.splits)
  ultimately show ?thesis
    using assms unfolding deleteDefaultStorageClass_def getAs_def by (auto intro!: wp_runI)
qed

lemma split_at_new:
  assumes "xs @ ys = pre @ z # post" and "z \<notin> set xs"
  shows "set xs \<subseteq> set pre"
  using assms by (auto simp: append_eq_append_conv2 append_eq_Cons_conv)

lemma scGone_mono: "scGone name xs \<Longrightarrow> set xs \<subseteq> set ys \<Longrightarrow> scGone name ys"
  unfolding scGone_def by blast

lemma issues_removeEntry [issues_intro]:
  assumes "\<And>ns. P (RGet KConfigMap ns PoolConfigmapName)"
    and "\<And>ns. P (RCreate (OConfigMap ((initScPoolConfigMap ns)\<lparr>cm_Data := MkMap []\<rparr>)))"
    and "\<And>c. P (RUpdate (OConfigMap c))"
  shows "issues P (removeEntry E inst)"
  unfolding removeEntry_def removeFscFromConfigMap_def by (intro issues_intro assms)

text \<open>The calls up to the end of \<open>deleteDefaultStorageClass\<close>, and the rest.\<close>

lemma finalizeInstance_calls:
  assumes pool: "fs_DefaultPool (fsc_Spec inst) = Some pool"
    and run: "run_state (finalizeInstance E inst) s = (y, t)"
  obtains "\<And>q. q \<in> fst ` set (drop (length (calls s)) (calls t)) \<Longrightarrow> reqKind q \<noteq> KFsc"
  | p ys where "calls t = calls s @ p @ ys" "list_all (\<lambda>x. reqKind (fst x) = KStorageClass) p"
      "scGone (scc_StorageClassName pool) p"
proof -
  define rest where "rest r = (case r of
           Inl e \<Rightarrow> ret (inst, Err e)
         | Inr (_ :: unit) \<Rightarrow>
             (let inst = setFinalizers (Remove (om_Finalizers (fsc_Meta inst)) flashSystemClusterFinalizer) inst in do {
                u \<leftarrow> updateAs E asFsc (OFsc inst);
                (case u of Inl e \<Rightarrow> ret (inst, Err e) | Inr inst' \<Rightarrow> removeEntry E inst')
              }))" for r
  show thesis
  proof (cases "IsContain (om_Finalizers (fsc_Meta inst)) flashSystemClusterFinalizer")
    case True
    obtain r u where d: "run_state (deleteDefaultStorageClass E inst) s = (r, u)" by fastforce
    from wp_runD [OF deleteDefaultStorageClass_calls [OF pool] d] obtain p where p: "calls u = calls s @ p"
      "list_all (\<lambda>x. reqKind (fst x) = KStorageClass) p" "r = Inr () \<longrightarrow> scGone (scc_StorageClassName pool) p"
      by blast
    have run': "run_state (rest r) u = (y, t)"
      using run d True by (simp add: finalizeInstance_def rest_def)
    show thesis
    proof (cases r)
      case (Inl e)
      then have "t = u" using run' by (simp add: rest_def)
      with p show thesis by (intro that(1)) (auto simp: list_all_iff)
    next
      case (Inr n)
      have "issues (\<lambda>_. True) (rest r)" unfolding rest_def Let_def by (intro issues_intro) simp_all
      then obtain ys where "calls t = calls u @ ys" using run' by (rule issuesE)
      with p Inr show thesis by (intro that(2)) auto
    qed
  next
    case False
    have "issues (\<lambda>q. reqKind q \<noteq> KFsc) (removeEntry E inst)" by (intro issues_intro) simp_all
    moreover have "run_state (removeEntry E inst) s = (y, t)" using run False by (simp add: finalizeInstance_def)
    ultimately obtain xs where "calls t = calls s @ xs" "list_all ((\<lambda>q. reqKind q \<noteq> KFsc) \<circ> fst) xs" by (rule issuesE)
    then show thesis by (intro that(1)) (auto simp: list_all_iff)
  qed
qed

text \<open>
  C11: The finalizer outlives the default storage class. In a pass over an instance under deletion, for
  every behaviour of the server: when the update of the instance is sent, earlier calls of the same
  pass have either found that the default storage class does not exist, or have deleted it
  without an error.
\<close>

theorem finalizer_after_storageClass:
  assumes "om_DeletionTimestamp (fsc_Meta inst) = Some ts" and pool: "fs_DefaultPool (fsc_Spec inst) = Some pool"
    and run: "run_state (reconcile E inst) s = (y, t)"
    and upd: "calls t = calls s @ pre @ (RUpdate (OFsc x), r) # post"
  shows "scGone (scc_StorageClassName pool) pre"
proof -
  have run': "run_state (finalizeInstance E inst) s = (y, t)"
    using run assms(1) by (simp add: reconcile_def Let_def)
  show ?thesis
  proof (cases rule: finalizeInstance_calls [OF pool run'])
    case 1
    from 1 [of "RUpdate (OFsc x)"] upd show ?thesis by force
  next
    case (2 p ys)
    with upd have "p @ ys = pre @ (RUpdate (OFsc x), r) # post" by simp
    then have "set p \<subseteq> set pre" by (rule split_at_new) (use 2(2) in \<open>auto simp: list_all_iff\<close>)
    with 2(3) show ?thesis by (rule scGone_mono)
  qed
qed

lemma demo_deletion:
  obtains y t a x r post where "run_state (reconcile storeEnv demoDeleted) (demoState [OFsc demoDeleted]) = (y, t)"
    "snd y = Ok ()" "calls t = a # (RUpdate (OFsc x), r) # post"
proof -
  have "(case run_state (reconcile storeEnv demoDeleted) (demoState [OFsc demoDeleted]) of
      (y, t) \<Rightarrow> snd y = Ok () \<and> (case calls t of a # (RUpdate (OFsc x), r) # post \<Rightarrow> True | _ \<Rightarrow> False))"
    by code_simp
  then show thesis by (auto intro: that split: prod.splits list.splits req.splits kobj.splits)
qed

theorem finalizer_after_storageClass_witness:
  "\<exists>y t pre x r post. run_state (reconcile storeEnv demoDeleted) (demoState [OFsc demoDeleted]) = (y, t) \<and>
     calls t = pre @ (RUpdate (OFsc x), r) # post \<and> scGone ''sc1'' pre"
proof -
  obtain y t a x r post where run: "run_state (reconcile storeEnv demoDeleted) (demoState [OFsc demoDeleted]) = (y, t)"
    and c: "calls t = a # (RUpdate (OFsc x), r) # post"
    by (rule demo_deletion)
  have d: "om_DeletionTimestamp (fsc_Meta demoDeleted) = Some 7" "calls (demoState [OFsc demoDeleted]) = []"
    and p: "fs_DefaultPool (fsc_Spec demoDeleted) = Some \<lparr>scc_StorageClassName = ''sc1'', scc_PoolName = ''p0'',
         scc_FsType = ''ext4'', scc_VolumeNamePrefix = [], scc_SpaceEfficiency = ''thin''\<rparr>"
    by (simp_all add: demoDeleted_def demoFsc_def demoState_def)
  from finalizer_after_storageClass [OF d(1) p run, of "[a]" x r post] c d(2) have "scGone ''sc1'' [a]" by simp
  with run c show ?thesis by (metis append_Cons append_Nil)
qed

section \<open>The calls of a pass over a deleted instance\<close>

definition deletionCall :: "FlashSystemCluster \<Rightarrow> req \<Rightarrow> bool" where
  "deletionCall inst q =
     (case q of
        RGet k ns n \<Rightarrow> (k = KConfigMap \<and> n = PoolConfigmapName) \<or>
          (k = KStorageClass \<and> ns = [] \<and> map_option scc_StorageClassName (fs_DefaultPool (fsc_Spec inst)) = Some n)
      | RList _ _ _ \<Rightarrow> False
      | RCreate x \<Rightarrow> (\<exists>ns. x = OConfigMap ((initScPoolConfigMap ns)\<lparr>cm_Data := MkMap []\<rparr>))
      | RUpdate x \<Rightarrow> kindOf x = KConfigMap \<or>
          x = OFsc (setFinalizers (Remove (om_Finalizers (fsc_Meta inst)) flashSystemClusterFinalizer) inst)
      | RStatusUpdate _ \<Rightarrow> False
      | RDelete x \<Rightarrow> kindOf x = KStorageClass)"

lemma issues_deleteDefaultStorageClass:
  assumes "\<And>pool. fs_DefaultPool (fsc_Spec inst) = Some pool \<Longrightarrow> P (RGet KStorageClass [] (scc_StorageClassName pool))"
    and "\<And>c. P (RDelete (OStorageClass c))"
  shows "issues P (deleteDefaultStorageClass E inst)"
  unfolding deleteDefaultStorageClass_def
  by (cases "fs_DefaultPool (fsc_Spec inst)"; cases "InitDefaultStorageClass inst") (auto intro!: issues_intro assms)





end
