(* ===== verification/ExporterSpec.thy ===== *)
theory ExporterSpec
  imports FscController Sample
begin

text \<open>
  The exporter objects converge: what the update functions of \<^verbatim>\<open>controllers/exporter.go\<close> repair, and what
  becomes of the template of the Prometheus rules.
\<close>

section \<open>Owners\<close>

lemma isOwnerExist_iff: "isOwnerExist os new \<longleftrightarrow> (\<exists>o' \<in> set os. or_UID o' = or_UID new)"
  by (induction os) auto

definition ownedMeta :: "ObjectMeta \<Rightarrow> OwnerReference \<Rightarrow> bool" where
  "ownedMeta m new \<longleftrightarrow> isOwnerExist (GetOwnerReferences m) new"

text \<open>The metadata with the owner added when it is missing, which all three update functions build.\<close>

definition addOwner :: "OwnerReference \<Rightarrow> ObjectMeta \<Rightarrow> ObjectMeta" where
  "addOwner new m = (if ownedMeta m new then m else SetOwnerReferences (GetOwnerReferences m @ [new]) m)"

lemma addOwner_simps [simp]:
  "ownedMeta (addOwner new m) new" "ownedMeta m new \<Longrightarrow> addOwner new m = m"
  "ownedMeta m old \<Longrightarrow> ownedMeta (addOwner new m) old"
  by (auto simp: addOwner_def ownedMeta_def SetOwnerReferences_def GetOwnerReferences_def isOwnerExist_iff split: option.splits)

section \<open>The contract of an update function\<close>

text \<open>
  An update function compares an object with what is expected and with its owner; it returns the repaired
  object, or nothing when there is nothing to repair.
\<close>

locale repairer =
  fixes upd :: "'a \<Rightarrow> OwnerReference \<Rightarrow> 'a option"
    and conforms :: "'a \<Rightarrow> bool"
    and meta :: "'a \<Rightarrow> ObjectMeta"
  assumes settled: "upd x new = None \<longleftrightarrow> conforms x \<and> ownedMeta (meta x) new"
    and repaired: "upd x new = Some y \<Longrightarrow> conforms y \<and> meta y = addOwner new (meta x)"
begin

lemma idempotent: "upd x new = Some y \<Longrightarrow> upd y new = None"
  using repaired [of x new y] by (simp add: settled)

text \<open>A second cluster in the namespace takes the object over without displacing the first.\<close>

lemma shared: "upd x new = None \<Longrightarrow> upd x other = Some y \<Longrightarrow> upd y new = None"
  using repaired [of x other y] by (simp add: settled)

lemma once:
  "case upd x new of
     None \<Rightarrow> conforms x \<and> ownedMeta (meta x) new
   | Some y \<Rightarrow> \<not> (conforms x \<and> ownedMeta (meta x) new) \<and> conforms y \<and> meta y = addOwner new (meta x) \<and>
       upd y new = None \<and> (upd x old = None \<longrightarrow> upd y old = None)"
proof (cases "upd x new")
  case None
  then have "conforms x \<and> ownedMeta (meta x) new" by (simp only: settled)
  with None show ?thesis by simp
next
  case (Some y)
  then have "upd x new \<noteq> None" by simp
  then have "\<not> (conforms x \<and> ownedMeta (meta x) new)" by (simp only: settled not_False_eq_True)
  with Some repaired [OF Some] idempotent [OF Some] shared [of x old new y] show ?thesis by simp
qed

lemma two_owners:
  assumes "upd x a = Some y" and "upd y b = Some z"
  shows "upd z a = None \<and> upd z b = None"
  using assms by (metis idempotent shared)

end

section \<open>The three objects\<close>

definition serviceConforms :: "Service \<Rightarrow> bool" where
  "serviceConforms x \<longleftrightarrow> svs_Type (svc_Spec x) = ''ClusterIP'' \<and> svs_Ports (svc_Spec x) = [metricsPort]"

definition deploymentConforms :: "FlashSystemCluster \<Rightarrow> string \<Rightarrow> Deployment \<Rightarrow> bool" where
  "deploymentConforms inst img x \<longleftrightarrow>
     (case InitExporterDeployment inst ''IfNotPresent'' img of
        Inl e \<Rightarrow> False | Inr expected \<Rightarrow> deploymentSpecEq (dep_Spec x) (dep_Spec expected))"

definition monitorConforms :: "FlashSystemCluster \<Rightarrow> ServiceMonitor \<Rightarrow> bool" where
  "monitorConforms inst x \<longleftrightarrow> monitorSpecEq (sm_Spec x) (sm_Spec (InitExporterMetricsServiceMonitor inst))"

definition serviceUpd :: "FlashSystemCluster \<Rightarrow> Service \<Rightarrow> OwnerReference \<Rightarrow> Service option" where
  "serviceUpd inst x new = updateExporterMetricsService x (InitExporterMetricsService inst) new"

definition deploymentUpd :: "FlashSystemCluster \<Rightarrow> string \<Rightarrow> Deployment \<Rightarrow> OwnerReference \<Rightarrow> Deployment option" where
  "deploymentUpd inst img x new =
     (case InitExporterDeployment inst ''IfNotPresent'' img of
        Inl e \<Rightarrow> None | Inr expected \<Rightarrow> updateExporterDeployment x expected new)"

definition monitorUpd :: "FlashSystemCluster \<Rightarrow> ServiceMonitor \<Rightarrow> OwnerReference \<Rightarrow> ServiceMonitor option" where
  "monitorUpd inst x new = updateExporterMetricsServiceMonitor x (InitExporterMetricsServiceMonitor inst) new"

lemma ports_single: "(length ps \<noteq> 1 \<or> ps ! 0 \<noteq> p) \<longleftrightarrow> ps \<noteq> [p]"
  by (cases ps) auto

lemma containerEq_refl [simp]: "containerEq a a" by (simp add: containerEq_def)

lemma deploymentSpecEq_refl [simp]: "deploymentSpecEq a a"
  by (simp add: deploymentSpecEq_def list_all2_refl)

lemma monitorSpecEq_refl [simp]: "monitorSpecEq a a" by (simp add: monitorSpecEq_def)

interpretation service: repairer "serviceUpd inst" serviceConforms svc_Meta for inst
proof
  have expected: "svs_Ports (svc_Spec (InitExporterMetricsService inst)) = [metricsPort]"
    "svs_Type (svc_Spec (InitExporterMetricsService inst)) = ''ClusterIP''"
    by (simp_all add: InitExporterMetricsService_def)
  show "serviceUpd inst x new = None \<longleftrightarrow> serviceConforms x \<and> ownedMeta (svc_Meta x) new" for x new
    unfolding serviceUpd_def updateExporterMetricsService_def expected nth_Cons_0 ports_single
    by (auto simp: Let_def serviceConforms_def ownedMeta_def)
  show "serviceConforms y \<and> svc_Meta y = addOwner new (svc_Meta x)" if "serviceUpd inst x new = Some y" for x y new
    using that unfolding serviceUpd_def updateExporterMetricsService_def
    by (auto simp: Let_def serviceConforms_def addOwner_def ownedMeta_def split: if_splits)
qed

lemma updateExporterDeployment_None:
  "updateExporterDeployment x e new = None \<longleftrightarrow> deploymentSpecEq (dep_Spec x) (dep_Spec e) \<and> ownedMeta (dep_Meta x) new"
  by (simp add: updateExporterDeployment_def Let_def ownedMeta_def)

lemma updateExporterDeployment_Some:
  "updateExporterDeployment x e new = Some y \<Longrightarrow> dep_Spec y = dep_Spec e \<and> dep_Meta y = addOwner new (dep_Meta x)"
  by (auto simp: updateExporterDeployment_def Let_def ownedMeta_def addOwner_def split: if_splits)

lemma updateExporterMetricsServiceMonitor_None:
  "updateExporterMetricsServiceMonitor x e new = None \<longleftrightarrow> monitorSpecEq (sm_Spec x) (sm_Spec e) \<and> ownedMeta (sm_Meta x) new"
  by (simp add: updateExporterMetricsServiceMonitor_def Let_def ownedMeta_def)

lemma updateExporterMetricsServiceMonitor_Some:
  "updateExporterMetricsServiceMonitor x e new = Some y \<Longrightarrow> sm_Spec y = sm_Spec e \<and> sm_Meta y = addOwner new (sm_Meta x)"
  by (auto simp: updateExporterMetricsServiceMonitor_def Let_def ownedMeta_def addOwner_def split: if_splits)

lemma InitExporterDeployment_Inr:
  obtains e where "InitExporterDeployment inst pullPolicy img = Inr e"
  by (simp add: InitExporterDeployment_def)

interpretation deployment: repairer "deploymentUpd inst img" "deploymentConforms inst img" dep_Meta for inst img
proof
  obtain e where e: "InitExporterDeployment inst ''IfNotPresent'' img = Inr e" by (rule InitExporterDeployment_Inr)
  show "deploymentUpd inst img x new = None \<longleftrightarrow> deploymentConforms inst img x \<and> ownedMeta (dep_Meta x) new" for x new
    unfolding deploymentUpd_def deploymentConforms_def e sum.case by (rule updateExporterDeployment_None)
  show "deploymentConforms inst img y \<and> dep_Meta y = addOwner new (dep_Meta x)" if "deploymentUpd inst img x new = Some y" for x y new
    using updateExporterDeployment_Some [of x e new y] that
    unfolding deploymentUpd_def deploymentConforms_def e sum.case by simp
qed

interpretation monitor: repairer "monitorUpd inst" "monitorConforms inst" sm_Meta for inst
proof
  show "monitorUpd inst x new = None \<longleftrightarrow> monitorConforms inst x \<and> ownedMeta (sm_Meta x) new" for x new
    unfolding monitorUpd_def monitorConforms_def by (rule updateExporterMetricsServiceMonitor_None)
  show "monitorConforms inst y \<and> sm_Meta y = addOwner new (sm_Meta x)" if "monitorUpd inst x new = Some y" for x y new
    using updateExporterMetricsServiceMonitor_Some [OF that [unfolded monitorUpd_def]]
    unfolding monitorConforms_def by simp
qed


definition demoOwner :: "string \<Rightarrow> OwnerReference" where
  "demoOwner u = \<lparr>or_APIVersion = ''odf.ibm.com/v1alpha1'', or_Kind = ''FlashSystemCluster'', or_Name = u, or_UID = u\<rparr>"

text \<open>The three objects as another cluster of the namespace left them.\<close>

definition sharedService :: Service where
  "sharedService = (let x = InitExporterMetricsService demoFsc in x\<lparr>svc_Meta := SetOwnerReferences [demoOwner ''u2''] (svc_Meta x)\<rparr>)"

definition sharedMonitor :: ServiceMonitor where
  "sharedMonitor = (let x = InitExporterMetricsServiceMonitor demoFsc in x\<lparr>sm_Meta := SetOwnerReferences [demoOwner ''u2''] (sm_Meta x)\<rparr>)"

definition sharedDeployment :: Deployment where
  "sharedDeployment =
     \<lparr>dep_Meta = SetOwnerReferences [demoOwner ''u2''] (exporterMeta getExporterDeploymentName demoFsc),
      dep_Spec = (case InitExporterDeployment demoFsc ''IfNotPresent'' ''img'' of Inr x \<Rightarrow> dep_Spec x)\<rparr>"


section \<open>The Prometheus rules\<close>

text \<open>A rule whose expression is a number stays; another gets the name of the cluster and a label.\<close>

definition renamedRule :: "string \<Rightarrow> string \<Rightarrow> Rule \<Rightarrow> Rule" where
  "renamedRule template name rule =
     (if ios_Type (rule_Expr rule) = StringT
      then rule\<lparr>rule_Expr := (rule_Expr rule)\<lparr>ios_StrVal := ReplaceAll (ios_StrVal (rule_Expr rule)) template name\<rparr>,
        rule_Labels := mput (rule_Labels rule) ''managedBy'' name\<rparr>
      else rule)"

definition unlabelled :: "Rule \<Rightarrow> bool" where
  "unlabelled rule \<longleftrightarrow> ios_Type (rule_Expr rule) = StringT \<and> rule_Labels rule = NilMap"

lemma updateRule_eq:
  "updateRule t n r = (if unlabelled r then Panic ''assignment to entry in nil map'' else Ok (renamedRule t n r))"
  by (auto simp: updateRule_def unlabelled_def renamedRule_def mset_eq_Some split: option.splits)

lemma updateRules_eq:
  "updateRules t n rs = (if list_ex unlabelled rs then Panic ''assignment to entry in nil map'' else Ok (map (renamedRule t n) rs))"
  by (induction rs) (auto simp: updateRule_eq)

lemma updateGroups_eq:
  "updateGroups t n gs = (if list_ex (\<lambda>g. list_ex unlabelled (rg_Rules g)) gs then Panic ''assignment to entry in nil map''
     else Ok (map (\<lambda>g. g\<lparr>rg_Rules := map (renamedRule t n) (rg_Rules g)\<rparr>) gs))"
  by (induction gs) (auto simp: updateRules_eq)

lemma fold_mput:
  "mget (fold (\<lambda>k m. mput m k (f k)) ks m) k = (if k \<in> set ks then Some (f k) else mget m k)"
  by (induction ks arbitrary: m) auto

lemma mget_mergeLabels:
  "mget (mergeLabels a b) k = (case mget b k of Some v \<Rightarrow> Some v | None \<Rightarrow> mget a k)"
proof (cases a)
  case (MkMap xs)
  then show ?thesis
    by (cases "mget b k") (auto simp: mergeLabels_def fold_mput set_mkeys mgets_def)
qed (auto simp: mergeLabels_def split: option.split)

text \<open>
  C27: The rules of a cluster are the template with the cluster put in: the rule object is named after the
  cluster, lives in its namespace, is owned by it alone and carries the operator's labels over those of
  the template; in every rule whose expression is text, the name of the template is replaced by
  that of the cluster and the label \<^verbatim>\<open>managedBy\<close> is set; everything else is as in the template. The function
  panics exactly if such a rule has no labels.
\<close>

theorem instantiateRule_correct:
  "case instantiateRule tmpl inst new of
     Ok r \<Rightarrow> \<not> list_ex (\<lambda>g. list_ex unlabelled (rg_Rules g)) (pru_Groups tmpl) \<and>
       pru_Groups r = map (\<lambda>g. g\<lparr>rg_Rules := map (renamedRule (om_Name (pru_Meta tmpl)) (om_Name (fsc_Meta inst))) (rg_Rules g)\<rparr>)
         (pru_Groups tmpl) \<and>
       om_Name (pru_Meta r) = om_Name (fsc_Meta inst) \<and> om_Namespace (pru_Meta r) = om_Namespace (fsc_Meta inst) \<and>
       om_OwnerReferences (pru_Meta r) = Some [new] \<and>
       (\<forall>k. mget (om_Labels (pru_Meta r)) k =
          (case mget GetLabels k of Some x \<Rightarrow> Some x | None \<Rightarrow> mget (om_Labels (pru_Meta tmpl)) k))
   | Err e \<Rightarrow> False
   | Panic p \<Rightarrow> list_ex (\<lambda>g. list_ex unlabelled (rg_Rules g)) (pru_Groups tmpl)"
  by (simp add: instantiateRule_def Let_def updateGroups_eq SetOwnerReferences_def mget_mergeLabels)

end
