(* ===== verification/FscEstablish.thy ===== *)
theory FscEstablish
  imports FscSpec ExporterSpec
begin

text \<open>
  What a pass over a live FlashSystemCluster that ends without an error has established in the cluster,
  whatever it found there: every object of the instance exists and belongs to it.
\<close>

section \<open>Operations confined to some kinds of objects\<close>

text \<open>
  Every write is to an object of one of the kinds, objects of other kinds stay as they are, and so does the
  operator's own state, except that the CSI flag may be set.
\<close>

named_theorems confined_intro

definition writesTo :: "kind set \<Rightarrow> req \<Rightarrow> bool" where
  "writesTo K q \<longleftrightarrow> (isWrite q \<longrightarrow> reqKind q \<in> K)"

definition confined :: "'w view \<Rightarrow> kind set \<Rightarrow> ('w, 'a) oper \<Rightarrow> bool" where
  "confined v K m \<longleftrightarrow> issues (writesTo K) m \<and> (\<forall>s. let t = snd (run_state m s) in
     (\<forall>k n m'. k \<notin> K \<longrightarrow> v (world t) (k, n, m') = v (world s) (k, n, m')) \<and>
     watchNamespace t = watchNamespace s \<and> (IsCSICRCreated s \<longrightarrow> IsCSICRCreated t))"

lemma confinedD:
  assumes "confined v K m" and "run_state m s = (a, t)"
  shows "k \<notin> K \<Longrightarrow> v (world t) (k, n, m') = v (world s) (k, n, m')" "watchNamespace t = watchNamespace s"
    "IsCSICRCreated s \<Longrightarrow> IsCSICRCreated t" "\<exists>xs. calls t = calls s @ xs \<and> list_all (writesTo K \<circ> fst) xs"
  using assms unfolding confined_def Let_def issues_def by (metis snd_conv)+

lemma confined_ret [confined_intro]: "confined v K (ret x)"
  by (simp add: confined_def issues_ret)

lemma confined_bind [confined_intro]:
  assumes "confined v K m" and "\<And>a. confined v K (f a)"
  shows "confined v K (State_Monad.bind m f)"
  unfolding confined_def Let_def
proof
  show "issues (writesTo K) (State_Monad.bind m f)"
    using assms by (intro issues_bind) (simp_all add: confined_def)
  show "\<forall>s. (\<forall>k n m'. k \<notin> K \<longrightarrow> v (world (snd (run_state (State_Monad.bind m f) s))) (k, n, m') = v (world s) (k, n, m')) \<and>
     watchNamespace (snd (run_state (State_Monad.bind m f) s)) = watchNamespace s \<and>
     (IsCSICRCreated s \<longrightarrow> IsCSICRCreated (snd (run_state (State_Monad.bind m f) s)))"
  proof
    fix s
    obtain a t where m: "run_state m s = (a, t)" by fastforce
    obtain b u where f: "run_state (f a) t = (b, u)" by fastforce
    show "(\<forall>k n m'. k \<notin> K \<longrightarrow> v (world (snd (run_state (State_Monad.bind m f) s))) (k, n, m') = v (world s) (k, n, m')) \<and>
       watchNamespace (snd (run_state (State_Monad.bind m f) s)) = watchNamespace s \<and>
       (IsCSICRCreated s \<longrightarrow> IsCSICRCreated (snd (run_state (State_Monad.bind m f) s)))"
      using confinedD(1-3) [OF assms(1) m] confinedD(1-3) [OF assms(2) f] m f by simp
  qed
qed

lemma onlyAt_kind: "onlyAt (keyOf x) a b \<Longrightarrow> k \<noteq> kindOf x \<Longrightarrow> b (k, n, m) = a (k, n, m)"
  unfolding onlyAt_def keyOf_def by (metis prod.inject)

lemma confined_call:
  assumes "api_laws E v" and "isWrite q \<Longrightarrow> reqKind q \<in> K"
  shows "confined v K (call E q)"
proof -
  have keep: "v w' (k, n, m) = v w (k, n, m)" if "answers q r (v w) (v w')" "k \<notin> K" for w w' r k n m
    using that assms(2) by (cases q) (auto intro!: onlyAt_kind)
  show ?thesis
    unfolding confined_def
  proof
    show "issues (writesTo K) (call E q)" using assms(2) by (intro issues_call) (simp add: writesTo_def)
    show "\<forall>s. let t = snd (run_state (call E q) s) in
       (\<forall>k n m'. k \<notin> K \<longrightarrow> v (world t) (k, n, m') = v (world s) (k, n, m')) \<and>
       watchNamespace t = watchNamespace s \<and> (IsCSICRCreated s \<longrightarrow> IsCSICRCreated t)"
    proof
      fix s :: "'a st"
      obtain r w where a: "api E q (world s) = (r, w)" by fastforce
      show "let t = snd (run_state (call E q) s) in
         (\<forall>k n m'. k \<notin> K \<longrightarrow> v (world t) (k, n, m') = v (world s) (k, n, m')) \<and>
         watchNamespace t = watchNamespace s \<and> (IsCSICRCreated s \<longrightarrow> IsCSICRCreated t)"
        using keep [OF api_lawsD(2) [OF assms(1) a]] a by (simp add: call_def)
    qed
  qed
qed

lemma confined_client:
  "api_laws E v \<Longrightarrow> confined v K (getAs E proj k ns n)" "api_laws E v \<Longrightarrow> confined v K (listAs E proj k nso ls)"
  "api_laws E v \<Longrightarrow> kindOf x \<in> K \<Longrightarrow> confined v K (createAs E proj x)"
  "api_laws E v \<Longrightarrow> kindOf x \<in> K \<Longrightarrow> confined v K (updateAs E proj x)"
  "api_laws E v \<Longrightarrow> kindOf x \<in> K \<Longrightarrow> confined v K (statusUpdateAs E proj x)"
  "api_laws E v \<Longrightarrow> kindOf x \<in> K \<Longrightarrow> confined v K (deleteObj E x)"
  unfolding client_ops by (intro confined_intro confined_call; simp)+

lemma confined_now: "api_laws E v \<Longrightarrow> confined v K (now E)"
  unfolding confined_def by (intro conjI issues_now) (auto simp: now_def Let_def dest: api_lawsD(3) split: prod.splits)

lemma confined_ask [confined_intro]: "confined v K (askWorld f)" "confined v K askNamespace" "confined v K State_Monad.get"
  unfolding confined_def by (intro conjI issues_askWorld issues_askNamespace issues_get; simp add: askWorld_def askNamespace_def)+

lemma confined_flag [confined_intro]: "confined v K (State_Monad.update (\<lambda>s. s\<lparr>IsCSICRCreated := True\<rparr>))"
  unfolding confined_def by (intro conjI issues_update) (simp_all add: State_Monad.update_def)

lemma confined_cases [confined_intro]:
  "confined v K m \<Longrightarrow> confined v K n \<Longrightarrow> confined v K (if b then m else n)"
  "(\<And>e. confined v K (f e)) \<Longrightarrow> (\<And>x. confined v K (g x)) \<Longrightarrow> confined v K (case r of Inl e \<Rightarrow> f e | Inr x \<Rightarrow> g x)"
  "confined v K f0 \<Longrightarrow> (\<And>x. confined v K (g0 x)) \<Longrightarrow> confined v K (case r0 of None \<Rightarrow> f0 | Some x \<Rightarrow> g0 x)"
  "(\<And>x. confined v K (f' x)) \<Longrightarrow> (\<And>e. confined v K (g' e)) \<Longrightarrow> (\<And>p. confined v K (h p)) \<Longrightarrow>
   confined v K (case r' of Ok x \<Rightarrow> f' x | Err e \<Rightarrow> g' e | Panic p \<Rightarrow> h p)"
  "(\<And>x y. confined v K (j x y)) \<Longrightarrow> confined v K (case pr of (x, y) \<Rightarrow> j x y)"
  by (simp_all split: sum.splits res.splits prod.splits option.splits)

lemma confined_forErr [confined_intro]: "(\<And>x. confined v K (f x)) \<Longrightarrow> confined v K (forErr f xs)"
  by (induction xs) (auto intro!: confined_intro)

section \<open>The steps are confined\<close>

lemma confined_createEvent: "api_laws E v \<Longrightarrow> KEvent \<in> K \<Longrightarrow> confined v K (createEvent E inst ty r m)"
  unfolding createEvent_def InitK8sEvent_def Let_def by (intro confined_intro confined_client confined_now) simp_all

lemma confined_ensureSecretOwnership: "api_laws E v \<Longrightarrow> confined v {KSecret} (ensureSecretOwnership E inst ow)"
  unfolding ensureSecretOwnership_def Let_def by (intro confined_intro confined_client) simp_all

lemma confined_HasCSI: "api_laws E v \<Longrightarrow> confined v K (HasIBMBlockCSICRExisted E nss)"
  by (induction nss) (auto intro!: confined_intro confined_client)

lemma confined_FindModuleRoot: "confined v K (FindModuleRoot E)"
  unfolding FindModuleRoot_def by (intro confined_intro)

lemma confined_CreateCSI: "api_laws E v \<Longrightarrow> KCsiCR \<in> K \<Longrightarrow> confined v K (CreateIBMBlockCSICR E ns)"
  unfolding CreateIBMBlockCSICR_def LoadFlashSystemCRFromFile_def Let_def
  by (intro confined_intro confined_client confined_FindModuleRoot) simp_all

lemma confined_ensureFlashSystemCSICR: "api_laws E v \<Longrightarrow> confined v {KCsiCR, KEvent} (ensureFlashSystemCSICR E inst)"
  unfolding ensureFlashSystemCSICR_def GetAllNamespace_def
  by (intro confined_intro confined_client confined_HasCSI confined_createEvent confined_CreateCSI) simp_all

lemma confined_ensureScPoolConfigMap: "api_laws E v \<Longrightarrow> confined v {KConfigMap} (ensureScPoolConfigMap E inst)"
  unfolding ensureScPoolConfigMap_def addFscEntry_def GetCreateConfigmap_def Let_def
  by (intro confined_intro confined_client) simp_all

lemmas deleteDuplicated_defs = deleteDuplicatedService_def deleteDuplicatedDeployment_def deleteDuplicatedServiceMonitor_def
  getObjectListByLabel_def deleteOld_def

lemma confined_deleteDuplicated:
  assumes "api_laws E v"
  shows "confined v {KService} (deleteDuplicatedService E inst)" "confined v {KDeployment} (deleteDuplicatedDeployment E inst)"
    "confined v {KServiceMonitor} (deleteDuplicatedServiceMonitor E inst)"
  unfolding deleteDuplicated_defs using assms by (intro confined_intro confined_client; simp)+

lemma confined_exporter:
  assumes "api_laws E v"
  shows "confined v {KService} (ensureExporterService E inst ow)" "confined v {KDeployment} (ensureExporterDeployment E inst ow)"
    "confined v {KServiceMonitor} (ensureExporterServiceMonitor E inst ow)"
  unfolding ensureExporterService_def ensureExporterDeployment_def ensureExporterServiceMonitor_def Let_def
  using assms by (intro confined_intro confined_client confined_deleteDuplicated; simp)+

lemma confined_ensureDefaultStorageClass: "api_laws E v \<Longrightarrow> confined v {KStorageClass, KEvent} (ensureDefaultStorageClass E inst)"
  unfolding ensureDefaultStorageClass_def by (intro confined_intro confined_client confined_createEvent) simp_all

lemma confined_enablePrometheusRules: "api_laws E v \<Longrightarrow> confined v {KPromRule} (enablePrometheusRules E inst ow)"
  unfolding enablePrometheusRules_def CreateOrUpdatePrometheusRules_def getPrometheusRules_def Let_def
  by (intro confined_intro confined_client) simp_all


section \<open>What each step establishes\<close>

text \<open>An update of an object as it was found keeps it in the cluster.\<close>

lemma wp_updateFound:
  assumes laws: "api_laws E v" and x: "v (world s) key = Some x"
    and same: "keyOf x' = key" "om_Finalizers (metaOf x') = om_Finalizers (metaOf x)"
    and Fail: "\<And>e t. Q (Inl e) t"
    and Done: "\<And>y' y t. v (world t) key = Some y' \<Longrightarrow> agrees x' y' \<Longrightarrow> proj y' = Some y \<Longrightarrow>
       watchNamespace t = watchNamespace s \<Longrightarrow> Q (Inr y) t"
  shows "wpre (updateAs E proj x') Q s"
proof (rule wp_updateAs_laws [OF laws], rule Fail)
  fix z y' y w
  assume z: "v (world s) (keyOf x') = Some z" and y': "deletionOf y' = deletionOf z" "agrees x' y'" "proj y' = Some y"
    and w: "v w = (v (world s))(keyOf x' := if released y' then None else Some y')"
  have "\<not> released y'"
    using api_lawsD(5) [OF laws x] z x y'(1,2) same by (auto simp: released_def agrees_def)
  with w same y' show "Q (Inr y) (afterCall (RUpdate x') (ROk y') w s)"
    by (intro Done) auto
qed

definition ownedIn :: "'w view \<Rightarrow> objkey \<Rightarrow> OwnerReference \<Rightarrow> 'w \<Rightarrow> bool" where
  "ownedIn v key new w \<longleftrightarrow> (\<exists>x. v w key = Some x \<and> ownedMeta (metaOf x) new)"

lemma ownedMeta_agrees: "agrees a b \<Longrightarrow> ownedMeta (metaOf b) new \<longleftrightarrow> ownedMeta (metaOf a) new"
  by (simp add: agrees_def ownedMeta_def)

lemma addOwner_meta [simp]:
  "om_Name (addOwner new m) = om_Name m" "om_Namespace (addOwner new m) = om_Namespace m"
  "om_Finalizers (addOwner new m) = om_Finalizers m"
  by (simp_all add: addOwner_def SetOwnerReferences_def)

subsection \<open>The exporter objects\<close>

text \<open>An object that is created when it is missing and repaired when it is found.\<close>

definition place :: "'w env \<Rightarrow> ('a \<Rightarrow> OwnerReference \<Rightarrow> 'a option) \<Rightarrow> (kobj \<Rightarrow> 'a option) \<Rightarrow> ('a \<Rightarrow> kobj) \<Rightarrow> 'a \<Rightarrow>
    OwnerReference \<Rightarrow> ('w, goerr + unit) oper" where
  "place E upd proj con expected new = do {
     r \<leftarrow> getAs E proj (kindOf (con expected)) (om_Namespace (metaOf (con expected))) (om_Name (metaOf (con expected)));
     (case r of
        Inl e \<Rightarrow>
          if IsNotFound e then do {
            c \<leftarrow> createAs E proj (con expected);
            (case c of Inl e' \<Rightarrow> ret (Inl e') | Inr _ \<Rightarrow> ret (Inr ()))
          } else ret (Inl e)
      | Inr found \<Rightarrow>
          (case upd found new of
             Some u \<Rightarrow> do {
               c \<leftarrow> updateAs E proj (con u);
               (case c of Inl e' \<Rightarrow> ret (Inl e') | Inr _ \<Rightarrow> ret (Inr ()))
             }
           | None \<Rightarrow> ret (Inr ())))
   }"

text \<open>It ends up in the cluster, owned, for any repair that meets the contract of the exporter objects.\<close>

locale placed = repairer upd conforms meta
  for upd :: "'a \<Rightarrow> OwnerReference \<Rightarrow> 'a option" and conforms meta +
  fixes proj :: "kobj \<Rightarrow> 'a option" and con :: "'a \<Rightarrow> kobj" and k :: kind and expected :: 'a
  assumes proj: "proj o' = Some x \<longleftrightarrow> o' = con x" and metaOf_con: "metaOf (con x) = meta x" and kindOf_con: "kindOf (con x) = k"
begin

lemma wp_place:
  assumes laws: "api_laws E v" and new: "ownedMeta (meta expected) new"
  shows "wpre (place E upd proj con expected new) (\<lambda>r t. r = Inr () \<longrightarrow>
     ownedIn v (k, om_Namespace (meta expected), om_Name (meta expected)) new (world t)) s"
proof -
  let ?key = "(k, om_Namespace (meta expected), om_Name (meta expected))"
  let ?post = "\<lambda>r t. r = Inr () \<longrightarrow> ownedIn v ?key new (world t)"
  have key: "keyOf (con expected) = ?key" by (simp add: keyOf_def metaOf_con kindOf_con)
  have create: "wpre (do {
        c \<leftarrow> createAs E proj (con expected);
        (case c of Inl e' \<Rightarrow> ret (Inl e') | Inr _ \<Rightarrow> ret (Inr ())) }) ?post u" for u
    unfolding wp_bind
    by (rule wp_createAs_laws [OF laws])
      (use new in \<open>auto simp: wp ownedIn_def key ownedMeta_agrees metaOf_con\<close>)
  show ?thesis
    unfolding place_def metaOf_con kindOf_con wp_bind [of "getAs _ _ _ _ _"]
  proof (rule wp_getAs_laws [OF laws], goal_cases)
    case (1 e r w)
    show ?case
      unfolding sum.case by (cases "IsNotFound e") (simp_all only: if_True if_False create, simp add: wp)
  next
    case (2 x y w)
    from 2 have x: "x = con y" "v w ?key = Some (con y)" by (simp_all add: proj)
    show ?case
    proof (cases "upd y new")
      case None
      then show ?thesis using settled [of y new] x by (simp add: wp ownedIn_def metaOf_con)
    next
      case (Some u)
      have u: "meta u = addOwner new (meta y)" using repaired [OF Some] by simp
      have "keyOf (con y) = ?key" using 2 x by simp
      then have uk: "keyOf (con u) = ?key" by (simp add: keyOf_def metaOf_con kindOf_con u)
      show ?thesis
        unfolding sum.case Some option.case wp_bind
        by (rule wp_updateFound [OF laws, of _ ?key "con y"])
          (use x uk u in \<open>auto simp: wp ownedIn_def metaOf_con ownedMeta_agrees\<close>)
    qed
  qed
qed

end

interpretation placedService: placed "serviceUpd inst" serviceConforms svc_Meta asService OService KService "InitExporterMetricsService inst" for inst
  by unfold_locales simp_all

interpretation placedMonitor: placed "monitorUpd inst" "monitorConforms inst" sm_Meta asServiceMonitor OServiceMonitor KServiceMonitor
  "InitExporterMetricsServiceMonitor inst" for inst
  by unfold_locales simp_all


lemma expected_meta:
  "svc_Meta (InitExporterMetricsService inst) = exporterMeta getExporterMetricsServiceName inst"
  "sm_Meta (InitExporterMetricsServiceMonitor inst) = exporterMeta getExporterMetricsServiceMonitorName inst"
  "om_Name (exporterMeta n inst) = n" "om_Namespace (exporterMeta n inst) = om_Namespace (fsc_Meta inst)"
  by (simp_all add: InitExporterMetricsService_def InitExporterMetricsServiceMonitor_def exporterMeta_def
    getExporterMetricsServiceMonitorName_def)

lemma place_service: "ensureExporterService E inst new = do {
     d \<leftarrow> deleteDuplicatedService E inst;
     (case d of Inl e \<Rightarrow> ret (Inl e)
      | Inr _ \<Rightarrow> place E (serviceUpd inst) asService OService (InitExporterMetricsService inst) new)
   }"
  unfolding ensureExporterService_def place_def serviceUpd_def Let_def kindOf.simps metaOf.simps expected_meta ..

lemma place_monitor: "ensureExporterServiceMonitor E inst new = do {
     d \<leftarrow> deleteDuplicatedServiceMonitor E inst;
     (case d of Inl e \<Rightarrow> ret (Inl e)
      | Inr _ \<Rightarrow> place E (monitorUpd inst) asServiceMonitor OServiceMonitor (InitExporterMetricsServiceMonitor inst) new)
   }"
  unfolding ensureExporterServiceMonitor_def place_def monitorUpd_def Let_def kindOf.simps metaOf.simps expected_meta ..

definition expectedDeployment :: "FlashSystemCluster \<Rightarrow> string \<Rightarrow> Deployment" where
  "expectedDeployment inst img = (case InitExporterDeployment inst ''IfNotPresent'' img of Inr x \<Rightarrow> x)"

lemma InitExporterDeployment_expected: "InitExporterDeployment inst ''IfNotPresent'' img = Inr (expectedDeployment inst img)"
  by (simp add: expectedDeployment_def InitExporterDeployment_def)

lemma expectedDeployment_meta: "dep_Meta (expectedDeployment inst img) = exporterMeta getExporterDeploymentName inst"
  by (simp add: expectedDeployment_def InitExporterDeployment_def)

interpretation placedDeployment: placed "deploymentUpd inst img" "deploymentConforms inst img" dep_Meta asDeployment ODeployment KDeployment
  "expectedDeployment inst img" for inst img
  by unfold_locales simp_all

definition exporterImage :: "'w env \<Rightarrow> string" where
  "exporterImage E = (case GetExporterImage E of Inl _ \<Rightarrow> [] | Inr img \<Rightarrow> img)"

lemma place_deployment: "ensureExporterDeployment E inst new = do {
     d \<leftarrow> deleteDuplicatedDeployment E inst;
     (case d of Inl e \<Rightarrow> ret (Inl e)
      | Inr _ \<Rightarrow> do {
          sec \<leftarrow> getAs E asSecret KSecret (sr_Namespace (fs_Secret (fsc_Spec inst))) (sr_Name (fs_Secret (fsc_Spec inst)));
          (case sec of Inl e \<Rightarrow> ret (Inl e)
           | Inr _ \<Rightarrow> place E (deploymentUpd inst (exporterImage E)) asDeployment ODeployment
               (expectedDeployment inst (exporterImage E)) new)
        })
   }"
  unfolding ensureExporterDeployment_def place_def deploymentUpd_def Let_def exporterImage_def kindOf.simps metaOf.simps
    InitExporterDeployment_expected expectedDeployment_meta expected_meta sum.case ..

lemma ownedMeta_expected: "ownedMeta (exporterMeta n inst) (ownerOf inst)"
  by (simp add: ownedMeta_def exporterMeta_def GetOwnerReferences_def)

definition exporterOwned :: "'w view \<Rightarrow> FlashSystemCluster \<Rightarrow> kind \<Rightarrow> string \<Rightarrow> 'w \<Rightarrow> bool" where
  "exporterOwned v inst k name = ownedIn v (k, om_Namespace (fsc_Meta inst), name) (ownerOf inst)"

lemma wp_after:
  assumes "\<And>x t. wpre (k x) Q t" and "\<And>e t. Q (Inl e) t"
  shows "wpre (do { d \<leftarrow> m; (case d of Inl e \<Rightarrow> ret (Inl e) | Inr x \<Rightarrow> k x) }) Q s"
  unfolding wp_bind by (rule wp_sum_any) (simp_all add: wp assms)

lemma wp_exporter:
  assumes laws: "api_laws E v"
  shows "wpre (ensureExporterService E inst (ownerOf inst))
      (\<lambda>r t. r = Inr () \<longrightarrow> exporterOwned v inst KService getExporterMetricsServiceName (world t)) s"
    "wpre (ensureExporterDeployment E inst (ownerOf inst))
      (\<lambda>r t. r = Inr () \<longrightarrow> exporterOwned v inst KDeployment getExporterDeploymentName (world t)) s"
    "wpre (ensureExporterServiceMonitor E inst (ownerOf inst))
      (\<lambda>r t. r = Inr () \<longrightarrow> exporterOwned v inst KServiceMonitor getExporterMetricsServiceMonitorName (world t)) s"
  unfolding place_service place_monitor place_deployment exporterOwned_def
  using placedService.wp_place [OF laws, of inst "ownerOf inst"]
    placedMonitor.wp_place [OF laws, of inst "ownerOf inst"]
    placedDeployment.wp_place [OF laws, of inst "exporterImage E" "ownerOf inst"]
  unfolding expectedDeployment_meta expected_meta
  by (intro wp_after; simp add: ownedMeta_expected)+

subsection \<open>The other steps\<close>

definition secretOwned :: "'w view \<Rightarrow> FlashSystemCluster \<Rightarrow> 'w \<Rightarrow> bool" where
  "secretOwned v inst w \<longleftrightarrow> (\<exists>x. v w (KSecret, sr_Namespace (fs_Secret (fsc_Spec inst)), sr_Name (fs_Secret (fsc_Spec inst))) =
     Some (OSecret x) \<and> om_OwnerReferences (sec_Meta x) \<noteq> None)"

lemma wp_ensureSecretOwnership:
  assumes laws: "api_laws E v"
  shows "wpre (ensureSecretOwnership E inst new) (\<lambda>r t. r = Inr () \<longrightarrow> secretOwned v inst (world t)) s"
  unfolding ensureSecretOwnership_def Let_def wp_bind [of "getAs _ _ _ _ _"]
proof (rule wp_getAs_laws [OF laws], goal_cases)
  case (2 x secret w)
  let ?key = "(KSecret, sr_Namespace (fs_Secret (fsc_Spec inst)), sr_Name (fs_Secret (fsc_Spec inst)))"
  from 2 have x: "v w ?key = Some (OSecret secret)" "keyOf (OSecret secret) = ?key" by auto
  show ?case
  proof (cases "om_OwnerReferences (sec_Meta secret) = None")
    case True
    show ?thesis
      unfolding sum.case if_P [OF True] wp_bind
      by (rule wp_updateFound [OF laws, of _ ?key "OSecret secret"])
        (use x in \<open>auto simp: wp keyOf_def SetOwnerReferences_def secretOwned_def agrees_def GetOwnerReferences_def split: option.splits\<close>)
  next
    case False
    with x show ?thesis by (auto simp: wp secretOwned_def)
  qed
qed (simp add: wp)

lemma wp_ensureFlashSystemCSICR: "wpre (ensureFlashSystemCSICR E inst) (\<lambda>r t. r = Inr () \<longrightarrow> IsCSICRCreated t) s"
proof (cases "IsCSICRCreated s")
  case True
  then show ?thesis by (simp add: ensureFlashSystemCSICR_def wp)
next
  case False
  show ?thesis
    unfolding ensureFlashSystemCSICR_def wp_bind [of State_Monad.get] wp_get if_not_P [OF False]
    by (intro wp_after) (simp_all add: wp)
qed

definition classInPlace :: "'w view \<Rightarrow> FlashSystemCluster \<Rightarrow> 'w \<Rightarrow> bool" where
  "classInPlace v inst w =
     (case (fs_DefaultPool (fsc_Spec inst), InitDefaultStorageClass inst) of
        (Some pool, Some expected) \<Rightarrow>
          \<exists>x. v w (KStorageClass, [], scc_StorageClassName pool) = Some (OStorageClass x) \<and> compareDefaultStorageClass x expected
      | _ \<Rightarrow> True)"

lemma compareDefaultStorageClass_agrees:
  "agrees (OStorageClass a) (OStorageClass b) \<Longrightarrow> compareDefaultStorageClass b a"
  by (auto simp: agrees_def sameEntries_def compareDefaultStorageClass_def list_all_iff set_mkeys mgets_def split: option.splits)

lemma wp_ensureDefaultStorageClass:
  assumes laws: "api_laws E v"
  shows "wpre (ensureDefaultStorageClass E inst) (\<lambda>r t. r = Inr () \<longrightarrow> classInPlace v inst (world t)) s"
proof (cases "fs_DefaultPool (fsc_Spec inst)")
  case None
  then show ?thesis by (simp add: ensureDefaultStorageClass_def classInPlace_def wp)
next
  case (Some pool)
  then obtain e where e: "InitDefaultStorageClass inst = Some e" by (simp add: InitDefaultStorageClass_def Let_def)
  have key: "keyOf (OStorageClass e) = (KStorageClass, [], scc_StorageClassName pool)"
    using e Some by (auto simp: InitDefaultStorageClass_def Let_def keyOf_def)
  show ?thesis
    unfolding ensureDefaultStorageClass_def Some e option.case prod.case wp_bind [of "getAs _ _ _ _ _"]
  proof (rule wp_getAs_laws [OF laws], goal_cases)
    case (1 err r w)
    have "wpre (do { c \<leftarrow> createAs E asStorageClass (OStorageClass e); (case c of Inl e' \<Rightarrow> ret (Inl e') | Inr _ \<Rightarrow> ret (Inr ())) })
      (\<lambda>r t. r = Inr () \<longrightarrow> classInPlace v inst (world t)) u" for u
      unfolding wp_bind
      by (rule wp_createAs_laws [OF laws])
        (auto simp: wp classInPlace_def Some e key compareDefaultStorageClass_agrees)
    then show ?case
      unfolding sum.case by (cases "IsNotFound err") (simp_all only: if_True if_False, simp add: wp)
  next
    case (2 x found w)
    then have x: "v w (KStorageClass, [], scc_StorageClassName pool) = Some (OStorageClass found)" by simp
    show ?case
      unfolding sum.case
      by (cases "compareDefaultStorageClass found e")
        (simp add: wp classInPlace_def Some e x, simp only: if_False wp_bind, rule wp_any, simp add: wp)
  qed
qed

definition rulesInPlace :: "'w view \<Rightarrow> FlashSystemCluster \<Rightarrow> 'w \<Rightarrow> bool" where
  "rulesInPlace v inst w \<longleftrightarrow> v w (KPromRule, om_Namespace (fsc_Meta inst), om_Name (fsc_Meta inst)) \<noteq> None"

lemma wp_CreateOrUpdatePrometheusRules:
  assumes laws: "api_laws E v" and meta: "om_Name (pru_Meta rule) = n" "om_Namespace (pru_Meta rule) = ns"
  shows "wpre (CreateOrUpdatePrometheusRules E rule) (\<lambda>r t. r = Inr () \<longrightarrow> v (world t) (KPromRule, ns, n) \<noteq> None) s"
  unfolding CreateOrUpdatePrometheusRules_def wp_bind [of "createAs _ _ _"]
proof (rule wp_createAs_laws [OF laws], goal_cases)
  case (1 e r w)
  have "wpre (do {
      r' \<leftarrow> getAs E asPromRule KPromRule (om_Namespace (pru_Meta rule)) (om_Name (pru_Meta rule));
      (case r' of
         Inl e' \<Rightarrow> ret (Inl (FmtError (''failed while fetching PrometheusRule: '' @ errText e')))
       | Inr oldRule \<Rightarrow> do {
           u \<leftarrow> updateAs E asPromRule (OPromRule (oldRule\<lparr>pru_Groups := pru_Groups rule\<rparr>));
           (case u of
              Inl e' \<Rightarrow> ret (Inl (FmtError (''failed while updating PrometheusRule: '' @ errText e')))
            | Inr _ \<Rightarrow> ret (Inr ()))
         }) }) (\<lambda>r t. r = Inr () \<longrightarrow> v (world t) (KPromRule, ns, n) \<noteq> None) t" for t
    unfolding wp_bind [of "getAs _ _ _ _ _"] meta
  proof (rule wp_getAs_laws [OF laws], goal_cases)
    case (2 x old w)
    then have x: "v w (KPromRule, ns, n) = Some (OPromRule old)" "keyOf (OPromRule old) = (KPromRule, ns, n)"
      by (cases x; auto)+
    show ?case
      unfolding sum.case wp_bind
      by (rule wp_updateFound [OF laws, of _ "(KPromRule, ns, n)" "OPromRule old"])
        (use x in \<open>auto simp: wp keyOf_def\<close>)
  qed (simp add: wp)
  then show ?case
    unfolding sum.case by (cases "IsAlreadyExists e") (simp_all only: if_True if_False, simp add: wp)
qed (simp add: wp keyOf_def meta)

lemma wp_enablePrometheusRules:
  assumes laws: "api_laws E v"
  shows "wpre (enablePrometheusRules E inst new) (\<lambda>r t. r = Ok () \<longrightarrow> rulesInPlace v inst (world t)) s"
proof -
  have *: "wpre (case r of Err e \<Rightarrow> ret (Err e) | Panic p \<Rightarrow> ret (Panic p)
      | Ok rule \<Rightarrow> do { x \<leftarrow> CreateOrUpdatePrometheusRules E rule; ret (of_sum x) })
      (\<lambda>r t. r = Ok () \<longrightarrow> rulesInPlace v inst (world t)) t"
    if "run_state (getPrometheusRules E inst new) s = (r, t)" for r t
  proof (cases r)
    case (Ok rule)
    with that have "om_Name (pru_Meta rule) = om_Name (fsc_Meta inst)" "om_Namespace (pru_Meta rule) = om_Namespace (fsc_Meta inst)"
      by (auto dest: getPrometheusRules_meta)
    note created = wp_CreateOrUpdatePrometheusRules [OF laws this]
    show ?thesis
      unfolding Ok res.case wp_bind rulesInPlace_def
      by (rule wp_mono [OF created]) (auto simp: wp)
  qed (simp_all add: wp)
  show ?thesis
    unfolding enablePrometheusRules_def wp_bind [of "getPrometheusRules _ _ _"]
    by (rule wp_runI) (rule *)
qed


section \<open>The whole pass\<close>

text \<open>What is established about the objects of one kind, and the state of a pass that has done it for the kinds \<open>D\<close>.\<close>

definition good :: "'w view \<Rightarrow> FlashSystemCluster \<Rightarrow> kind \<Rightarrow> 'w st \<Rightarrow> bool" where
  "good v inst k t =
     (case k of
        KSecret \<Rightarrow> secretOwned v inst (world t)
      | KCsiCR \<Rightarrow> IsCSICRCreated t
      | KConfigMap \<Rightarrow> poolEntry v (watchNamespace t) (world t) (om_Name (fsc_Meta inst)) \<noteq> None
      | KService \<Rightarrow> exporterOwned v inst k getExporterMetricsServiceName (world t)
      | KDeployment \<Rightarrow> exporterOwned v inst k getExporterDeploymentName (world t)
      | KServiceMonitor \<Rightarrow> exporterOwned v inst k getExporterMetricsServiceMonitorName (world t)
      | KStorageClass \<Rightarrow> classInPlace v inst (world t)
      | KPromRule \<Rightarrow> rulesInPlace v inst (world t)
      | _ \<Rightarrow> True)"

lemma good_cong:
  assumes "\<And>n m. v (world t) (k, n, m) = v (world s) (k, n, m)" and "watchNamespace t = watchNamespace s"
    and "IsCSICRCreated s \<Longrightarrow> IsCSICRCreated t" and "good v inst k s"
  shows "good v inst k t"
  using assms
  by (cases k) (auto simp: good_def secretOwned_def exporterOwned_def ownedIn_def classInPlace_def rulesInPlace_def
    poolEntry_def poolCm_def poolKey_def split: option.splits)

definition done_for :: "'w view \<Rightarrow> FlashSystemCluster \<Rightarrow> kind set \<Rightarrow> 'w st \<Rightarrow> bool" where
  "done_for v inst D t \<longleftrightarrow> (\<forall>k \<in> D. good v inst k t) \<and> (KConfigMap \<notin> D \<longrightarrow> poolLive v (watchNamespace t) (world t))"

lemma poolLive_cong:
  "(\<And>n m. v (world t) (KConfigMap, n, m) = v (world s) (KConfigMap, n, m)) \<Longrightarrow> watchNamespace t = watchNamespace s \<Longrightarrow>
   poolLive v (watchNamespace s) (world s) \<Longrightarrow> poolLive v (watchNamespace t) (world t)"
  by (simp add: poolLive_def poolCm_def poolKey_def)

lemma done_step:
  assumes D: "done_for v inst D s" and m: "confined v K m" and run: "run_state m s = (r, t)"
    and new: "good v inst k t" and K: "K \<inter> D = {}" "KConfigMap \<in> K \<Longrightarrow> k = KConfigMap"
  shows "done_for v inst (insert k D) t"
proof -
  note c = confinedD [OF m run]
  have "good v inst j t" if "j \<in> D" for j
    by (rule good_cong [where s = s and v = v]) (use c that K(1) D in \<open>auto simp: done_for_def\<close>)
  moreover have "poolLive v (watchNamespace t) (world t)" if "KConfigMap \<notin> insert k D"
    by (rule poolLive_cong [where s = s and v = v]) (use c that K(2) D in \<open>auto simp: done_for_def\<close>)
  ultimately show ?thesis using new by (auto simp: done_for_def)
qed

text \<open>A step of \<^const>\<open>reconcileSteps\<close>; its error branch never reports success.\<close>

definition whenOk :: "('w st \<Rightarrow> bool) \<Rightarrow> FlashSystemCluster \<times> unit res \<Rightarrow> 'w st \<Rightarrow> bool" where
  "whenOk P y t \<longleftrightarrow> (snd y = Ok () \<longrightarrow> P t)"

lemma wp_attempt_step:
  assumes D: "done_for v inst D s" and m: "confined v K m" and new: "wpre m (\<lambda>r t. r = Ok () \<longrightarrow> good v inst k t) s"
    and K: "K \<inter> D = {}" "KConfigMap \<in> K \<Longrightarrow> k = KConfigMap"
    and next_step: "\<And>t. done_for v inst (insert k D) t \<Longrightarrow> wpre nxt (whenOk P) t"
    and h: "\<And>e t. wpre (h e) (whenOk P) t"
  shows "wpre (attempt m i h nxt) (whenOk P) s"
  unfolding attempt_def wp_bind
proof (rule wp_runI)
  fix r t
  assume run: "run_state m s = (r, t)"
  show "wpre (case r of Ok _ \<Rightarrow> nxt | Err e \<Rightarrow> h e | Panic p \<Rightarrow> ret (i, Panic p)) (whenOk P) t"
  proof (cases r)
    case (Ok u)
    with wp_runD [OF new run] have "good v inst k t" by simp
    with Ok show ?thesis using done_step [OF D m run _ K] by (simp add: next_step)
  qed (simp_all add: h wp whenOk_def)
qed

lemma whenOk_fail: "wpre (failStep E i step reason e) (whenOk P) s" "wpre (failProvisioner E i e) (whenOk P) s"
  by (rule wp_failStep, simp add: whenOk_def) (rule wp_failProvisioner, simp add: whenOk_def)

lemma confined_lift: "confined v K m \<Longrightarrow> confined v K (lift m)"
  unfolding lift_def by (intro confined_intro)

lemma wp_lift: "wpre m (\<lambda>r t. r = Inr () \<longrightarrow> P t) s \<Longrightarrow> wpre (lift m) (\<lambda>r t. r = Ok () \<longrightarrow> P t) s"
  unfolding lift_def wp_bind by (erule wp_mono) (auto simp: wp)

lemma wp_good:
  assumes laws: "api_laws E v"
  shows "wpre (lift (ensureSecretOwnership E inst new)) (\<lambda>r t. r = Ok () \<longrightarrow> good v inst KSecret t) s"
    "wpre (lift (ensureFlashSystemCSICR E inst)) (\<lambda>r t. r = Ok () \<longrightarrow> good v inst KCsiCR t) s"
    "wpre (lift (ensureExporterService E inst (ownerOf inst))) (\<lambda>r t. r = Ok () \<longrightarrow> good v inst KService t) s"
    "wpre (lift (ensureExporterDeployment E inst (ownerOf inst))) (\<lambda>r t. r = Ok () \<longrightarrow> good v inst KDeployment t) s"
    "wpre (lift (ensureExporterServiceMonitor E inst (ownerOf inst))) (\<lambda>r t. r = Ok () \<longrightarrow> good v inst KServiceMonitor t) s"
    "wpre (lift (ensureDefaultStorageClass E inst)) (\<lambda>r t. r = Ok () \<longrightarrow> good v inst KStorageClass t) s"
    "wpre (enablePrometheusRules E inst new) (\<lambda>r t. r = Ok () \<longrightarrow> good v inst KPromRule t) s"
  unfolding good_def kind.case
  by (intro wp_lift wp_ensureSecretOwnership wp_ensureFlashSystemCSICR wp_exporter wp_ensureDefaultStorageClass
      wp_enablePrometheusRules laws)+

lemma wp_good_pool:
  assumes laws: "api_laws E v" and val: "kMarshal E (newContent inst) = Inr val" and D: "done_for v inst D s" "KConfigMap \<notin> D"
  shows "wpre (ensureScPoolConfigMap E inst) (\<lambda>r t. r = Ok () \<longrightarrow> good v inst KConfigMap t) s"
proof -
  from D have live: "poolLive v (watchNamespace s) (world s)" by (simp add: done_for_def)
  note ens = wp_ensureScPoolConfigMap [OF laws live val]
  show ?thesis
  proof (rule wp_runI)
    fix r t
    assume run: "run_state (ensureScPoolConfigMap E inst) s = (r, t)"
    from wp_runD [OF ens run] confinedD(2) [OF confined_ensureScPoolConfigMap [OF laws] run]
    show "r = Ok () \<longrightarrow> good v inst KConfigMap t"
      by (auto simp: good_def ensuredEntry_def Let_def)
  qed
qed

lemma good_setConditions [simp]: "good v (setConditions cs inst) k t = good v inst k t"
  by (simp add: good_def setConditions_def secretOwned_def exporterOwned_def ownerOf_def classInPlace_def InitDefaultStorageClass_def
    rulesInPlace_def cong: kind.case_cong)


lemma confined_SetStatusCondition: "api_laws E v \<Longrightarrow> confined v {} (SetStatusCondition E cs c)"
  unfolding SetStatusCondition_def Let_def by (intro confined_intro confined_now)

lemma confined_finish: "api_laws E v \<Longrightarrow> confined v {} (finish E i)"
  unfolding finish_def SetReconcileCompleteCondition_def Let_def by (intro confined_intro confined_SetStatusCondition)

lemma wp_kept:
  assumes D: "done_for v inst D s" and m: "confined v {} m" and Q: "\<And>a t. done_for v inst D t \<Longrightarrow> Q a t"
  shows "wpre m Q s"
proof (rule wp_runI, rule Q)
  fix a t
  assume run: "run_state m s = (a, t)"
  have "done_for v inst (insert KNamespace D) t"
    by (rule done_step [OF D m run]) (simp_all add: good_def)
  then show "done_for v inst D t" by (auto simp: done_for_def)
qed

lemma wp_kept_at:
  assumes D: "done_for v inst D s" and m: "confined v {k} m" and k: "k \<notin> D" "k \<noteq> KConfigMap"
    and trivial: "\<And>t. good v inst k t" and Q: "\<And>a t. done_for v inst D t \<Longrightarrow> Q a t"
  shows "wpre m Q s"
proof (rule wp_runI, rule Q)
  fix a t
  assume run: "run_state m s = (a, t)"
  have "done_for v inst (insert k D) t"
    by (rule done_step [OF D m run trivial]) (use k in auto)
  then show "done_for v inst D t" using k(2) by (auto simp: done_for_def)
qed

abbreviation allDone :: "'w view \<Rightarrow> FlashSystemCluster \<Rightarrow> 'w st \<Rightarrow> bool" where
  "allDone v inst \<equiv> done_for v inst {KPromRule, KStorageClass, KServiceMonitor, KDeployment, KService, KConfigMap, KCsiCR, KSecret}"

lemma finish_keeps:
  assumes "api_laws E v" and "done_for v inst D t"
  shows "wpre (finish E i) (whenOk (done_for v inst D)) t"
  by (rule wp_kept [OF assms(2) confined_finish [OF assms(1)]]) (simp add: whenOk_def)

lemma reconcileSteps_establishes:
  assumes laws: "api_laws E v" and val: "kMarshal E (newContent inst) = Inr val"
    and live: "poolLive v (watchNamespace s) (world s)"
  shows "wpre (reconcileSteps E inst (ownerOf inst)) (whenOk (allDone v inst)) s"
proof -
  note good = wp_good [OF laws]
  note confined = confined_lift confined_ensureSecretOwnership [OF laws] confined_ensureFlashSystemCSICR [OF laws]
    confined_ensureScPoolConfigMap [OF laws] confined_exporter [OF laws]
    confined_ensureDefaultStorageClass [OF laws] confined_enablePrometheusRules [OF laws]
  have start: "done_for v inst {} s" using live by (simp add: done_for_def)
  have after: "good v inst k t" if "good v (setConditions cs inst) k t" for cs k t
    using that by simp
  have tail: "wpre (attempt (lift (ensureDefaultStorageClass E (setConditions cs inst))) (setConditions cs inst)
       (failStep E (setConditions cs inst) ''ensureDefaultStorageClass'' FailedCreateStorageClassReason) (
     attempt (enablePrometheusRules E (setConditions cs inst) (ownerOf inst)) (setConditions cs inst)
       (failStep E (setConditions cs inst) ''enablePrometheusRules'' FailedCreatePromRuleReason) (
     finish E (setConditions cs inst)))) (whenOk (allDone v inst)) t"
    if D: "done_for v inst {KServiceMonitor, KDeployment, KService, KConfigMap, KCsiCR, KSecret} t" for cs t
  proof (rule wp_attempt_step [OF D confined(1) [OF confined(8)]])
    show "wpre (lift (ensureDefaultStorageClass E (setConditions cs inst))) (\<lambda>r t. r = Ok () \<longrightarrow> good v inst KStorageClass t) t"
      using good(6) [of "setConditions cs inst"] by simp
    fix u
    assume D: "done_for v inst {KStorageClass, KServiceMonitor, KDeployment, KService, KConfigMap, KCsiCR, KSecret} u"
    show "wpre (attempt (enablePrometheusRules E (setConditions cs inst) (ownerOf inst)) (setConditions cs inst)
       (failStep E (setConditions cs inst) ''enablePrometheusRules'' FailedCreatePromRuleReason) (
     finish E (setConditions cs inst))) (whenOk (allDone v inst)) u"
    proof (rule wp_attempt_step [OF D confined(9)])
      show "wpre (enablePrometheusRules E (setConditions cs inst) (ownerOf inst)) (\<lambda>r t. r = Ok () \<longrightarrow> good v inst KPromRule t) u"
        using good(7) [of "setConditions cs inst"] by simp
    qed (simp_all add: whenOk_fail, rule finish_keeps [OF laws])
  qed (simp_all add: whenOk_fail)
  show ?thesis
    unfolding reconcileSteps_def Let_def
  proof (rule wp_attempt_step [OF start confined(1) [OF confined(2)] good(1)], simp, simp, goal_cases)
    case (1 t)
    show ?case
    proof (rule wp_attempt_step [OF 1 confined(1) [OF confined(3)] good(2)], simp, simp, goal_cases)
      case (1 t)
      show ?case
      proof (rule wp_attempt_step [OF 1 confined(4) wp_good_pool [OF laws val 1]], simp, simp, simp, goal_cases)
        case (1 t)
        show ?case
        proof (rule wp_attempt_step [OF 1 confined(1) [OF confined(5)] good(3)], simp, simp, goal_cases)
          case (1 t)
          show ?case
          proof (rule wp_attempt_step [OF 1 confined(1) [OF confined(6)] good(4)], simp, simp, goal_cases)
            case (1 t)
            show ?case
            proof (rule wp_attempt_step [OF 1 confined(1) [OF confined(7)] good(5)], simp, simp, goal_cases)
              case (1 t)
              show ?case
                unfolding wp_bind by (rule wp_kept [OF 1 confined_SetStatusCondition [OF laws]], rule tail)
            qed (rule whenOk_fail)
          qed (rule whenOk_fail)
        qed (rule whenOk_fail)
      qed (rule whenOk_fail)
    qed (rule whenOk_fail)
  qed (rule whenOk_fail)
qed


lemma Reconcile_establishes_all:
  assumes laws: "api_laws E v" and live: "poolLive v (watchNamespace s) (world s)"
    and val: "kMarshal E (newContent inst) = Inr val"
    and found: "v (world s) (KFsc, fst rq, snd rq) = Some (OFsc inst)"
    and alive: "om_DeletionTimestamp (fsc_Meta inst) = None" "IsContain (om_Finalizers (fsc_Meta inst)) flashSystemClusterFinalizer"
  shows "wpre (Reconcile E rq) (\<lambda>r t. r = Ok res \<longrightarrow> allDone v inst t) s"
  unfolding Reconcile_def wp_bind [of "getAs _ _ _ _ _"]
proof (rule wp_getAs_laws [OF laws], goal_cases)
  case (1 e r w)
  with found have "\<not> IsNotFound e" by auto
  then show ?case by (simp add: wp)
next
  case (2 x i w)
  let ?s = "afterCall (RGet KFsc (fst rq) (snd rq)) (ROk x) w s"
  from 2 found have i: "i = inst" by simp
  have eq: "reconcile E inst = reconcileSteps E inst (ownerOf inst)"
    using alive by (simp add: reconcile_def Let_def)
  have est: "wpre (reconcileSteps E inst (ownerOf inst)) (whenOk (allDone v inst)) ?s"
    by (rule reconcileSteps_establishes [OF laws val]) (use live 2 in \<open>simp add: poolLive_def poolCm_def\<close>)
  show ?case
    unfolding sum.case i eq wp_bind [of "reconcileSteps _ _ _"]
  proof (rule wp_mono [OF est])
    fix y t
    assume y: "whenOk (allDone v inst) y t"
    show "wpre (case snd y of
           Panic p \<Rightarrow> ret (Panic p)
         | Err e \<Rightarrow> do { st \<leftarrow> statusUpdateAs E asFsc (OFsc (fst y)); ret (Err e) }
         | Ok _ \<Rightarrow> do {
             st \<leftarrow> statusUpdateAs E asFsc (OFsc (fst y));
             (case st of Inl statusError \<Rightarrow> ret (Err statusError) | Inr _ \<Rightarrow> ret (Ok emptyResult))
           }) (\<lambda>r t. r = Ok res \<longrightarrow> allDone v inst t) t"
    proof (cases "snd y")
      case (Ok u)
      with y have D: "allDone v inst t"
        by (simp add: whenOk_def)
      show ?thesis
        unfolding Ok res.case wp_bind
        by (rule wp_kept_at [OF D confined_client(5) [OF laws], of _ KFsc]) (simp_all add: wp good_def split: sum.split)
    next
      case (Err e)
      show ?thesis unfolding Err res.case wp_bind by (rule wp_any) (simp add: wp)
    qed (simp add: wp)
  qed
qed


text \<open>
  C6: What a clean pass has established. When \<^verbatim>\<open>Reconcile\<close> of a live instance with its finalizer ends without an
  error, then, whatever was in the cluster before: the secret has an owner; the pools ConfigMap has an
  entry for the instance; the exporter's service, deployment and service monitor exist in its namespace and
  name it among their owners; the default storage class, when the instance has a default pool, exists and
  carries the parameters of the instance; the Prometheus rules of the instance exist; and the CSI step is done.
\<close>

theorem Reconcile_establishes:
  assumes "api_laws E v" and "poolLive v (watchNamespace s) (world s)" and "kMarshal E (newContent inst) = Inr val"
    and "v (world s) (KFsc, fst rq, snd rq) = Some (OFsc inst)"
    and "om_DeletionTimestamp (fsc_Meta inst) = None" and "IsContain (om_Finalizers (fsc_Meta inst)) flashSystemClusterFinalizer"
    and "run_state (Reconcile E rq) s = (Ok res, t)"
  shows "(\<exists>x. v (world t) (KSecret, sr_Namespace (fs_Secret (fsc_Spec inst)), sr_Name (fs_Secret (fsc_Spec inst))) =
        Some (OSecret x) \<and> om_OwnerReferences (sec_Meta x) \<noteq> None) \<and>
    poolEntry v (watchNamespace t) (world t) (om_Name (fsc_Meta inst)) \<noteq> None \<and>
    list_all (\<lambda>(k, name). \<exists>x. v (world t) (k, om_Namespace (fsc_Meta inst), name) = Some x \<and>
        isOwnerExist (GetOwnerReferences (metaOf x)) (ownerOf inst))
      [(KService, getExporterMetricsServiceName), (KDeployment, getExporterDeploymentName),
       (KServiceMonitor, getExporterMetricsServiceMonitorName)] \<and>
    (case (fs_DefaultPool (fsc_Spec inst), InitDefaultStorageClass inst) of
       (Some pool, Some expected) \<Rightarrow>
         \<exists>x. v (world t) (KStorageClass, [], scc_StorageClassName pool) = Some (OStorageClass x) \<and>
             compareDefaultStorageClass x expected
     | _ \<Rightarrow> True) \<and>
    v (world t) (KPromRule, om_Namespace (fsc_Meta inst), om_Name (fsc_Meta inst)) \<noteq> None \<and>
    IsCSICRCreated t"
  using wp_runD [OF Reconcile_establishes_all [OF assms(1-6)] assms(7)]
  by (simp add: done_for_def good_def secretOwned_def exporterOwned_def ownedIn_def ownedMeta_def classInPlace_def rulesInPlace_def)

lemma demo_Reconcile: "fst (run_state (Reconcile storeEnv (''ns'', ''fs1'')) demoStart) = Ok emptyResult"
  by code_simp

theorem Reconcile_establishes_witness:
  "\<exists>t. run_state (Reconcile storeEnv (''ns'', ''fs1'')) demoStart = (Ok emptyResult, t) \<and>
     poolEntry storeView (watchNamespace t) (world t) ''fs1'' \<noteq> None \<and> IsCSICRCreated t \<and>
     storeView (world t) (KPromRule, ''ns'', ''fs1'') \<noteq> None"
proof -
  obtain t where t: "run_state (Reconcile storeEnv (''ns'', ''fs1'')) demoStart = (Ok emptyResult, t)"
    using demo_Reconcile by (metis prod.collapse)
  have start: "poolLive storeView (watchNamespace demoStart) (world demoStart)"
    "storeView (world demoStart) (KFsc, fst (''ns'', ''fs1''), snd (''ns'', ''fs1'')) = Some (OFsc demoFsc)"
    "om_DeletionTimestamp (fsc_Meta demoFsc) = None" "IsContain (om_Finalizers (fsc_Meta demoFsc)) flashSystemClusterFinalizer"
    "om_Name (fsc_Meta demoFsc) = ''fs1''" "om_Namespace (fsc_Meta demoFsc) = ''ns''"
    by code_simp+
  have val: "kMarshal storeEnv (newContent demoFsc) = Inr (Marshal_content (newContent demoFsc))"
    by (simp add: storeEnv_def)
  from Reconcile_establishes [OF storeEnv_laws start(1) val start(2-4) t] t show ?thesis
    unfolding start(5,6) by blast
qed

end
