(* ===== verification/FscLife.thy ===== *)
theory FscLife
  imports FscEstablish
begin

text \<open>
  The end of a FlashSystemCluster: what the pass over an instance under deletion leaves, and how it is reported.
\<close>

section \<open>Deletion\<close>

text \<open>The default storage class of the instance is gone, or on its way out.\<close>

definition classLeaving :: "'w view \<Rightarrow> FlashSystemCluster \<Rightarrow> 'w \<Rightarrow> bool" where
  "classLeaving v inst w \<longleftrightarrow>
     (case fs_DefaultPool (fsc_Spec inst) of
        None \<Rightarrow> True
      | Some pool \<Rightarrow> leaving (KStorageClass, [], scc_StorageClassName pool) (v w))"

lemma wp_deleteDefaultStorageClass:
  assumes laws: "api_laws E v"
  shows "wpre (deleteDefaultStorageClass E inst) (\<lambda>r t. r = Inr () \<longrightarrow> classLeaving v inst (world t)) s"
proof (cases "fs_DefaultPool (fsc_Spec inst)")
  case None
  then show ?thesis by (simp add: deleteDefaultStorageClass_def wp classLeaving_def)
next
  case (Some pool)
  then obtain e where e: "InitDefaultStorageClass inst = Some e" by (simp add: InitDefaultStorageClass_def Let_def)
  show ?thesis
    unfolding deleteDefaultStorageClass_def Some e option.case prod.case wp_bind classLeaving_def
  proof (rule wp_getAs_laws [OF laws], goal_cases)
    case (2 x found w)
    then have "keyOf (OStorageClass found) = (KStorageClass, [], scc_StorageClassName pool)" by simp
    then show ?case
      unfolding sum.case by (intro wp_deleteObj_laws [OF laws]) simp
  qed (simp add: wp leaving_def)
qed

lemma confined_deleteDefaultStorageClass: "api_laws E v \<Longrightarrow> confined v {KStorageClass} (deleteDefaultStorageClass E inst)"
  unfolding deleteDefaultStorageClass_def by (intro confined_intro confined_client) simp_all

text \<open>What a deletion pass leaves: the class, the instance itself, and the entries of the pools ConfigMap.\<close>

definition finalized :: "'w view \<Rightarrow> FlashSystemCluster \<Rightarrow> string \<Rightarrow> 'w \<Rightarrow> 'w \<Rightarrow> bool" where
  "finalized v inst ns w w' \<longleftrightarrow>
     classLeaving v inst w' \<and>
     (let fs = filter (\<lambda>f. f \<noteq> flashSystemClusterFinalizer) (om_Finalizers (fsc_Meta inst)) in
      if fs = [] then v w' (keyOf (OFsc inst)) = None
      else map_option (\<lambda>x. om_Finalizers (metaOf x)) (v w' (keyOf (OFsc inst))) = Some fs) \<and>
     (\<forall>k. poolEntry v ns w' k = (if k = om_Name (fsc_Meta inst) then None else poolEntry v ns w k))"

lemma wp_updateFsc:
  assumes laws: "api_laws E v"
    and key: "keyOf (OFsc inst') = keyOf (OFsc inst)" and found: "v (world s) (keyOf (OFsc inst)) = Some (OFsc inst)"
    and del: "om_DeletionTimestamp (fsc_Meta inst) \<noteq> None"
    and Fail: "\<And>e t. Q (Inl e) t"
    and Done: "\<And>i t. keyOf (OFsc i) = keyOf (OFsc inst) \<Longrightarrow>
       v (world t) = (v (world s))(keyOf (OFsc inst) := (if om_Finalizers (fsc_Meta inst') = [] then None else Some (OFsc i))) \<Longrightarrow>
       om_Finalizers (fsc_Meta i) = om_Finalizers (fsc_Meta inst') \<Longrightarrow> watchNamespace t = watchNamespace s \<Longrightarrow> Q (Inr i) t"
  shows "wpre (updateAs E asFsc (OFsc inst')) Q s"
  by (rule wp_updateAs_laws [OF laws], rule Fail)
    (use key found del in \<open>auto intro!: Done simp: released_def deletionOf_def agrees_def split: if_splits\<close>)

lemma wp_removeEntry:
  assumes laws: "api_laws E v" and live: "poolLive v (watchNamespace s) (world s)"
  shows "wpre (removeEntry E i) (\<lambda>y t.
     fst y = i \<and> (\<forall>k n m. k \<noteq> KConfigMap \<longrightarrow> v (world t) (k, n, m) = v (world s) (k, n, m)) \<and>
     (snd y = Ok () \<longrightarrow> (\<forall>k. poolEntry v (watchNamespace s) (world t) k =
        (if k = om_Name (fsc_Meta i) then None else poolEntry v (watchNamespace s) (world s) k)))) s"
  unfolding removeEntry_def wp
  by (rule wp_mono [OF wp_removeFscFromConfigMap [OF laws live]]) (auto simp: onlyAt_def poolKey_def)

definition endPost :: "'w view \<Rightarrow> FlashSystemCluster \<Rightarrow> 'w st \<Rightarrow> FlashSystemCluster \<times> unit res \<Rightarrow> 'w st \<Rightarrow> bool" where
  "endPost v inst s y t \<longleftrightarrow> (snd y = Ok () \<longrightarrow>
     keyOf (OFsc (fst y)) = keyOf (OFsc inst) \<and> finalized v inst (watchNamespace s) (world s) (world t))"

lemma finalizeInstance_finalizes:
  assumes laws: "api_laws E v" and live: "poolLive v (watchNamespace s) (world s)"
    and found: "v (world s) (keyOf (OFsc inst)) = Some (OFsc inst)"
    and del: "om_DeletionTimestamp (fsc_Meta inst) \<noteq> None"
    and fin: "IsContain (om_Finalizers (fsc_Meta inst)) flashSystemClusterFinalizer"
  shows "wpre (finalizeInstance E inst) (\<lambda>y t. endPost v inst s y t) s"
proof -
  let ?fs = "filter (\<lambda>f. f \<noteq> flashSystemClusterFinalizer) (om_Finalizers (fsc_Meta inst))"
  let ?inst = "setFinalizers (Remove (om_Finalizers (fsc_Meta inst)) flashSystemClusterFinalizer) inst"
  have inst: "keyOf (OFsc ?inst) = keyOf (OFsc inst)" "om_Finalizers (fsc_Meta ?inst) = ?fs"
    by (simp_all add: keyOf_def setFinalizers_def Remove_filter)
  have upd: "wpre (updateAs E asFsc (OFsc ?inst)) (\<lambda>u. wpre (case u of Inl e \<Rightarrow> ret (?inst, Err e) | Inr i \<Rightarrow> removeEntry E i)
      (\<lambda>y t. endPost v inst s y t)) u"
    if cls: "classLeaving v inst (world u)" and ns: "watchNamespace u = watchNamespace s"
      and same: "\<And>k n m. k \<noteq> KStorageClass \<Longrightarrow> v (world u) (k, n, m) = v (world s) (k, n, m)" for u
  proof (rule wp_updateFsc [OF laws inst(1) _ del])
    show "v (world u) (keyOf (OFsc inst)) = Some (OFsc inst)"
      using found same by (simp add: keyOf_def)
    fix i and t :: "'a st"
    assume i: "keyOf (OFsc i) = keyOf (OFsc inst)" "watchNamespace t = watchNamespace u"
      "v (world t) = (v (world u))(keyOf (OFsc inst) := (if om_Finalizers (fsc_Meta ?inst) = [] then None else Some (OFsc i)))"
      "om_Finalizers (fsc_Meta i) = om_Finalizers (fsc_Meta ?inst)"
    have pools: "poolEntry v n (world t) k = poolEntry v n (world s) k" "poolLive v n (world t) = poolLive v n (world s)" for n k
      using i(3) same by (simp_all add: poolEntry_def poolLive_def poolCm_def poolKey_def keyOf_def)
    have name: "om_Name (fsc_Meta i) = om_Name (fsc_Meta inst)" using i(1) by (simp add: keyOf_def)
    have "wpre (removeEntry E i) (\<lambda>y t. endPost v inst s y t) t"
    proof (rule wp_mono [OF wp_removeEntry [OF laws]])
      show "poolLive v (watchNamespace t) (world t)" using live i(2) ns pools by simp
      fix y and t' :: "'a st"
      assume r: "fst y = i \<and> (\<forall>k n m. k \<noteq> KConfigMap \<longrightarrow> v (world t') (k, n, m) = v (world t) (k, n, m)) \<and>
         (snd y = Ok () \<longrightarrow> (\<forall>k. poolEntry v (watchNamespace t) (world t') k =
            (if k = om_Name (fsc_Meta i) then None else poolEntry v (watchNamespace t) (world t) k)))"
      have "v (world t') (keyOf (OFsc inst)) = (if ?fs = [] then None else Some (OFsc i))"
        using r i(3) inst(2) by (simp add: keyOf_def)
      moreover have "classLeaving v inst (world t')"
        using r cls i(3) by (simp add: classLeaving_def leaving_def keyOf_def split: option.splits)
      ultimately show "endPost v inst s y t'"
        using r i(1,2,4) inst(2) ns pools name by (simp add: endPost_def finalized_def Let_def)
    qed
    then show "wpre (case Inr i of Inl e \<Rightarrow> ret (?inst, Err e) | Inr i \<Rightarrow> removeEntry E i)
      (\<lambda>y t. endPost v inst s y t) t" by simp
  qed (simp add: wp endPost_def)
  show ?thesis
    unfolding finalizeInstance_def if_P [OF fin] Let_def wp_bind [of "deleteDefaultStorageClass _ _"]
  proof (rule wp_runI)
    fix r u
    assume run: "run_state (deleteDefaultStorageClass E inst) s = (r, u)"
    note c = confinedD [OF confined_deleteDefaultStorageClass [OF laws] run]
    show "wpre (case r of Inl e \<Rightarrow> ret (inst, Err e)
        | Inr _ \<Rightarrow> do { u \<leftarrow> updateAs E asFsc (OFsc ?inst);
            (case u of Inl e \<Rightarrow> ret (?inst, Err e) | Inr inst' \<Rightarrow> removeEntry E inst') })
      (\<lambda>y t. endPost v inst s y t) u"
    proof (cases r)
      case (Inr x)
      with wp_runD [OF wp_deleteDefaultStorageClass [OF laws] run] have "classLeaving v inst (world u)" by simp
      then show ?thesis
        unfolding Inr sum.case wp_bind by (rule upd) (use c in auto)
    qed (simp add: wp endPost_def)
  qed
qed


lemma reconcile_deleted: "om_DeletionTimestamp (fsc_Meta inst) \<noteq> None \<Longrightarrow> reconcile E inst = finalizeInstance E inst"
  by (auto simp: reconcile_def Let_def)

text \<open>
  C8: The end of an instance. When the pass over an instance under deletion that still has its finalizer
  succeeds, the default storage class is gone or on its way out; the instance has lost this
  finalizer and no other one, and is gone when it had no other; its entry of the pools ConfigMap
  is gone, and every other entry is as it was.
\<close>

theorem reconcile_finalizes:
  assumes "api_laws E v" and "poolLive v (watchNamespace s) (world s)"
    and "v (world s) (keyOf (OFsc inst)) = Some (OFsc inst)"
    and "om_DeletionTimestamp (fsc_Meta inst) \<noteq> None"
    and "IsContain (om_Finalizers (fsc_Meta inst)) flashSystemClusterFinalizer"
    and "run_state (reconcile E inst) s = ((inst', Ok ()), t)"
  shows "(case fs_DefaultPool (fsc_Spec inst) of
      None \<Rightarrow> True
    | Some pool \<Rightarrow>
        (case v (world t) (KStorageClass, [], scc_StorageClassName pool) of None \<Rightarrow> True | Some x \<Rightarrow> deletionOf x \<noteq> None)) \<and>
    (let fs = filter (\<lambda>f. f \<noteq> flashSystemClusterFinalizer) (om_Finalizers (fsc_Meta inst)) in
     if fs = [] then v (world t) (keyOf (OFsc inst)) = None
     else map_option (\<lambda>x. om_Finalizers (metaOf x)) (v (world t) (keyOf (OFsc inst))) = Some fs) \<and>
    (\<forall>k. poolEntry v (watchNamespace s) (world t) k =
       (if k = om_Name (fsc_Meta inst) then None else poolEntry v (watchNamespace s) (world s) k))"
  using wp_runD [OF finalizeInstance_finalizes [OF assms(1-5)] assms(6) [unfolded reconcile_deleted [OF assms(4)]]]
  by (simp add: endPost_def finalized_def classLeaving_def leaving_def split: option.splits)

definition demoEnd :: "store st" where
  "demoEnd = demoState [OFsc demoDeleted, OConfigMap demoCm, OStorageClass demoSc]"

lemma demoEnd_start:
  "poolLive storeView (watchNamespace demoEnd) (world demoEnd)"
  "storeView (world demoEnd) (keyOf (OFsc demoDeleted)) = Some (OFsc demoDeleted)"
  "om_DeletionTimestamp (fsc_Meta demoDeleted) \<noteq> None"
  "IsContain (om_Finalizers (fsc_Meta demoDeleted)) flashSystemClusterFinalizer"
  by code_simp+

theorem reconcile_finalizes_witness:
  "\<exists>inst' t. run_state (reconcile storeEnv demoDeleted) demoEnd = ((inst', Ok ()), t) \<and>
     storeView (world t) (keyOf (OFsc demoDeleted)) = None \<and>
     poolEntry storeView (watchNamespace demoEnd) (world t) (om_Name (fsc_Meta demoDeleted)) = None"
proof -
  obtain y t where run: "run_state (reconcile storeEnv demoDeleted) demoEnd = (y, t)" by fastforce
  have "snd (fst (run_state (reconcile storeEnv demoDeleted) demoEnd)) = Ok ()" by code_simp
  with run have run: "run_state (reconcile storeEnv demoDeleted) demoEnd = ((fst y, Ok ()), t)"
    by (cases y) simp
  have "filter (\<lambda>f. f \<noteq> flashSystemClusterFinalizer) (om_Finalizers (fsc_Meta demoDeleted)) = []" by code_simp
  with reconcile_finalizes [OF storeEnv_laws demoEnd_start run] run show ?thesis
    by (simp add: Let_def)
qed

text \<open>
  C24: The last pass of an instance never reports success. When the finalizer of this operator is the only
  one left, a pass over the deleted instance either fails before the end, or removes the
  instance and then fails to write its status; in both cases the request is tried again.
\<close>

theorem Reconcile_last_pass_fails:
  assumes "api_laws E v" and "poolLive v (watchNamespace s) (world s)"
    and "v (world s) (KFsc, fst rq, snd rq) = Some (OFsc inst)"
    and "om_DeletionTimestamp (fsc_Meta inst) \<noteq> None"
    and "om_Finalizers (fsc_Meta inst) = [flashSystemClusterFinalizer]"
    and "run_state (Reconcile E rq) s = (r, t)"
  shows "r \<noteq> Ok res"
proof -
  note laws = assms(1)
  have key: "keyOf (OFsc inst) = (KFsc, fst rq, snd rq)" by (rule api_lawsD(1) [OF laws assms(3)])
  have "wpre (Reconcile E rq) (\<lambda>r t. r \<noteq> Ok res) s"
    unfolding Reconcile_def wp_bind [of "getAs _ _ _ _ _"]
  proof (rule wp_getAs_laws [OF laws], goal_cases)
    case (1 e r w)
    with assms(3) have "\<not> IsNotFound e" by auto
    then show ?case by (simp add: wp)
  next
    case (2 x i w)
    let ?s = "afterCall (RGet KFsc (fst rq) (snd rq)) (ROk x) w s"
    from 2 assms(3) have i: "i = inst" by simp
    have fin: "wpre (finalizeInstance E inst) (endPost v inst ?s) ?s"
      by (rule finalizeInstance_finalizes [OF laws])
        (use assms 2 key in \<open>simp_all add: poolLive_def poolCm_def\<close>)
    show ?case
      unfolding sum.case i reconcile_deleted [OF assms(4)] wp_bind [of "finalizeInstance _ _"]
    proof (rule wp_mono [OF fin])
      fix y t
      assume y: "endPost v inst ?s y t"
      show "wpre (case snd y of
           Panic p \<Rightarrow> ret (Panic p)
         | Err e \<Rightarrow> do { st \<leftarrow> statusUpdateAs E asFsc (OFsc (fst y)); ret (Err e) }
         | Ok _ \<Rightarrow> do {
             st \<leftarrow> statusUpdateAs E asFsc (OFsc (fst y));
             (case st of Inl statusError \<Rightarrow> ret (Err statusError) | Inr _ \<Rightarrow> ret (Ok emptyResult))
           }) (\<lambda>r t. r \<noteq> Ok res) t"
      proof (cases "snd y")
        case (Ok u)
        with y assms(5) have gone: "v (world t) (keyOf (OFsc (fst y))) = None"
          by (simp add: endPost_def finalized_def)
        show ?thesis
          unfolding Ok res.case wp_bind statusUpdateAs_def
          by (rule wp_call_laws [OF laws]) (use gone in \<open>auto simp: wp decodeOne_def split: sum.splits resp.splits\<close>)
      next
        case (Err e)
        show ?thesis unfolding Err res.case wp_bind by (rule wp_any) (simp add: wp)
      qed (simp add: wp)
    qed
  qed
  then show ?thesis using assms(6) by (simp add: wpre_def)
qed

theorem Reconcile_last_pass_fails_witness:
  "\<exists>t. run_state (Reconcile storeEnv (''ns'', ''fs1'')) demoEnd = (Err (StatusError NotFound ''refused''), t) \<and>
     fst (run_state (Reconcile storeEnv (''ns'', ''fs1'')) demoEnd) \<noteq> Ok emptyResult"
proof -
  have run: "fst (run_state (Reconcile storeEnv (''ns'', ''fs1'')) demoEnd) = Err (StatusError NotFound ''refused'')"
    by code_simp
  then obtain t where t: "run_state (Reconcile storeEnv (''ns'', ''fs1'')) demoEnd = (Err (StatusError NotFound ''refused''), t)"
    by (metis prod.collapse)
  have start: "storeView (world demoEnd) (KFsc, fst (''ns'', ''fs1''), snd (''ns'', ''fs1'')) = Some (OFsc demoDeleted)"
    "om_Finalizers (fsc_Meta demoDeleted) = [flashSystemClusterFinalizer]"
    by code_simp+
  from Reconcile_last_pass_fails [OF storeEnv_laws demoEnd_start(1) start(1) demoEnd_start(3) start(2) t, of emptyResult] t
  show ?thesis by simp
qed

end
