(* ===== verification/FscQuiet.thy ===== *)
theory FscQuiet
  imports FscEstablish
begin

text \<open>
  Steps of the pass that come to rest: the CSI step runs once in the life of the process, and the pools
  ConfigMap is written at most in the first pass of a cluster.
\<close>

section \<open>The custom resource of the CSI driver\<close>

definition csiPresent :: "'w view \<Rightarrow> 'w \<Rightarrow> bool" where
  "csiPresent v w \<longleftrightarrow> (\<exists>ns n x. v w (KCsiCR, ns, n) = Some x)"

lemma wp_HasCSI:
  assumes laws: "api_laws E v"
  shows "wpre (HasIBMBlockCSICRExisted E nss) (\<lambda>r t. r = Inr True \<longrightarrow> csiPresent v (world t)) s"
proof (induction nss arbitrary: s)
  case (Cons ns nss)
  show ?case
    unfolding HasIBMBlockCSICRExisted.simps wp_bind
  proof (rule wp_listAs_laws [OF laws], goal_cases)
    case (1 e r w)
    show ?case
      unfolding sum.case by (cases "IsNotFound e") (simp_all only: if_True if_False Cons.IH, simp add: wp)
  next
    case (2 xs w)
    show ?case
    proof (cases xs)
      case Nil
      then show ?thesis using Cons.IH by simp
    next
      case (Cons x xs')
      with 2(3) [of x] have "selects KCsiCR (if ns = [] then None else Some ns) [] x" "v (world s) (keyOf x) = Some x" by auto
      then have "csiPresent v w" using 2(1) by (auto simp: csiPresent_def selects_def keyOf_def)
      with Cons show ?thesis by (simp add: wp)
    qed
  qed
qed (simp add: wp)

lemma wp_CreateCSI:
  assumes laws: "api_laws E v"
  shows "wpre (CreateIBMBlockCSICR E ns) (\<lambda>r t. \<forall>x. r = Inr x \<longrightarrow> csiPresent v (world t)) s"
proof -
  have "wpre (createAs E asCsiCR (OCsiCR x)) (\<lambda>r t. \<forall>x. r = Inr x \<longrightarrow> csiPresent v (world t)) t" for x t
    by (rule wp_createAs_laws [OF laws]) (auto simp: csiPresent_def keyOf_def)
  then show ?thesis
    unfolding CreateIBMBlockCSICR_def by (intro wp_after) simp_all
qed

lemma wp_createEvent_keeps:
  assumes laws: "api_laws E v" and Q: "\<And>u. (csiPresent v (world s) \<Longrightarrow> csiPresent v (world u)) \<Longrightarrow> Q () u"
  shows "wpre (createEvent E inst ty r m) Q s"
proof (rule wp_runI)
  fix a u
  assume run: "run_state (createEvent E inst ty r m) s = (a, u)"
  from confinedD(1) [OF confined_createEvent [OF laws, of "{KEvent}"] run, of KCsiCR] show "Q a u"
    by (auto intro!: Q simp: csiPresent_def)
qed

lemma wp_after_post:
  assumes "wpre m P s" and "\<And>x t. P (Inr x) t \<Longrightarrow> wpre (k x) Q t" and "\<And>e t. Q (Inl e) t"
  shows "wpre (do { d \<leftarrow> m; (case d of Inl e \<Rightarrow> ret (Inl e) | Inr x \<Rightarrow> k x) }) Q s"
  unfolding wp_bind by (rule wp_mono [OF assms(1)]) (auto simp: wp assms split: sum.split)

lemma wp_ensureCSI:
  assumes laws: "api_laws E v" and fresh: "\<not> IsCSICRCreated s"
  shows "wpre (ensureFlashSystemCSICR E inst) (\<lambda>r t. r = Inr () \<longrightarrow> csiPresent v (world t)) s"
proof -
  let ?Q = "\<lambda>r t. r = Inr () \<longrightarrow> csiPresent v (world t)"
  have create: "wpre (do {
      o' \<leftarrow> CreateIBMBlockCSICR E (om_Namespace (fsc_Meta inst));
      (case o' of Inl e \<Rightarrow> ret (Inl e)
       | Inr obj \<Rightarrow> do {
           createEvent E inst EventTypeNormal SuccessfulLaunchBlockCSIReason
             (''CSI CR:  '' @ om_Namespace (un_Meta obj) @ ''/'' @ om_Name (un_Meta obj));
           ret (Inr ()) }) }) ?Q t" for t
    by (rule wp_after_post [OF wp_CreateCSI [OF laws]], unfold wp_bind, rule wp_createEvent_keeps [OF laws]) (simp_all add: wp)
  have found: "wpre (do {
      createEvent E inst EventTypeNormal SuccessfulDetectBlockCSIReason ''CSI CR is found, skip to create CSI CR instance'';
      ret (Inr ()) }) ?Q t" if "csiPresent v (world t)" for t
    unfolding wp_bind by (rule wp_createEvent_keeps [OF laws]) (simp add: wp that)
  have place: "wpre (if \<not> isFound then do {
      o' \<leftarrow> CreateIBMBlockCSICR E (om_Namespace (fsc_Meta inst));
      (case o' of Inl e \<Rightarrow> ret (Inl e)
       | Inr obj \<Rightarrow> do {
           createEvent E inst EventTypeNormal SuccessfulLaunchBlockCSIReason
             (''CSI CR:  '' @ om_Namespace (un_Meta obj) @ ''/'' @ om_Name (un_Meta obj));
           ret (Inr ()) })
      } else do {
      createEvent E inst EventTypeNormal SuccessfulDetectBlockCSIReason ''CSI CR is found, skip to create CSI CR instance'';
      ret (Inr ()) }) ?Q t" if "isFound \<Longrightarrow> csiPresent v (world t)" for t isFound
    using that by (cases isFound) (simp_all only: if_True if_False not_True_eq_False not_False_eq_True create found)
  show ?thesis
    unfolding ensureFlashSystemCSICR_def wp_bind [of State_Monad.get] wp_get if_not_P [OF fresh]
  proof (rule wp_after, rule wp_after_post [OF wp_HasCSI [OF laws]], rule wp_after_post [OF place], goal_cases)
    case (2 _ _ isFound t u)
    then show ?case by (simp add: wp)
  qed simp_all
qed

text \<open>
  C25: The CSI step runs once. After a success of the step the flag is set and the custom resource of the CSI
  driver exists, whether the step found it or created it; once the flag is set, the step
  succeeds without a call and changes nothing.
\<close>

theorem ensureFlashSystemCSICR_once:
  assumes "api_laws E v" and "run_state (ensureFlashSystemCSICR E inst) s = (r, t)"
  shows "(IsCSICRCreated s \<longrightarrow> r = Inr () \<and> t = s) \<and>
    (\<not> IsCSICRCreated s \<and> r = Inr () \<longrightarrow> IsCSICRCreated t \<and> (\<exists>ns n x. v (world t) (KCsiCR, ns, n) = Some x))"
proof (cases "IsCSICRCreated s")
  case True
  with assms(2) show ?thesis by (simp add: ensureFlashSystemCSICR_def)
next
  case False
  with wp_runD [OF wp_ensureCSI [OF assms(1) False] assms(2)] wp_runD [OF wp_ensureFlashSystemCSICR assms(2)]
  show ?thesis by (auto simp: csiPresent_def)
qed

theorem ensureFlashSystemCSICR_once_witness:
  "\<exists>t. run_state (ensureFlashSystemCSICR storeEnv demoFsc) demoStart = (Inr (), t) \<and> IsCSICRCreated t \<and>
     (\<exists>ns n x. storeView (world t) (KCsiCR, ns, n) = Some x)"
proof -
  have "fst (run_state (ensureFlashSystemCSICR storeEnv demoFsc) demoStart) = Inr ()" by code_simp
  then obtain t where t: "run_state (ensureFlashSystemCSICR storeEnv demoFsc) demoStart = (Inr (), t)" by (metis prod.collapse)
  have "\<not> IsCSICRCreated demoStart" by code_simp
  with ensureFlashSystemCSICR_once [OF storeEnv_laws t] t show ?thesis by blast
qed

section \<open>The pools ConfigMap settles\<close>

lemma wp_ensureScPoolConfigMap_settled:
  assumes laws: "api_laws E v"
    and entry: "poolEntry v (watchNamespace s) (world s) (om_Name (fsc_Meta inst)) \<noteq> None"
    and clean: "poolEntry v (watchNamespace s) (world s) PoolsKey = None"
  shows "wpre (ensureScPoolConfigMap E inst) (\<lambda>r t. v (world t) = v (world s) \<and>
     (\<exists>x. calls t = calls s @ [(RGet KConfigMap (watchNamespace s) PoolConfigmapName, x)])) s"
proof -
  let ?ns = "watchNamespace s"
  from entry obtain c where c: "v (world s) (KConfigMap, ?ns, PoolConfigmapName) = Some (OConfigMap c)"
    by (auto simp: poolEntry_def poolCm_def poolKey_def split: option.splits kobj.splits)
  with entry clean have entries: "mget (cm_Data c) (om_Name (fsc_Meta inst)) \<noteq> None" "mget (cm_Data c) PoolsKey = None"
    by (auto simp: poolEntry_def poolCm_def poolKey_def)
  then have "cm_Data c \<noteq> NilMap" by auto
  note entries = entries this
  show ?thesis
    unfolding ensureScPoolConfigMap_def GetCreateConfigmap_def wp_bind [of askNamespace] wp_askNamespace
      wp_bind [of "State_Monad.bind _ _"] wp_bind [of "getAs _ _ _ _ _"]
  proof (rule wp_getAs_laws [OF laws], goal_cases)
    case (1 e r w)
    with c have "\<not> IsNotFound e" by auto
    with 1 show ?case by (simp add: wp)
  next
    case (2 x y w)
    with c have "y = c" by simp
    with 2 entries show ?case by (auto simp: wp Let_def addFscEntry_def)
  qed
qed

text \<open>
  The pools ConfigMap settles after one pass. Once the step has succeeded for a cluster, running it again
  reads the ConfigMap and writes nothing. A cluster that is named like the legacy key \<^verbatim>\<open>pools\<close>
  is the exception: its entry is removed and created again in every pass.
\<close>

theorem ensureScPoolConfigMap_settles:
  assumes "api_laws E v" and "poolLive v (watchNamespace s) (world s)" and "kMarshal E (newContent inst) = Inr val"
    and "om_Name (fsc_Meta inst) \<noteq> PoolsKey"
    and "run_state (ensureScPoolConfigMap E inst) s = (Ok (), t)"
    and "run_state (ensureScPoolConfigMap E inst) t = (r, u)"
  shows "v (world u) = v (world t) \<and> list_all (\<lambda>(q, x). \<not> isWrite q) (drop (length (calls t)) (calls u))"
proof -
  have ns: "watchNamespace t = watchNamespace s"
    by (rule confinedD(2) [OF confined_ensureScPoolConfigMap [OF assms(1)] assms(5)])
  have "poolEntry v (watchNamespace t) (world t) k =
      ensuredEntry (om_Name (fsc_Meta inst)) val (poolEntry v (watchNamespace s) (world s)) k" for k
    using wp_runD [OF wp_ensureScPoolConfigMap [OF assms(1-3)] assms(5)] ns by simp
  then have "poolEntry v (watchNamespace t) (world t) (om_Name (fsc_Meta inst)) \<noteq> None"
    "poolEntry v (watchNamespace t) (world t) PoolsKey = None"
    using assms(4) by (simp_all add: ensuredEntry_def Let_def)
  from wp_runD [OF wp_ensureScPoolConfigMap_settled [OF assms(1) this] assms(6)] show ?thesis by auto
qed

theorem ensureScPoolConfigMap_settles_witness:
  "\<exists>t u. run_state (ensureScPoolConfigMap storeEnv demoFsc) demoStart = (Ok (), t) \<and>
     run_state (ensureScPoolConfigMap storeEnv demoFsc) t = (Ok (), u) \<and> storeView (world u) = storeView (world t)"
proof -
  have "fst (run_state (ensureScPoolConfigMap storeEnv demoFsc) demoStart) = Ok ()" by code_simp
  then obtain t where t: "run_state (ensureScPoolConfigMap storeEnv demoFsc) demoStart = (Ok (), t)" by (metis prod.collapse)
  have "fst (run_state (ensureScPoolConfigMap storeEnv demoFsc) (snd (run_state (ensureScPoolConfigMap storeEnv demoFsc) demoStart))) = Ok ()"
    by code_simp
  with t obtain u where u: "run_state (ensureScPoolConfigMap storeEnv demoFsc) t = (Ok (), u)" by (metis prod.collapse snd_conv)
  have start: "poolLive storeView (watchNamespace demoStart) (world demoStart)" "om_Name (fsc_Meta demoFsc) \<noteq> PoolsKey"
    by code_simp+
  have val: "kMarshal storeEnv (newContent demoFsc) = Inr (Marshal_content (newContent demoFsc))"
    by (simp add: storeEnv_def)
  from ensureScPoolConfigMap_settles [OF storeEnv_laws start(1) val start(2) t u] t u show ?thesis by blast
qed

end
