(* ===== verification/FscRest.thy ===== *)
theory FscRest
  imports FscQuiet
begin

text \<open>
  A cluster that is in place is left alone: a pass over a live instance all of whose objects are as the operator
  wants them writes none of them again.
\<close>

section \<open>What an operation may have touched\<close>

definition within :: "'w view \<Rightarrow> kind set \<Rightarrow> 'w st \<Rightarrow> 'w st \<Rightarrow> bool" where
  "within v K s t \<longleftrightarrow> (\<forall>k n m. k \<notin> K \<longrightarrow> v (world t) (k, n, m) = v (world s) (k, n, m)) \<and>
     watchNamespace t = watchNamespace s \<and> (IsCSICRCreated s \<longrightarrow> IsCSICRCreated t) \<and>
     (\<exists>xs. calls t = calls s @ xs \<and> list_all (writesTo K \<circ> fst) xs)"

lemma within_refl [simp]: "within v K s s"
  by (simp add: within_def)

lemma within_trans:
  assumes "within v K s t" "within v L t u" "K \<subseteq> M" "L \<subseteq> M"
  shows "within v M s u"
proof -
  from assms obtain xs ys where "calls t = calls s @ xs" "calls u = calls t @ ys"
    "list_all (writesTo K \<circ> fst) xs" "list_all (writesTo L \<circ> fst) ys"
    unfolding within_def by blast
  with assms(3,4) have "calls u = calls s @ (xs @ ys)" "list_all (writesTo M \<circ> fst) (xs @ ys)"
    by (auto simp: list_all_iff writesTo_def)
  with assms show ?thesis unfolding within_def by (metis (no_types, lifting) subsetD)
qed

lemma wp_within: "confined v K m \<Longrightarrow> (\<And>a t. within v K s t \<Longrightarrow> Q a t) \<Longrightarrow> wpre m Q s"
proof (rule wp_runI)
  fix a t
  assume c: "confined v K m" and Q: "\<And>a t. within v K s t \<Longrightarrow> Q a t" and run: "run_state m s = (a, t)"
  from confinedD [OF c run] show "Q a t" by (intro Q) (simp add: within_def)
qed

text \<open>A quiet step: it has only read.\<close>

abbreviation quiet :: "'w view \<Rightarrow> 'w st \<Rightarrow> 'w st \<Rightarrow> bool" where
  "quiet v \<equiv> within v {}"

lemma quiet_trans: "quiet v s t \<Longrightarrow> quiet v t u \<Longrightarrow> quiet v s u"
  by (rule within_trans) auto

lemma quiet_world: "quiet v s t \<Longrightarrow> v (world t) = v (world s)"
  by (auto simp: within_def fun_eq_iff)

lemma quiet_read: "v w = v (world s) \<Longrightarrow> \<not> isWrite q \<Longrightarrow> quiet v s (afterCall q r w s)"
  by (simp add: within_def writesTo_def afterCall_def del: split_paired_All)

lemma wp_get_quiet:
  assumes laws: "api_laws E v"
    and Fail: "\<And>e t. quiet v s t \<Longrightarrow> (IsNotFound e \<Longrightarrow> v (world s) (k, ns, n) = None) \<Longrightarrow> Q (Inl e) t"
    and Found: "\<And>x y t. quiet v s t \<Longrightarrow> v (world s) (k, ns, n) = Some x \<Longrightarrow> proj x = Some y \<Longrightarrow> Q (Inr y) t"
  shows "wpre (getAs E proj k ns n) Q s"
  by (rule wp_getAs_laws [OF laws]) (auto intro!: Fail Found quiet_read)

section \<open>An instance in place\<close>

definition exporterAt :: "'w view \<Rightarrow> FlashSystemCluster \<Rightarrow> kind \<Rightarrow> string \<Rightarrow> (kobj \<Rightarrow> bool) \<Rightarrow> 'w \<Rightarrow> bool" where
  "exporterAt v inst k name P w \<longleftrightarrow>
     (\<exists>x. v w (k, om_Namespace (fsc_Meta inst), name) = Some x \<and> P x \<and> ownedMeta (metaOf x) (ownerOf inst)) \<and>
     (\<forall>n x. v w (k, om_Namespace (fsc_Meta inst), n) = Some x \<longrightarrow> \<not> isOldObject (om_Labels (metaOf x)) (om_Name (metaOf x)))"

text \<open>
  Everything the operator makes for an instance is there and as it wants it, and no object of an older release is
  left in its namespace.
\<close>

definition inPlace :: "'w env \<Rightarrow> 'w view \<Rightarrow> FlashSystemCluster \<Rightarrow> 'w st \<Rightarrow> bool" where
  "inPlace E v inst s \<longleftrightarrow> IsCSICRCreated s \<and> secretOwned v inst (world s) \<and> classInPlace v inst (world s) \<and>
     poolEntry v (watchNamespace s) (world s) (om_Name (fsc_Meta inst)) \<noteq> None \<and>
     poolEntry v (watchNamespace s) (world s) PoolsKey = None \<and>
     exporterAt v inst KService getExporterMetricsServiceName (\<lambda>x. case asService x of None \<Rightarrow> False | Some y \<Rightarrow> serviceConforms y) (world s) \<and>
     exporterAt v inst KDeployment getExporterDeploymentName
       (\<lambda>x. case asDeployment x of None \<Rightarrow> False | Some y \<Rightarrow> deploymentConforms inst (exporterImage E) y) (world s) \<and>
     exporterAt v inst KServiceMonitor getExporterMetricsServiceMonitorName
       (\<lambda>x. case asServiceMonitor x of None \<Rightarrow> False | Some y \<Rightarrow> monitorConforms inst y) (world s)"

lemma inPlace_quiet:
  assumes "quiet v s t" "inPlace E v inst s"
  shows "inPlace E v inst t"
proof -
  have w: "v (world t) = v (world s)" by (rule quiet_world [OF assms(1)])
  have "poolEntry v ns (world t) = poolEntry v ns (world s)" for ns by (simp add: poolEntry_def poolCm_def w fun_eq_iff)
  with w assms show ?thesis
    by (simp add: inPlace_def within_def secretOwned_def classInPlace_def exporterAt_def cong: option.case_cong)
qed

lemma inPlace_setConditions [simp]: "inPlace E v (setConditions cs inst) s = inPlace E v inst s"
proof -
  let ?i = "setConditions cs inst"
  have o: "ownerOf ?i = ownerOf inst" "om_Namespace (fsc_Meta ?i) = om_Namespace (fsc_Meta inst)" "om_Name (fsc_Meta ?i) = om_Name (fsc_Meta inst)"
    "InitDefaultStorageClass ?i = InitDefaultStorageClass inst" "fsc_Spec ?i = fsc_Spec inst"
    by (simp_all add: ownerOf_def setConditions_def InitDefaultStorageClass_def)
  have "secretOwned v ?i = secretOwned v inst" "classInPlace v ?i = classInPlace v inst" "exporterAt v ?i = exporterAt v inst"
    by (simp_all add: secretOwned_def classInPlace_def exporterAt_def fun_eq_iff o)
  moreover have "deploymentConforms ?i = deploymentConforms inst" "monitorConforms ?i = monitorConforms inst"
    by (simp_all add: deploymentConforms_def monitorConforms_def fun_eq_iff setConditions_def InitExporterDeployment_def
        InitExporterMetricsServiceMonitor_def exporterMeta_def exporterContainer_def)
  ultimately show ?thesis by (simp add: inPlace_def o cong: option.case_cong)
qed

section \<open>The steps are quiet\<close>

lemma quiet_secret:
  assumes laws: "api_laws E v" and s: "secretOwned v inst (world s)"
  shows "wpre (ensureSecretOwnership E inst new) (\<lambda>r t. quiet v s t) s"
  unfolding ensureSecretOwnership_def Let_def wp_bind [of "getAs _ _ _ _ _"]
  by (rule wp_get_quiet [OF laws]) (use s in \<open>auto simp: wp secretOwned_def\<close>)

lemma quiet_class:
  assumes laws: "api_laws E v" and s: "classInPlace v inst (world s)"
  shows "wpre (ensureDefaultStorageClass E inst) (\<lambda>r t. quiet v s t) s"
proof (cases "fs_DefaultPool (fsc_Spec inst)")
  case None
  then show ?thesis by (simp add: ensureDefaultStorageClass_def wp)
next
  case (Some pool)
  then obtain e where e: "InitDefaultStorageClass inst = Some e" by (simp add: InitDefaultStorageClass_def Let_def)
  show ?thesis
    unfolding ensureDefaultStorageClass_def Some e option.case prod.case wp_bind [of "getAs _ _ _ _ _"]
    by (rule wp_get_quiet [OF laws]) (use s Some e in \<open>auto simp: wp classInPlace_def\<close>)
qed

lemma quiet_pools:
  assumes laws: "api_laws E v" and s: "inPlace E v inst s"
  shows "wpre (ensureScPoolConfigMap E inst) (\<lambda>r t. quiet v s t) s"
proof (rule wp_runI)
  fix r t
  assume run: "run_state (ensureScPoolConfigMap E inst) s = (r, t)"
  from s have e: "poolEntry v (watchNamespace s) (world s) (om_Name (fsc_Meta inst)) \<noteq> None"
    "poolEntry v (watchNamespace s) (world s) PoolsKey = None" by (simp_all add: inPlace_def)
  from wp_runD [OF wp_ensureScPoolConfigMap_settled [OF laws e] run] confinedD(2,3) [OF confined_ensureScPoolConfigMap [OF laws] run]
  show "quiet v s t" by (auto simp: within_def writesTo_def)
qed

subsection \<open>The exporter objects\<close>

lemma quiet_deleteOld:
  "list_all (\<lambda>x. \<not> isOldObject (om_Labels (metaOf (f x))) (om_Name (metaOf (f x)))) xs \<Longrightarrow>
   wpre (forErr (\<lambda>x. deleteOld E (f x)) xs) (\<lambda>r t. t = s) s"
  by (induction xs) (auto simp: deleteOld_def wp)

lemma quiet_deleteDuplicated:
  assumes laws: "api_laws E v" and con: "\<And>x y. proj x = Some y \<Longrightarrow> x = con y"
    and young: "\<And>n x. v (world s) (k, om_Namespace (fsc_Meta inst), n) = Some x \<Longrightarrow> \<not> isOldObject (om_Labels (metaOf x)) (om_Name (metaOf x))"
  shows "wpre (do { r \<leftarrow> getObjectListByLabel E inst proj k;
     (case r of Inl e \<Rightarrow> ret (Inl e) | Inr items \<Rightarrow> forErr (\<lambda>x. deleteOld E (con x)) items) }) (\<lambda>r t. quiet v s t) s"
  unfolding getObjectListByLabel_def wp_bind
proof (rule wp_listAs_laws [OF laws], goal_cases)
  case (1 e r w)
  then show ?case by (simp add: wp_ret quiet_read del: split_paired_All)
next
  case (2 xs w)
  have "list_all (\<lambda>x. \<not> isOldObject (om_Labels (metaOf (con x))) (om_Name (metaOf (con x)))) (map (the \<circ> proj) xs)"
    unfolding list_all_length
  proof (intro allI impI)
    fix i
    assume i: "i < length (map (the \<circ> proj) xs)"
    let ?x = "xs ! i"
    from i 2(2) obtain y where y: "proj ?x = Some y" by (auto simp: list_all_length)
    from i 2(3) [of ?x] have "v (world s) (k, om_Namespace (fsc_Meta inst), om_Name (metaOf ?x)) = Some ?x"
      by (auto simp: selects_def keyOf_def)
    from young [OF this] con [OF y] y i
    show "\<not> isOldObject (om_Labels (metaOf (con (map (the \<circ> proj) xs ! i)))) (om_Name (metaOf (con (map (the \<circ> proj) xs ! i))))"
      by simp
  qed
  then show ?case
    unfolding sum.case by (rule wp_mono [OF quiet_deleteOld]) (simp add: quiet_read [OF 2(1)])
qed

context placed
begin

lemma quiet_place:
  assumes laws: "api_laws E v" and x: "v (world s) (k, om_Namespace (meta expected), om_Name (meta expected)) = Some (con x)"
    and conf: "conforms x" "ownedMeta (meta x) new"
  shows "wpre (place E upd proj con expected new) (\<lambda>r t. quiet v s t) s"
proof -
  from conf have none: "upd x new = None" by (simp add: settled)
  have inj: "con a = con b \<longleftrightarrow> a = b" for a b using proj by (metis option.inject)
  show ?thesis
    unfolding place_def metaOf_con kindOf_con wp_bind [of "getAs _ _ _ _ _"]
    by (rule wp_get_quiet [OF laws]) (use x none in \<open>auto simp: wp proj inj\<close>)
qed

end

lemma wp_quiet_then:
  assumes "wpre m (\<lambda>r t. quiet v s t) s" and "\<And>x t. quiet v s t \<Longrightarrow> wpre (k x) (\<lambda>r u. quiet v t u) t"
  shows "wpre (do { d \<leftarrow> m; (case d of Inl e \<Rightarrow> ret (Inl e) | Inr x \<Rightarrow> k x) }) (\<lambda>r t. quiet v s t) s"
  unfolding wp_bind
  by (rule wp_mono [OF assms(1)])
    (auto simp: wp split: sum.split intro: wp_mono [OF assms(2)] quiet_trans)

lemma quiet_exporter:
  assumes laws: "api_laws E v" and s: "inPlace E v inst s"
  shows "wpre (ensureExporterService E inst (ownerOf inst)) (\<lambda>r t. quiet v s t) s"
    "wpre (ensureExporterDeployment E inst (ownerOf inst)) (\<lambda>r t. quiet v s t) s"
    "wpre (ensureExporterServiceMonitor E inst (ownerOf inst)) (\<lambda>r t. quiet v s t) s"
proof -
  have old: "wpre (deleteDuplicatedService E inst) (\<lambda>r t. quiet v s t) s" "wpre (deleteDuplicatedDeployment E inst) (\<lambda>r t. quiet v s t) s"
    "wpre (deleteDuplicatedServiceMonitor E inst) (\<lambda>r t. quiet v s t) s"
    unfolding deleteDuplicatedService_def deleteDuplicatedDeployment_def deleteDuplicatedServiceMonitor_def
    by (rule quiet_deleteDuplicated [OF laws], simp, use s in \<open>simp add: inPlace_def exporterAt_def\<close>)+
  show "wpre (ensureExporterService E inst (ownerOf inst)) (\<lambda>r t. quiet v s t) s"
    unfolding place_service
  proof (rule wp_quiet_then [OF old(1)], goal_cases)
    case (1 u t)
    from inPlace_quiet [OF this s] obtain x where x: "v (world t) (KService, om_Namespace (fsc_Meta inst), getExporterMetricsServiceName) = Some (OService x)"
      "serviceConforms x" "ownedMeta (svc_Meta x) (ownerOf inst)"
      by (auto simp: inPlace_def exporterAt_def split: option.splits)
    show ?case by (rule placedService.quiet_place [OF laws, where x = x]) (simp_all add: x expected_meta)
  qed
  show "wpre (ensureExporterDeployment E inst (ownerOf inst)) (\<lambda>r t. quiet v s t) s"
    unfolding place_deployment
  proof (rule wp_quiet_then [OF old(2)], rule wp_quiet_then, goal_cases)
    case (1 u t)
    show ?case by (rule wp_get_quiet [OF laws]) simp_all
  next
    case (2 u t sec t')
    from inPlace_quiet [OF 2(2) inPlace_quiet [OF 2(1) s]] obtain x
      where x: "v (world t') (KDeployment, om_Namespace (fsc_Meta inst), getExporterDeploymentName) = Some (ODeployment x)"
        "deploymentConforms inst (exporterImage E) x" "ownedMeta (dep_Meta x) (ownerOf inst)"
      by (auto simp: inPlace_def exporterAt_def split: option.splits)
    show ?case by (rule placedDeployment.quiet_place [OF laws, where x = x]) (simp_all add: x expected_meta expectedDeployment_meta)
  qed
  show "wpre (ensureExporterServiceMonitor E inst (ownerOf inst)) (\<lambda>r t. quiet v s t) s"
    unfolding place_monitor
  proof (rule wp_quiet_then [OF old(3)], goal_cases)
    case (1 u t)
    from inPlace_quiet [OF this s] obtain x where x: "v (world t) (KServiceMonitor, om_Namespace (fsc_Meta inst), getExporterMetricsServiceMonitorName) = Some (OServiceMonitor x)"
      "monitorConforms inst x" "ownedMeta (sm_Meta x) (ownerOf inst)"
      by (auto simp: inPlace_def exporterAt_def split: option.splits)
    show ?case by (rule placedMonitor.quiet_place [OF laws, where x = x]) (simp_all add: x expected_meta)
  qed
qed

section \<open>The pass\<close>

text \<open>
  \<open>rest\<close>: from a state reached from \<open>s\<close> by reads only, the rest of a pass writes rules and events.
\<close>

abbreviation calmly :: "'w view \<Rightarrow> 'w st \<Rightarrow> 'w st \<Rightarrow> bool" where
  "calmly v \<equiv> within v {KPromRule, KEvent}"

lemma wp_attempt_calm:
  assumes m: "wpre m (\<lambda>r t. quiet v s t) s" and k: "\<And>t. quiet v s t \<Longrightarrow> wpre k (\<lambda>y u. calmly v t u) t"
    and h: "\<And>e t. wpre (h e) (\<lambda>y u. calmly v t u) t"
  shows "wpre (attempt m i h k) (\<lambda>y t. calmly v s t) s"
proof -
  have t: "calmly v s u" if "quiet v s t" "calmly v t u" for t u using within_trans [OF that] by simp
  have z: "calmly v s t" if "quiet v s t" for t by (rule t [OF that]) simp
  show ?thesis
    unfolding attempt_def wp_bind
    by (rule wp_mono [OF m]) (auto simp: wp z split: res.split intro: wp_mono [OF k] wp_mono [OF h] t)
qed

lemma calm_fail:
  assumes laws: "api_laws E v"
  shows "wpre (failStep E i step reason e) (\<lambda>y t. calmly v s t) s" "wpre (failProvisioner E i e) (\<lambda>y t. calmly v s t) s"
proof -
  have c: "confined v K (SetStatusCondition E cs c)" for K cs c
    unfolding SetStatusCondition_def Let_def by (intro confined_intro confined_now laws)
  have "confined v {KPromRule, KEvent} (failStep E i step reason e)" "confined v {KPromRule, KEvent} (failProvisioner E i e)"
    unfolding failStep_def failProvisioner_def SetReconcileErrorCondition_def SetReconcileProvisionerErrorCondition_def Let_def
    by (intro confined_intro c confined_createEvent [OF laws]; simp)+
  then show "wpre (failStep E i step reason e) (\<lambda>y t. calmly v s t) s" "wpre (failProvisioner E i e) (\<lambda>y t. calmly v s t) s"
    by (auto intro: wp_within)
qed

lemma quiet_lift: "wpre m (\<lambda>r t. quiet v s t) s \<Longrightarrow> wpre (lift m) (\<lambda>r t. quiet v s t) s"
  unfolding lift_def wp_bind by (erule wp_mono) (simp add: wp)

lemma calm_rules:
  assumes laws: "api_laws E v"
  shows "wpre (attempt (enablePrometheusRules E i ow) i
    (failStep E i ''enablePrometheusRules'' FailedCreatePromRuleReason) (finish E i)) (\<lambda>y t. calmly v s t) s"
proof -
  have c: "confined v {KPromRule, KEvent} (attempt (enablePrometheusRules E i ow) i h (finish E i))" if "\<And>e. confined v {KPromRule, KEvent} (h e)" for h
    unfolding attempt_def enablePrometheusRules_def CreateOrUpdatePrometheusRules_def getPrometheusRules_def Let_def finish_def
      SetReconcileCompleteCondition_def SetStatusCondition_def
    by (intro confined_intro confined_client confined_now that laws) simp_all
  have "confined v {KPromRule, KEvent} (failStep E i step reason e)" for step reason e
    unfolding failStep_def SetReconcileErrorCondition_def SetStatusCondition_def Let_def
    by (intro confined_intro confined_now confined_createEvent laws; simp)
  from c [OF this] show ?thesis by (rule wp_within)
qed

lemma reconcileSteps_rests:
  assumes laws: "api_laws E v" and s: "inPlace E v inst s"
  shows "wpre (reconcileSteps E inst (ownerOf inst)) (\<lambda>y t. calmly v s t) s"
proof -
  note fail = calm_fail [OF laws]
  have cond: "wpre (SetStatusCondition E cs c) (\<lambda>r u. quiet v t u) t" for cs c and t :: "'a st"
    by (rule wp_within [OF confined_SetStatusCondition [OF laws]])
  have csi: "wpre (ensureFlashSystemCSICR E inst) (\<lambda>r u. quiet v t u) t" if "inPlace E v inst t" for t
    using that by (simp add: ensureFlashSystemCSICR_def wp inPlace_def)
  have class': "wpre (ensureDefaultStorageClass E (setConditions cs inst)) (\<lambda>r u. quiet v t u) t" if "inPlace E v inst t" for cs t
    by (rule quiet_class [OF laws]) (use that inPlace_setConditions [of E v cs inst t] in \<open>simp add: inPlace_def del: inPlace_setConditions\<close>)
  have secret: "wpre (ensureSecretOwnership E inst ow) (\<lambda>r u. quiet v t u) t" if "inPlace E v inst t" for ow t
    by (rule quiet_secret [OF laws]) (use that in \<open>simp add: inPlace_def\<close>)
  note step = wp_attempt_calm [OF quiet_lift]
  note place = inPlace_quiet [where E = E and v = v and inst = inst]
  have last: "wpre (do {
     cs \<leftarrow> SetStatusCondition E (conditionsOf inst) (mkCond ExporterCreated ConditionTrue [] []);
     (let inst' = setConditions cs inst in
     attempt (lift (ensureDefaultStorageClass E inst')) inst'
       (failStep E inst' ''ensureDefaultStorageClass'' FailedCreateStorageClassReason) (
     attempt (enablePrometheusRules E inst' (ownerOf inst)) inst'
       (failStep E inst' ''enablePrometheusRules'' FailedCreatePromRuleReason) (
     finish E inst'))) }) (\<lambda>y u. calmly v t u) t" if "inPlace E v inst t" for t
    unfolding wp_bind Let_def
  proof (rule wp_mono [OF cond], goal_cases)
    case (1 cs u)
    have "wpre (attempt (lift (ensureDefaultStorageClass E (setConditions cs inst))) (setConditions cs inst)
       (failStep E (setConditions cs inst) ''ensureDefaultStorageClass'' FailedCreateStorageClassReason) (
     attempt (enablePrometheusRules E (setConditions cs inst) (ownerOf inst)) (setConditions cs inst)
       (failStep E (setConditions cs inst) ''enablePrometheusRules'' FailedCreatePromRuleReason) (
     finish E (setConditions cs inst)))) (\<lambda>y u'. calmly v u u') u"
      by (rule step [OF class' [OF place [OF 1 that]] calm_rules [OF laws] fail(1)])
    then show ?case by (rule wp_mono) (use within_trans [OF 1] in simp)
  qed
  show ?thesis
    unfolding reconcileSteps_def
    by (rule step [OF secret [OF s] _ fail(1)], drule place [OF _ s], rule step [OF csi _ fail(2)], assumption, drule (1) place,
        rule wp_attempt_calm [OF quiet_pools [OF laws] _ fail(1)], assumption, drule (1) place,
        rule step [OF quiet_exporter(1) [OF laws] _ fail(1)], assumption, drule (1) place,
        rule step [OF quiet_exporter(2) [OF laws] _ fail(1)], assumption, drule (1) place,
        rule step [OF quiet_exporter(3) [OF laws] _ fail(1)], assumption, drule (1) place, rule last)
qed

text \<open>Besides rules and events a pass writes the status of its instance.\<close>

definition restWrite :: "req \<Rightarrow> bool" where
  "restWrite q \<longleftrightarrow> isWrite q \<longrightarrow> reqKind q \<in> {KPromRule, KEvent} \<or> (\<exists>i. q = RStatusUpdate (OFsc i))"

definition rested :: "'w view \<Rightarrow> 'w st \<Rightarrow> 'w st \<Rightarrow> bool" where
  "rested v s t \<longleftrightarrow> (\<forall>k n m. k \<notin> {KPromRule, KEvent, KFsc} \<longrightarrow> v (world t) (k, n, m) = v (world s) (k, n, m)) \<and>
    (\<exists>xs. calls t = calls s @ xs \<and> list_all (restWrite \<circ> fst) xs)"


section \<open>A concrete cluster in place\<close>

definition restSecret :: Secret where
  "restSecret = demoSecret\<lparr>sec_Meta := SetOwnerReferences [ownerOf demoFsc] (sec_Meta demoSecret)\<rparr>"

definition restClass :: StorageClass where
  "restClass = (case InitDefaultStorageClass demoFsc of Some x \<Rightarrow> x)"

definition restStart :: "store st" where
  "restStart = (demoState [OFsc demoFsc, OSecret restSecret, OConfigMap demoCm, OService (InitExporterMetricsService demoFsc),
     ODeployment (expectedDeployment demoFsc []), OServiceMonitor (InitExporterMetricsServiceMonitor demoFsc),
     OStorageClass restClass])\<lparr>IsCSICRCreated := True\<rparr>"

lemma rest_objects:
  "storeView (world restStart) (KFsc, ''ns'', ''fs1'') = Some (OFsc demoFsc)"
  "storeView (world restStart) (KSecret, ''ns'', ''fs-secret'') = Some (OSecret restSecret)"
  "om_OwnerReferences (sec_Meta restSecret) \<noteq> None"
  "storeView (world restStart) (KStorageClass, [], ''sc1'') = Some (OStorageClass restClass)"
  "storeView (world restStart) (KService, ''ns'', getExporterMetricsServiceName) = Some (OService (InitExporterMetricsService demoFsc))"
  "storeView (world restStart) (KDeployment, ''ns'', getExporterDeploymentName) = Some (ODeployment (expectedDeployment demoFsc []))"
  "storeView (world restStart) (KServiceMonitor, ''ns'', getExporterMetricsServiceMonitorName) =
     Some (OServiceMonitor (InitExporterMetricsServiceMonitor demoFsc))"
  "poolEntry storeView ''ns'' (world restStart) ''fs1'' \<noteq> None" "poolEntry storeView ''ns'' (world restStart) PoolsKey = None"
  "list_all (\<lambda>x. \<not> isOldObject (om_Labels (metaOf x)) (om_Name (metaOf x))) (objs (world restStart))"
  "IsContain (om_Finalizers (fsc_Meta demoFsc)) flashSystemClusterFinalizer"
  by code_simp+

lemma rest_inPlace: "inPlace storeEnv storeView demoFsc restStart"
proof -
  have young: "\<not> isOldObject (om_Labels (metaOf x)) (om_Name (metaOf x))" if "storeView (world restStart) k = Some x" for k x
    using that rest_objects(10) by (auto simp: storeView_def list_all_iff dest: lookupObj_Some)
  have f: "sr_Namespace (fs_Secret (fsc_Spec demoFsc)) = ''ns''" "sr_Name (fs_Secret (fsc_Spec demoFsc)) = ''fs-secret''"
    "om_Namespace (fsc_Meta demoFsc) = ''ns''" "om_Name (fsc_Meta demoFsc) = ''fs1''"
    "IsCSICRCreated restStart" "watchNamespace restStart = ''ns''" "exporterImage storeEnv = []"
    by code_simp+
  have c: "InitDefaultStorageClass demoFsc = Some restClass" "map_option scc_StorageClassName (fs_DefaultPool (fsc_Spec demoFsc)) = Some ''sc1''"
    "compareDefaultStorageClass restClass restClass"
    by code_simp+
  have conf: "serviceConforms (InitExporterMetricsService demoFsc)" "deploymentConforms demoFsc [] (expectedDeployment demoFsc [])"
    "monitorConforms demoFsc (InitExporterMetricsServiceMonitor demoFsc)"
    "ownedMeta (svc_Meta (InitExporterMetricsService demoFsc)) (ownerOf demoFsc)"
    "ownedMeta (dep_Meta (expectedDeployment demoFsc [])) (ownerOf demoFsc)"
    "ownedMeta (sm_Meta (InitExporterMetricsServiceMonitor demoFsc)) (ownerOf demoFsc)"
    by code_simp+
  show ?thesis
    unfolding inPlace_def exporterAt_def f
    using young rest_objects conf c by (auto simp: secretOwned_def classInPlace_def f split: option.splits)
qed


end
