(* ===== verification/StatusSpec.thy ===== *)
theory StatusSpec
  imports FscSpec
begin

text \<open>
  The status of a FlashSystemCluster: what setting and removing a condition does, and what a pass
  reports to the server.
\<close>

section \<open>One condition\<close>

definition condOf :: "Condition list \<Rightarrow> ConditionType \<Rightarrow> Condition option" where
  "condOf cs ty = map_option (nth cs) (FindStatusCondition cs ty)"

lemma condOf_Nil [simp]: "condOf [] ty = None"
  by (simp add: condOf_def)

lemma condOf_Cons [simp]: "condOf (c # cs) ty = (if c_Type c = ty then Some c else condOf cs ty)"
  by (simp add: condOf_def option.map_comp comp_def)

lemma condOf_snoc: "condOf (cs @ [c]) ty = (case condOf cs ty of Some d \<Rightarrow> Some d | None \<Rightarrow> if c_Type c = ty then Some c else None)"
  by (induction cs) auto

lemma condOf_update:
  assumes "FindStatusCondition cs (c_Type d) = Some i"
  shows "condOf (cs[i := d]) ty = (if ty = c_Type d then Some d else condOf cs ty)"
  using assms by (induction cs arbitrary: i) (auto split: if_splits)

lemma condOf_eq: "FindStatusCondition cs ty = Some i \<Longrightarrow> condOf cs ty = Some (cs ! i)" "FindStatusCondition cs ty = None \<Longrightarrow> condOf cs ty = None"
  by (simp_all add: condOf_def)

text \<open>The condition a setter leaves, from the one it found.\<close>

definition newCond :: "int \<Rightarrow> int \<Rightarrow> Condition option \<Rightarrow> Condition \<Rightarrow> Condition" where
  "newCond t1 t2 old c = c\<lparr>c_LastHeartbeatTime := t2,
     c_LastTransitionTime := (case old of Some d \<Rightarrow> if c_Status d = c_Status c then c_LastTransitionTime d else t1 | None \<Rightarrow> t1)\<rparr>"

lemma condOf_setCond: "condOf (setCond t1 t2 cs c) ty = (if ty = c_Type c then Some (newCond t1 t2 (condOf cs ty) c) else condOf cs ty)"
proof (cases "FindStatusCondition cs (c_Type c)")
  case None
  then show ?thesis by (auto simp: setCond_def condOf_snoc condOf_eq newCond_def split: option.split)
next
  case (Some i)
  then have "c_Type (cs ! i) = c_Type c" by (auto dest: Find_SomeD)
  with Some show ?thesis
    by (auto simp: setCond_def condOf_update condOf_eq newCond_def)
qed

lemma wp_SetStatusCondition_times:
  assumes "\<And>t1 t2 w w1 w2. t1 = fst (timeNow E w1) \<Longrightarrow> t2 = fst (timeNow E w2) \<Longrightarrow> Q (setCond t1 t2 cs c) (s\<lparr>world := w\<rparr>)"
  shows "wpre (SetStatusCondition E cs c) Q s"
proof (cases "FindStatusCondition cs (c_Type c)")
  case None
  show ?thesis
    using assms [OF refl refl] None
    by (simp add: SetStatusCondition_def setCond_def wp wp_now split: prod.splits) (metis fst_conv)
next
  case (Some i)
  have same: "x\<lparr>c_Status := v\<rparr> = x" if "c_Status x = v" for x :: Condition and v
    using that by (cases x) simp
  from assms [OF refl refl] Some show ?thesis
    by (cases "c_Status (cs ! i) = c_Status c")
      (simp_all add: SetStatusCondition_def setCond_def wp wp_now same split: prod.splits, (metis fst_conv)+)
qed

text \<open>
  C28: Setting a condition. The list then has the condition of its type with the new status, reason and message
  and a heartbeat read from the clock; its transition time is kept when the status is what it was, and
  read from the clock otherwise; the conditions of every other type are as they were, and a list
  with at most one condition per type stays one.
\<close>

theorem SetStatusCondition_correct:
  assumes "run_state (SetStatusCondition E cs c) s = (cs', t)"
  shows "(\<exists>d w1 w2. condOf cs' (c_Type c) = Some d \<and> c_Status d = c_Status c \<and> c_Reason d = c_Reason c \<and>
      c_Message d = c_Message c \<and> c_LastHeartbeatTime d = fst (timeNow E w2) \<and>
      c_LastTransitionTime d =
        (case condOf cs (c_Type c) of
           Some old \<Rightarrow> if c_Status old = c_Status c then c_LastTransitionTime old else fst (timeNow E w1)
         | None \<Rightarrow> fst (timeNow E w1))) \<and>
    (\<forall>ty. ty = c_Type c \<or> condOf cs' ty = condOf cs ty) \<and>
    (distinct (map c_Type cs) \<longrightarrow> distinct (map c_Type cs'))"
proof -
  have "wpre (SetStatusCondition E cs c) (\<lambda>cs' t. \<exists>w1 w2. cs' = setCond (fst (timeNow E w1)) (fst (timeNow E w2)) cs c) s"
    by (rule wp_SetStatusCondition_times) auto
  with assms obtain w1 w2 where cs': "cs' = setCond (fst (timeNow E w1)) (fst (timeNow E w2)) cs c"
    by (auto simp: wpre_def)
  let ?d = "newCond (fst (timeNow E w1)) (fst (timeNow E w2)) (condOf cs (c_Type c)) c"
  have "condOf cs' (c_Type c) = Some ?d"
    by (simp add: cs' condOf_setCond)
  then have "\<exists>d w1 w2. condOf cs' (c_Type c) = Some d \<and> c_Status d = c_Status c \<and> c_Reason d = c_Reason c \<and>
      c_Message d = c_Message c \<and> c_LastHeartbeatTime d = fst (timeNow E w2) \<and>
      c_LastTransitionTime d =
        (case condOf cs (c_Type c) of
           Some old \<Rightarrow> if c_Status old = c_Status c then c_LastTransitionTime old else fst (timeNow E w1)
         | None \<Rightarrow> fst (timeNow E w1))"
    by - (rule exI [of _ ?d], rule exI [of _ w1], rule exI [of _ w2], simp add: newCond_def split: option.split)
  moreover have "distinct (map c_Type cs) \<longrightarrow> distinct (map c_Type cs')"
    using setCond_condInv by (simp add: cs' condInv_def)
  ultimately show ?thesis
    by (simp add: cs' condOf_setCond)
qed

theorem SetStatusCondition_correct_witness:
  "\<exists>cs t. run_state (SetStatusCondition storeEnv [mkCond ProvisionerReady ConditionTrue [] [], mkCond ExporterReady ConditionTrue [] []]
       (mkCond ProvisionerReady ConditionFalse ''r'' ''m'')) demoStart = (cs, t) \<and>
     condOf cs ExporterReady = Some (mkCond ExporterReady ConditionTrue [] []) \<and> distinct (map c_Type cs)"
proof -
  let ?cs = "[mkCond ProvisionerReady ConditionTrue [] [], mkCond ExporterReady ConditionTrue [] []]"
  let ?c = "mkCond ProvisionerReady ConditionFalse ''r'' ''m''"
  obtain cs t where run: "run_state (SetStatusCondition storeEnv ?cs ?c) demoStart = (cs, t)" by fastforce
  have "condOf ?cs ExporterReady = Some (mkCond ExporterReady ConditionTrue [] [])" "distinct (map c_Type ?cs)"
    "ExporterReady \<noteq> c_Type ?c"
    by code_simp+
  with SetStatusCondition_correct [OF run] run show ?thesis by metis
qed

text \<open>
  Removing a condition: no condition of the type is left, the conditions of every other type are as they
  were and in the same order, and a condition that has just been added to a list without its type is
  removed without a trace.
\<close>

theorem RemoveStatusCondition_correct:
  "condOf (RemoveStatusCondition cs ty) ty' = (if ty' = ty then None else condOf cs ty') \<and>
   RemoveStatusCondition (setCond t1 t2 cs c) (c_Type c) = RemoveStatusCondition cs (c_Type c)"
proof
  show "condOf (RemoveStatusCondition cs ty) ty' = (if ty' = ty then None else condOf cs ty')"
    by (induction cs) (auto simp: RemoveStatusCondition_def)
  have upd: "filter (\<lambda>d. c_Type d \<noteq> ty) (cs[i := d]) = filter (\<lambda>d. c_Type d \<noteq> ty) cs"
    if "c_Type d = ty" "i < length cs" "c_Type (cs ! i) = ty" for ty i d and cs :: "Condition list"
    using that
  proof (induction cs arbitrary: i)
    case (Cons x xs)
    then show ?case by (cases i) auto
  qed simp
  show "RemoveStatusCondition (setCond t1 t2 cs c) (c_Type c) = RemoveStatusCondition cs (c_Type c)"
  proof (cases "FindStatusCondition cs (c_Type c)")
    case None
    then show ?thesis by (simp add: RemoveStatusCondition_def setCond_def)
  next
    case (Some i)
    then have "i < length cs" "c_Type (cs ! i) = c_Type c" by (auto dest: Find_SomeD)
    with Some show ?thesis by (simp add: RemoveStatusCondition_def setCond_def upd)
  qed
qed

section \<open>What a pass reports\<close>

definition reported :: "'w st \<Rightarrow> request \<Rightarrow> Result res \<Rightarrow> 'w st \<Rightarrow> bool" where
  "reported s rq r t \<longleftrightarrow>
     (case r of
        Panic p \<Rightarrow> True
      | Ok res \<Rightarrow> \<exists>pre x y. calls t = calls s @ pre @ [(RStatusUpdate (OFsc x), ROk y)] \<and>
          distinct (map c_Type (conditionsOf x)) \<and> completeStatus x
      | Err e \<Rightarrow> (\<exists>y. calls t = calls s @ [(RGet KFsc (fst rq) (snd rq), y)]) \<or>
          (\<exists>pre x y. calls t = calls s @ pre @ [(RStatusUpdate (OFsc x), y)] \<and>
             distinct (map c_Type (conditionsOf x)) \<and>
             (failedStatus x \<or> completeStatus x \<and> decodeOne asFsc y = Inl e)))"

lemma wp_Reconcile_reports:
  assumes laws: "api_laws E v" and found: "v (world s) (KFsc, fst rq, snd rq) = Some (OFsc inst)"
    and live: "om_DeletionTimestamp (fsc_Meta inst) = None" "IsContain (om_Finalizers (fsc_Meta inst)) flashSystemClusterFinalizer"
    and one: "condInv (conditionsOf inst)"
  shows "wpre (Reconcile E rq) (reported s rq) s"
  unfolding Reconcile_def wp_bind [of "getAs _ _ _ _ _"]
proof (rule wp_getAs_laws [OF laws], goal_cases)
  case (1 e r w)
  with found have "\<not> IsNotFound e" by auto
  then show ?case by (simp add: wp reported_def)
next
  case (2 x i w)
  let ?s = "afterCall (RGet KFsc (fst rq) (snd rq)) (ROk x) w s"
  from 2 found have i: "i = inst" by simp
  have eq: "reconcile E inst = reconcileSteps E inst (ownerOf inst)"
    using live by (simp add: reconcile_def Let_def)
  show ?case
    unfolding sum.case i eq wp_bind [of "reconcileSteps _ _ _"]
  proof (rule wp_runI)
    fix y t
    assume run: "run_state (reconcileSteps E inst (ownerOf inst)) ?s = (y, t)"
    then obtain pre where pre: "calls t = calls s @ pre"
      by (rule issuesE [OF live_reconcileSteps]) simp
    from wp_runD [OF reconcileSteps_post run] one have post: "condInv (conditionsOf (fst y))"
      "case snd y of Ok _ \<Rightarrow> completeStatus (fst y) | Err e \<Rightarrow> failedStatus (fst y) | Panic p \<Rightarrow> True"
      by (simp_all add: stepsPost_def)
    show "wpre (case snd y of
         Panic p \<Rightarrow> ret (Panic p)
       | Err e \<Rightarrow> do { st \<leftarrow> statusUpdateAs E asFsc (OFsc (fst y)); ret (Err e) }
       | Ok _ \<Rightarrow> do {
           st \<leftarrow> statusUpdateAs E asFsc (OFsc (fst y));
           (case st of Inl statusError \<Rightarrow> ret (Err statusError) | Inr _ \<Rightarrow> ret (Ok emptyResult))
         }) (reported s rq) t"
    proof (cases "snd y")
      case (Ok u)
      show ?thesis
        unfolding Ok res.case wp_bind statusUpdateAs_def
        by (rule wp_call_any)
          (use Ok pre post in \<open>auto simp: wp reported_def condInv_def decodeOne_def split: sum.splits resp.splits option.splits\<close>)
    next
      case (Err e)
      show ?thesis
        unfolding Err res.case wp_bind statusUpdateAs_def
        by (rule wp_call_any) (use Err pre post in \<open>auto simp: wp reported_def condInv_def\<close>)
    qed (simp add: wp reported_def)
  qed
qed



end
