(* ===== verification/ScController.thy ===== *)
theory ScController
  imports FscReconcile
begin

text \<open>
  \<^verbatim>\<open>controllers/storageclass/storageclass_controller.go\<close>: the watcher that keeps, in the pools ConfigMap, the
  storage classes of every FlashSystemCluster with their pools.
\<close>

section \<open>Event filter and mappers\<close>

definition reconcileSC :: "kobj \<Rightarrow> bool" where
  "reconcileSC obj =
     (case asStorageClass obj of None \<Rightarrow> False | Some sc \<Rightarrow> sc_Provisioner sc = CsiIBMBlockDriver)"

fun scPredicate :: "event \<Rightarrow> bool" where
  "scPredicate (CreateEvent x) = reconcileSC x"
| "scPredicate (DeleteEvent x) = reconcileSC x"
| "scPredicate (UpdateEvent old new) = reconcileSC new"
| "scPredicate (GenericEvent x) = reconcileSC x"

definition blockClassRequests :: "StorageClass list \<Rightarrow> request list" where
  "blockClassRequests scs =
     map (\<lambda>sc. reqOf (sc_Meta sc)) (filter (\<lambda>sc. sc_Provisioner sc = CsiIBMBlockDriver) scs)"

definition ConfigMapToStorageClassMapFunc :: "'w env \<Rightarrow> kobj \<Rightarrow> ('w, request list) oper" where
  "ConfigMapToStorageClassMapFunc E obj =
     (if om_Name (metaOf obj) = PoolConfigmapName then do {
        r \<leftarrow> listAs E asStorageClass KStorageClass None [];
        (case r of Inl e \<Rightarrow> ret [] | Inr scs \<Rightarrow> ret (blockClassRequests scs))
      } else ret [])"

definition fscStorageClassMap :: "'w env \<Rightarrow> kobj \<Rightarrow> ('w, request list) oper" where
  "fscStorageClassMap E obj = do {
     r \<leftarrow> listAs E asStorageClass KStorageClass None [];
     (case r of Inl e \<Rightarrow> ret [] | Inr scs \<Rightarrow> ret (blockClassRequests scs))
   }"

definition usesSecret :: "Secret \<Rightarrow> StorageClass \<Rightarrow> bool" where
  "usesSecret secret sc =
     (case GetStorageClassSecretNamespacedName sc of
        Inl e \<Rightarrow> False
      | Inr (n, ns) \<Rightarrow> n = om_Name (sec_Meta secret) \<and> ns = om_Namespace (sec_Meta secret))"

definition secretStorageClassMap :: "'w env \<Rightarrow> kobj \<Rightarrow> ('w, request list) oper" where
  "secretStorageClassMap E obj =
     (case asSecret obj of
        None \<Rightarrow> ret []
      | Some secret \<Rightarrow> do {
          r \<leftarrow> listAs E asStorageClass KStorageClass None [];
          (case r of
             Inl e \<Rightarrow> ret []
           | Inr scs \<Rightarrow>
               (let isFscSecret = IsFSCSecret (om_Name (sec_Meta secret)) in
                ret (map (\<lambda>sc. reqOf (sc_Meta sc))
                  (filter (\<lambda>sc. sc_Provisioner sc = CsiIBMBlockDriver \<and> (isFscSecret \<or> usesSecret secret sc)) scs))))
        })"

section \<open>The entries of the ConfigMap\<close>

text \<open>
  The ConfigMap is passed by value: its metadata, with the resource version, is a copy, while its
  data is a map shared with the caller. An update decodes the server's answer into the copy, so the
  caller keeps the resource version it has read. The operations return the shared data.
\<close>

type_synonym cmdata = "(string, string) gomap"

definition removeStorageClassFromConfigMap :: "'w env \<Rightarrow> ConfigMap \<Rightarrow> string \<Rightarrow> string
    \<Rightarrow> ('w, cmdata \<times> unit res) oper" where
  "removeStorageClassFromConfigMap E configMap fscName scName =
     (case mget (cm_Data configMap) fscName of
        None \<Rightarrow> ret (cm_Data configMap, Ok ())
      | Some fscContent \<Rightarrow>
          (case kUnmarshal E fscContent of
             Inl e \<Rightarrow> ret (cm_Data configMap, Err e)
           | Inr fsMap \<Rightarrow>
               (case kMarshal E (fsMap\<lparr>ScPoolMap := mdel (ScPoolMap fsMap) scName\<rparr>) of
                  Inl e \<Rightarrow> ret (cm_Data configMap, Err e)
                | Inr val \<Rightarrow>
                    (let d = mput (cm_Data configMap) fscName val in do {
                       r \<leftarrow> updateAs E asConfigMap (OConfigMap (configMap\<lparr>cm_Data := d\<rparr>));
                       (case r of Inl e \<Rightarrow> ret (d, Err e) | Inr _ \<Rightarrow> ret (d, Ok ()))
                     }))))"

definition missingEntryErr :: goerr where
  "missingEntryErr = FmtError ''failed to get FlashSystemCluster entry from pools ConfigMap''"

definition addStorageClassToConfigMap :: "'w env \<Rightarrow> ConfigMap \<Rightarrow> string \<Rightarrow> string \<Rightarrow> string
    \<Rightarrow> ('w, cmdata \<times> unit res) oper" where
  "addStorageClassToConfigMap E configMap fscName scName poolName =
     (case mget (cm_Data configMap) fscName of
        None \<Rightarrow> ret (cm_Data configMap, Err missingEntryErr)
      | Some fscContent \<Rightarrow>
          (case kUnmarshal E fscContent of
             Inl e \<Rightarrow> ret (cm_Data configMap, Err e)
           | Inr fsMap \<Rightarrow>
               (case mset (ScPoolMap fsMap) scName poolName of
                  None \<Rightarrow> ret (cm_Data configMap, Panic ''assignment to entry in nil map'')
                | Some m \<Rightarrow>
                    (case kMarshal E (fsMap\<lparr>ScPoolMap := m\<rparr>) of
                       Inl e \<Rightarrow> ret (cm_Data configMap, Err e)
                     | Inr val \<Rightarrow>
                         (let d = mput (cm_Data configMap) fscName val in do {
                            r \<leftarrow> updateAs E asConfigMap (OConfigMap (configMap\<lparr>cm_Data := d\<rparr>));
                            (case r of Inl e \<Rightarrow> ret (d, Err e) | Inr _ \<Rightarrow> ret (d, Ok ()))
                          })))))"

section \<open>Which clusters a storage class belongs to\<close>

text \<open>A member of a decoded JSON object; a key that occurs twice has its last value.\<close>

definition jget :: "(string \<times> json) list \<Rightarrow> string \<Rightarrow> json option" where
  "jget ms k = map_of (rev ms) k"

text \<open>\<^verbatim>\<open>v.(map[string]interface{})[management_address].(string)\<close>: both assertions panic.\<close>

definition mgmtAddressOf :: "json \<Rightarrow> string res" where
  "mgmtAddressOf v =
     (case v of
        JObj ms \<Rightarrow>
          (case jget ms SecretManagementAddressKey of
             Some (JStr a) \<Rightarrow> Ok a
           | _ \<Rightarrow> Panic ''interface conversion: interface {} is not string'')
      | _ \<Rightarrow> Panic ''interface conversion: interface {} is not map[string]interface {}'')"

fun clustersByIdLoop :: "(string, json) gomap \<Rightarrow> (string, FlashSystemCluster) gomap \<Rightarrow> string list
    \<Rightarrow> (string, FlashSystemCluster) gomap \<Rightarrow> (string, FlashSystemCluster) gomap res" where
  "clustersByIdLoop secretData byAddr [] m = Ok m"
| "clustersByIdLoop secretData byAddr (mgmtId # ids) m =
     (case mget secretData mgmtId of
        None \<Rightarrow> clustersByIdLoop secretData byAddr ids m
      | Some mgmtData \<Rightarrow>
          (case mgmtAddressOf mgmtData of
             Err e \<Rightarrow> Err e
           | Panic p \<Rightarrow> Panic p
           | Ok mgmtAddress \<Rightarrow>
               (case mget byAddr mgmtAddress of
                  Some cluster \<Rightarrow> clustersByIdLoop secretData byAddr ids (mput m mgmtId cluster)
                | None \<Rightarrow> clustersByIdLoop secretData byAddr ids m)))"

definition mapClustersByMgmtId :: "'w env \<Rightarrow> Secret \<Rightarrow> ('w, (string, FlashSystemCluster) gomap res) oper" where
  "mapClustersByMgmtId E topologySecret =
     (case kUnmarshalAny E (mgets (sec_Data topologySecret) TopologySecretDataKey) of
        Inl e \<Rightarrow> ret (Err e)
      | Inr secretData \<Rightarrow> do {
          r \<leftarrow> MapClustersByMgmtAddress E;
          (case r of
             Inl e \<Rightarrow> ret (Err e)
           | Inr byAddr \<Rightarrow> ret (clustersByIdLoop secretData byAddr (mkeys secretData) (MkMap [])))
        })"

definition missingIdErr :: goerr where
  "missingIdErr = FmtError ''failed to find the management id in the by_management_id parameter in the StorageClass''"

definition extractPoolName :: "StorageClass \<Rightarrow> (string, json) gomap \<Rightarrow> string \<Rightarrow> string res" where
  "extractPoolName sc mgmtDataByMgmtId mgmtId =
     (case mget mgmtDataByMgmtId mgmtId of
        None \<Rightarrow> Err missingIdErr
      | Some (JObj byMgmtIdData) \<Rightarrow>
          (case jget byMgmtIdData CsiIBMBlockScPool of
             Some (JStr poolName) \<Rightarrow> Ok poolName
           | _ \<Rightarrow> Ok (mgets (sc_Parameters sc) CsiIBMBlockScPool))
      | Some _ \<Rightarrow> Panic ''interface conversion: interface {} is not map[string]interface {}'')"

fun topologyPools :: "StorageClass \<Rightarrow> (string, json) gomap \<Rightarrow> (string, FlashSystemCluster) gomap
    \<Rightarrow> string list \<Rightarrow> (string, string) gomap \<Rightarrow> (string, string) gomap res" where
  "topologyPools sc mgmtData clusters [] m = Ok m"
| "topologyPools sc mgmtData clusters (mgmtId # ids) m =
     (case mget clusters mgmtId of
        None \<Rightarrow> topologyPools sc mgmtData clusters ids m
      | Some fsc \<Rightarrow>
          (case extractPoolName sc mgmtData mgmtId of
             Err e \<Rightarrow> Err e
           | Panic p \<Rightarrow> Panic p
           | Ok poolName \<Rightarrow> topologyPools sc mgmtData clusters ids (mput m (om_Name (fsc_Meta fsc)) poolName)))"

definition getFscByTopologyStorageClass :: "'w env \<Rightarrow> StorageClass \<Rightarrow> Secret \<Rightarrow> ('w, (string, string) gomap res) oper" where
  "getFscByTopologyStorageClass E sc storageClassSecret = do {
     r \<leftarrow> mapClustersByMgmtId E storageClassSecret;
     (case r of
        Err e \<Rightarrow> ret (Err e)
      | Panic p \<Rightarrow> ret (Panic p)
      | Ok clusters \<Rightarrow>
          (case kUnmarshalAny E (mgets (sc_Parameters sc) TopologyStorageClassByMgmtId) of
             Inl e \<Rightarrow> ret (Err e)
           | Inr mgmtData \<Rightarrow> ret (topologyPools sc mgmtData clusters (mkeys clusters) (MkMap []))))
   }"

fun regularLoop :: "'w env \<Rightarrow> StorageClass \<Rightarrow> string \<Rightarrow> FlashSystemCluster list
    \<Rightarrow> ('w, goerr + (string, string) gomap) oper" where
  "regularLoop E sc addr [] = ret (Inr (MkMap []))"
| "regularLoop E sc addr (c # cs) = do {
     r \<leftarrow> getAs E asSecret KSecret (sr_Namespace (fs_Secret (fsc_Spec c))) (sr_Name (fs_Secret (fsc_Spec c)));
     (case r of
        Inl e \<Rightarrow> ret (Inl e)
      | Inr clusterSecret \<Rightarrow>
          if mgets (sec_Data clusterSecret) SecretManagementAddressKey = addr
          then ret (Inr (mput (MkMap []) (om_Name (fsc_Meta c)) (mgets (sc_Parameters sc) CsiIBMBlockScPool)))
          else regularLoop E sc addr cs)
   }"

definition getFscByRegularStorageClass :: "'w env \<Rightarrow> StorageClass \<Rightarrow> Secret \<Rightarrow> ('w, goerr + (string, string) gomap) oper" where
  "getFscByRegularStorageClass E sc storageClassSecret = do {
     r \<leftarrow> listAs E asFsc KFsc None [];
     (case r of
        Inl e \<Rightarrow> ret (Inl e)
      | Inr clusters \<Rightarrow> regularLoop E sc (mgets (sec_Data storageClassSecret) SecretManagementAddressKey) clusters)
   }"

definition getFlashSystemClusterByStorageClass :: "'w env \<Rightarrow> StorageClass \<Rightarrow> bool \<Rightarrow> ('w, (string, string) gomap res) oper" where
  "getFlashSystemClusterByStorageClass E sc isTopology = do {
     s \<leftarrow> GetStorageClassSecret E sc;
     (case s of
        Inl e \<Rightarrow> ret (Err e)
      | Inr storageClassSecret \<Rightarrow>
          if isTopology then getFscByTopologyStorageClass E sc storageClassSecret
          else do { r \<leftarrow> getFscByRegularStorageClass E sc storageClassSecret; ret (of_sum r) })
   }"

section \<open>Reconciling a storage class\<close>

text \<open>The loop over the entries of the ConfigMap; \<open>data\<close> is the shared map.\<close>

fun updateEntries :: "'w env \<Rightarrow> string \<Rightarrow> bool \<Rightarrow> (string, string) gomap \<Rightarrow> ConfigMap \<Rightarrow> string list
    \<Rightarrow> ('w, unit res) oper" where
  "updateEntries E scName isSCDeleted fscToPoolsMap configMap [] = ret (Ok ())"
| "updateEntries E scName isSCDeleted fscToPoolsMap configMap (fscName # rest) =
     (if isSCDeleted then do {
        x \<leftarrow> removeStorageClassFromConfigMap E configMap fscName scName;
        (case snd x of
           Ok _ \<Rightarrow> updateEntries E scName isSCDeleted fscToPoolsMap (configMap\<lparr>cm_Data := fst x\<rparr>) rest
         | Err e \<Rightarrow> ret (Err e) | Panic p \<Rightarrow> ret (Panic p))
      } else
        (case mget fscToPoolsMap fscName of
           Some poolName \<Rightarrow>
             if poolName = [] then ret (Ok ())
             else do {
               x \<leftarrow> addStorageClassToConfigMap E configMap fscName scName poolName;
               (case snd x of
                  Ok _ \<Rightarrow> updateEntries E scName isSCDeleted fscToPoolsMap (configMap\<lparr>cm_Data := fst x\<rparr>) rest
                | Err e \<Rightarrow> ret (Err e) | Panic p \<Rightarrow> ret (Panic p))
             }
         | None \<Rightarrow> do {
             x \<leftarrow> removeStorageClassFromConfigMap E configMap fscName scName;
             (case snd x of
                Ok _ \<Rightarrow> updateEntries E scName isSCDeleted fscToPoolsMap (configMap\<lparr>cm_Data := fst x\<rparr>) rest
              | Err e \<Rightarrow> ret (Err e) | Panic p \<Rightarrow> ret (Panic p))
           }))"

definition ensureConfigMapUpdated :: "'w env \<Rightarrow> request \<Rightarrow> StorageClass \<Rightarrow> ConfigMap \<Rightarrow> ('w, unit res) oper" where
  "ensureConfigMapUpdated E rq sc configMap =
     (let isTopology = (mget (sc_Parameters sc) TopologyStorageClassByMgmtId \<noteq> None) in do {
        r \<leftarrow> getFlashSystemClusterByStorageClass E sc isTopology;
        (case r of
           Err e \<Rightarrow> ret (Err e)
         | Panic p \<Rightarrow> ret (Panic p)
         | Ok fscToPoolsMap \<Rightarrow>
             if list_ex (\<lambda>fscName. mget (cm_Data configMap) fscName = None) (mkeys fscToPoolsMap)
             then ret (Err missingEntryErr)
             else (let isSCDeleted = (om_DeletionTimestamp (sc_Meta sc) \<noteq> None) in
                   updateEntries E (snd rq) isSCDeleted fscToPoolsMap configMap (mkeys (cm_Data configMap))))
      })"

text \<open>A storage class that is gone is removed from every entry.\<close>

fun removeFromAll :: "'w env \<Rightarrow> string \<Rightarrow> ConfigMap \<Rightarrow> string list \<Rightarrow> ('w, unit res) oper" where
  "removeFromAll E scName configMap [] = ret (Ok ())"
| "removeFromAll E scName configMap (fscName # rest) = do {
     x \<leftarrow> removeStorageClassFromConfigMap E configMap fscName scName;
     (case snd x of
        Ok _ \<Rightarrow> removeFromAll E scName (configMap\<lparr>cm_Data := fst x\<rparr>) rest
      | Err e \<Rightarrow> ret (Err e) | Panic p \<Rightarrow> ret (Panic p))
   }"

definition second :: int where "second = 1000000000"

text \<open>
  The deferred function. The results of this \<^verbatim>\<open>Reconcile\<close> are named, so its assignments reach the
  caller: a conflict becomes a requeue after a second without an error.
\<close>

definition deferConflict :: "Result res \<Rightarrow> Result res" where
  "deferConflict r =
     (case r of Err e \<Rightarrow> if IsConflict e then Ok \<lparr>RequeueAfter = Some second\<rparr> else Err e | _ \<Rightarrow> r)"

definition doneResult :: "unit res \<Rightarrow> Result res" where
  "doneResult r = (case r of Ok _ \<Rightarrow> Ok emptyResult | Err e \<Rightarrow> Err e | Panic p \<Rightarrow> Panic p)"

definition reconcileBody :: "'w env \<Rightarrow> string \<Rightarrow> request \<Rightarrow> ('w, Result res) oper" where
  "reconcileBody E ns rq = do {
     c \<leftarrow> GetCreateConfigmap E ns False;
     (case c of
        Inl e \<Rightarrow> ret (Err e)
      | Inr configMap \<Rightarrow> do {
          r \<leftarrow> getAs E asStorageClass KStorageClass (fst rq) (snd rq);
          (case r of
             Inl e \<Rightarrow>
               if IsNotFound e then do {
                 x \<leftarrow> removeFromAll E (snd rq) configMap (mkeys (cm_Data configMap));
                 ret (doneResult x)
               } else ret (Err e)
           | Inr sc \<Rightarrow> do {
               x \<leftarrow> ensureConfigMapUpdated E rq sc configMap;
               ret (doneResult x)
             })
        })
   }"

definition ScReconcile :: "'w env \<Rightarrow> string \<Rightarrow> request \<Rightarrow> ('w, Result res) oper" where
  "ScReconcile E ns rq = do { r \<leftarrow> reconcileBody E ns rq; ret (deferConflict r) }"

end
