(* ===== verification/PvController.thy ===== *)
theory PvController
  imports ScController
begin

text \<open>
  \<^verbatim>\<open>controllers/persistentvolume/persistentvolume_controller.go\<close>: the watcher that labels every persistent volume
  of the block CSI driver with the FlashSystemCluster it lives on.
\<close>

section \<open>Event filter and mapper\<close>

definition isCSIBlockDriverPV :: "PersistentVolume \<Rightarrow> bool" where
  "isCSIBlockDriverPV pv =
     (case (pv_CSI pv, pv_ClaimRef pv) of
        (Some csi, Some ref) \<Rightarrow> csi_Driver csi = CsiIBMBlockDriver \<and> ref_Kind ref = PersistentVolumeClaimKind
      | _ \<Rightarrow> False)"

definition reconcilePV :: "kobj \<Rightarrow> bool" where
  "reconcilePV obj = (case asPv obj of None \<Rightarrow> False | Some pv \<Rightarrow> isCSIBlockDriverPV pv)"

fun pvPredicate :: "event \<Rightarrow> bool" where
  "pvPredicate (CreateEvent x) = reconcilePV x"
| "pvPredicate (DeleteEvent x) = reconcilePV x"
| "pvPredicate (UpdateEvent old new) = reconcilePV new"
| "pvPredicate (GenericEvent x) = reconcilePV x"

definition pvMap :: "'w env \<Rightarrow> kobj \<Rightarrow> ('w, request list) oper" where
  "pvMap E obj = do {
     r \<leftarrow> listAs E asPv KPv None [];
     (case r of
        Inl e \<Rightarrow> ret []
      | Inr pvs \<Rightarrow> ret (map (\<lambda>pv. reqOf (pv_Meta pv)) (filter isCSIBlockDriverPV pvs)))
   }"

section \<open>The management address of a volume\<close>

definition emptyHandleErr :: goerr where "emptyHandleErr = FmtError ''volumeHandle cannot be empty''"
definition noSystemIdErr :: goerr where "noSystemIdErr = FmtError ''volumeHandle must contain system id''"
definition unknownIdErr :: goerr where "unknownIdErr = FmtError ''could not find system id in topology Secret''"

text \<open>The topology branch: the system id is the second part of the volume handle.\<close>

definition topologyAddress :: "PersistentVolume \<Rightarrow> Secret \<Rightarrow> string res" where
  "topologyAddress pv secret =
     (case Unmarshal_any (mgets (sec_Data secret) TopologySecretDataKey) of
        Inl e \<Rightarrow> Err e
      | Inr secretData \<Rightarrow>
          (case pv_CSI pv of
             None \<Rightarrow> Panic ''nil pointer dereference''
           | Some csi \<Rightarrow>
               if csi_VolumeHandle csi = [] then Err emptyHandleErr
               else (let parts = Split (csi_VolumeHandle csi) (CHR '':'') in
                     if length parts < 2 then Err noSystemIdErr
                     else (case mget secretData (parts ! 1) of
                             None \<Rightarrow> Err unknownIdErr
                           | Some d \<Rightarrow> mgmtAddressOf d))))"

definition getPVManagementAddress :: "'w env \<Rightarrow> PersistentVolume \<Rightarrow> ('w, string res) oper" where
  "getPVManagementAddress E pv =
     (case pv_ClaimRef pv of
        None \<Rightarrow> ret (Panic ''nil pointer dereference'')
      | Some pvcRef \<Rightarrow> do {
          p \<leftarrow> getAs E asPvc KPvc (ref_Namespace pvcRef) (ref_Name pvcRef);
          (case p of
             Inl e \<Rightarrow> ret (Err e)
           | Inr pvc \<Rightarrow>
               (case pvc_StorageClassName pvc of
                  None \<Rightarrow> ret (Panic ''nil pointer dereference'')
                | Some scName \<Rightarrow> do {
                    c \<leftarrow> getAs E asStorageClass KStorageClass [] scName;
                    (case c of
                       Inl e \<Rightarrow> ret (Err e)
                     | Inr sc \<Rightarrow> do {
                         s \<leftarrow> GetStorageClassSecret E sc;
                         (case s of
                            Inl e \<Rightarrow> ret (Err e)
                          | Inr secret \<Rightarrow>
                              if mget (sc_Parameters sc) TopologyStorageClassByMgmtId \<noteq> None
                              then ret (topologyAddress pv secret)
                              else ret (Ok (mgets (sec_Data secret) SecretManagementAddressKey)))
                       })
                  }))
        })"

section \<open>The label\<close>

definition setPvLabels :: "(string, string) gomap \<Rightarrow> PersistentVolume \<Rightarrow> PersistentVolume" where
  "setPvLabels ls pv = pv\<lparr>pv_Meta := (pv_Meta pv)\<lparr>om_Labels := ls\<rparr>\<rparr>"

text \<open>
  What the labels should become, given the clusters by address: nothing to do, or the new labels.
\<close>

definition newLabels :: "(string, string) gomap \<Rightarrow> FlashSystemCluster option \<Rightarrow> (string, string) gomap option" where
  "newLabels labels fsc =
     (let pvLabels = (if labels = NilMap then MkMap [] else labels) in
      case fsc of
        None \<Rightarrow>
          if mget pvLabels OdfFsStorageSystemLabelKey = None then None
          else Some (mdel pvLabels OdfFsStorageSystemLabelKey)
      | Some c \<Rightarrow>
          if mget pvLabels OdfFsStorageSystemLabelKey = Some (om_Name (fsc_Meta c)) then None
          else Some (mput pvLabels OdfFsStorageSystemLabelKey (om_Name (fsc_Meta c))))"

definition ensureStorageSystemLabel :: "'w env \<Rightarrow> PersistentVolume \<Rightarrow> ('w, unit res) oper" where
  "ensureStorageSystemLabel E pv = do {
     a \<leftarrow> getPVManagementAddress E pv;
     (case a of
        Err e \<Rightarrow> ret (Err e)
      | Panic p \<Rightarrow> ret (Panic p)
      | Ok pvMgmtAddr \<Rightarrow> do {
          m \<leftarrow> MapClustersByMgmtAddress E;
          (case m of
             Inl e \<Rightarrow> ret (Err e)
           | Inr clustersByMgmtAddr \<Rightarrow>
               (case newLabels (om_Labels (pv_Meta pv)) (mget clustersByMgmtAddr pvMgmtAddr) of
                  None \<Rightarrow> ret (Ok ())
                | Some ls \<Rightarrow> do {
                    u \<leftarrow> updateAs E asPv (OPv (setPvLabels ls pv));
                    (case u of Inl e \<Rightarrow> ret (Err e) | Inr _ \<Rightarrow> ret (Ok ()))
                  }))
        })
   }"

definition pvBody :: "'w env \<Rightarrow> request \<Rightarrow> ('w, Result res) oper" where
  "pvBody E rq = do {
     r \<leftarrow> getAs E asPv KPv (fst rq) (snd rq);
     (case r of
        Inl e \<Rightarrow> if IsNotFound e then ret (Ok emptyResult) else ret (Err e)
      | Inr pv \<Rightarrow> do {
          x \<leftarrow> ensureStorageSystemLabel E pv;
          (case x of
             Ok _ \<Rightarrow> ret (Ok emptyResult)
           | Err e \<Rightarrow> if e = UniqueFSCMatchError then ret (Ok emptyResult) else ret (Err e)
           | Panic p \<Rightarrow> ret (Panic p))
        })
   }"

definition PvReconcile :: "'w env \<Rightarrow> request \<Rightarrow> ('w, Result res) oper" where
  "PvReconcile E rq = do { r \<leftarrow> pvBody E rq; ret (deferConflict r) }"

end
