(* ===== verification/ScSpec.thy ===== *)
theory ScSpec
  imports ScController
begin

text \<open>
  What the watcher of storage classes makes of the pools ConfigMap, as a refinement of an abstract
  table: the pool of each storage class, per cluster.
\<close>

section \<open>The abstract pools\<close>

text \<open>
  What the exporter reads in the entry of a cluster: its secret and the pool of each storage class.
\<close>

type_synonym poolInfo = "string \<times> (string \<Rightarrow> string option)"

definition infoOf :: "'w env \<Rightarrow> string \<Rightarrow> poolInfo option" where
  "infoOf E s = (case kUnmarshal E s of Inl _ \<Rightarrow> None | Inr c \<Rightarrow> Some (ContentSecret c, mget (ScPoolMap c)))"

definition poolInfos :: "'w env \<Rightarrow> (string \<Rightarrow> string option) \<Rightarrow> string \<Rightarrow> poolInfo option" where
  "poolInfos E f k = Option.bind (f k) (infoOf E)"

definition forget :: "string \<Rightarrow> poolInfo \<Rightarrow> poolInfo" where
  "forget sc i = (fst i, (snd i)(sc := None))"

definition assign :: "string \<Rightarrow> string \<Rightarrow> poolInfo \<Rightarrow> poolInfo" where
  "assign sc pool i = (fst i, (snd i)(sc := Some pool))"

definition codec_laws :: "'w env \<Rightarrow> (string \<Rightarrow> bool) \<Rightarrow> bool" where
  "codec_laws E valid \<longleftrightarrow> content_codec (kMarshal E) (kUnmarshal E) valid"

lemma storeEnv_codec: "codec_laws storeEnv validUtf8"
  using json.content_codec_axioms by (simp add: codec_laws_def storeEnv_def)

text \<open>The local copy of the ConfigMap agrees with the server on the entries.\<close>

definition inSync :: "'w view \<Rightarrow> string \<Rightarrow> 'w \<Rightarrow> ConfigMap \<Rightarrow> bool" where
  "inSync v ns w cm \<longleftrightarrow> keyOf (OConfigMap cm) = poolKey ns \<and> poolLive v ns w \<and>
     (\<forall>k. poolEntry v ns w k = mget (cm_Data cm) k)"

lemma wp_updateShared:
  assumes laws: "api_laws E v" and sync: "keyOf (OConfigMap cm) = poolKey ns" "poolLive v ns (world s)"
    and Fail: "\<And>e t. onlyAt (poolKey ns) (v (world s)) (v (world t)) \<Longrightarrow> Q (Inl e) t"
    and Done: "\<And>x t. onlyAt (poolKey ns) (v (world s)) (v (world t)) \<Longrightarrow> inSync v ns (world t) cm \<Longrightarrow> Q (Inr x) t"
  shows "wpre (updateAs E asConfigMap (OConfigMap cm)) Q s"
  by (rule wp_updateConfigMap [OF laws sync])
    (auto intro!: Fail Done simp: inSync_def sync poolEntry_upd poolLive_def poolCm_def)

lemma wp_removeStorageClass:
  assumes laws: "api_laws E v" "codec_laws E valid" and sync: "inSync v ns (world s) cm"
  shows "wpre (removeStorageClassFromConfigMap E cm fscName scName) (\<lambda>x t.
     onlyAt (poolKey ns) (v (world s)) (v (world t)) \<and>
     (snd x = Ok () \<longrightarrow> inSync v ns (world t) (cm\<lparr>cm_Data := fst x\<rparr>) \<and>
        poolInfos E (mget (fst x)) = (poolInfos E (mget (cm_Data cm)))
          (fscName := map_option (forget scName) (poolInfos E (mget (cm_Data cm)) fscName)))) s"
proof (cases "mget (cm_Data cm) fscName")
  case None
  then show ?thesis
    using sync by (auto simp: removeStorageClassFromConfigMap_def wp poolInfos_def fun_eq_iff inSync_def)
next
  case (Some content)
  show ?thesis
  proof (cases "\<exists>c val. kUnmarshal E content = Inr c \<and> kMarshal E (c\<lparr>ScPoolMap := mdel (ScPoolMap c) scName\<rparr>) = Inr val")
    case False
    with Some show ?thesis
      by (auto simp: removeStorageClassFromConfigMap_def wp split: sum.splits)
  next
    case True
    then obtain c val where c: "kUnmarshal E content = Inr c"
      "kMarshal E (c\<lparr>ScPoolMap := mdel (ScPoolMap c) scName\<rparr>) = Inr val" by blast
    have i: "infoOf E val = Some (ContentSecret c, (mget (ScPoolMap c))(scName := None))"
      by (rule content_codec.dec_enc_mdel [OF laws(2) [unfolded codec_laws_def] c]) (simp add: infoOf_def)
    have "infoOf E content = Some (ContentSecret c, mget (ScPoolMap c))" using c by (simp add: infoOf_def)
    with i Some c sync show ?thesis
      by (auto simp: removeStorageClassFromConfigMap_def wp Let_def poolInfos_def fun_eq_iff forget_def inSync_def
         keyOf_ConfigMap intro!: wp_updateShared [OF laws(1)])
  qed
qed

lemma keeps_regularLoop: "api_laws E v \<Longrightarrow> keeps v (regularLoop E sc a cs)"
  by (induction cs) (auto intro!: keeps_intro)

lemma keeps_getFlashSystemClusterByStorageClass:
  "api_laws E v \<Longrightarrow> keeps v (getFlashSystemClusterByStorageClass E sc isTopology)"
  unfolding getFlashSystemClusterByStorageClass_def GetStorageClassSecret_def getFscByTopologyStorageClass_def
    getFscByRegularStorageClass_def mapClustersByMgmtId_def
  by (intro keeps_intro keeps_MapClustersByMgmtAddress keeps_regularLoop)

lemma wp_addStorageClass:
  assumes laws: "api_laws E v" "codec_laws E valid" and sync: "inSync v ns (world s) cm"
    and ok: "valid scName" "valid poolName"
  shows "wpre (addStorageClassToConfigMap E cm fscName scName poolName) (\<lambda>x t.
     onlyAt (poolKey ns) (v (world s)) (v (world t)) \<and>
     (snd x = Ok () \<longrightarrow> inSync v ns (world t) (cm\<lparr>cm_Data := fst x\<rparr>) \<and>
        poolInfos E (mget (fst x)) = (poolInfos E (mget (cm_Data cm)))
          (fscName := map_option (assign scName poolName) (poolInfos E (mget (cm_Data cm)) fscName)))) s"
proof (cases "\<exists>content c m val. mget (cm_Data cm) fscName = Some content \<and> kUnmarshal E content = Inr c \<and>
    mset (ScPoolMap c) scName poolName = Some m \<and> kMarshal E (c\<lparr>ScPoolMap := m\<rparr>) = Inr val")
  case False
  then show ?thesis
    by (auto simp: addStorageClassToConfigMap_def wp split: sum.splits option.splits)
next
  case True
  then obtain content c m val where Some: "mget (cm_Data cm) fscName = Some content"
    and c: "kUnmarshal E content = Inr c" "mset (ScPoolMap c) scName poolName = Some m"
      "kMarshal E (c\<lparr>ScPoolMap := m\<rparr>) = Inr val" by blast
  have m: "m = mput (ScPoolMap c) scName poolName" using c(2) by (simp add: mset_eq_Some)
  have i: "infoOf E val = Some (ContentSecret c, (mget (ScPoolMap c))(scName := Some poolName))"
    by (rule content_codec.dec_enc_mput [OF laws(2) [unfolded codec_laws_def] c(1) c(3) [unfolded m] ok])
      (simp add: infoOf_def)
  have "infoOf E content = Some (ContentSecret c, mget (ScPoolMap c))" using c by (simp add: infoOf_def)
  with i Some c sync show ?thesis
    by (auto simp: addStorageClassToConfigMap_def wp Let_def poolInfos_def fun_eq_iff assign_def inSync_def
       keyOf_ConfigMap intro!: wp_updateShared [OF laws(1)])
qed

text \<open>What a pass makes of the entry of one cluster.\<close>

definition newInfo :: "string \<Rightarrow> bool \<Rightarrow> (string, string) gomap \<Rightarrow> string \<Rightarrow> poolInfo \<Rightarrow> poolInfo" where
  "newInfo scName gone pools fscName i =
     (if gone then forget scName i
      else case mget pools fscName of Some pool \<Rightarrow> assign scName pool i | None \<Rightarrow> forget scName i)"

lemma wp_updateEntries:
  assumes laws: "api_laws E v" "codec_laws E valid" and ok: "valid scName"
    and pools: "\<And>k p. mget pools k = Some p \<Longrightarrow> p \<noteq> [] \<and> valid p"
    and "inSync v ns (world s) cm" and "distinct ks"
  shows "wpre (updateEntries E scName gone pools cm ks) (\<lambda>r t.
     onlyAt (poolKey ns) (v (world s)) (v (world t)) \<and>
     (r = Ok () \<longrightarrow> poolInfos E (poolEntry v ns (world t)) = (\<lambda>k. if k \<in> set ks
        then map_option (newInfo scName gone pools k) (poolInfos E (mget (cm_Data cm)) k)
        else poolInfos E (mget (cm_Data cm)) k))) s"
  using assms(5,6)
proof (induction ks arbitrary: cm s)
  case Nil
  then have "poolEntry v ns (world s) = mget (cm_Data cm)" by (auto simp: inSync_def)
  then show ?case by (simp add: wp)
next
  case (Cons k ks)
  have next_step: "wpre (case snd x of
        Ok _ \<Rightarrow> updateEntries E scName gone pools (cm\<lparr>cm_Data := fst x\<rparr>) ks
      | Err e \<Rightarrow> ret (Err e) | Panic p \<Rightarrow> ret (Panic p)) (\<lambda>r t.
     onlyAt (poolKey ns) (v (world s)) (v (world t)) \<and>
     (r = Ok () \<longrightarrow> poolInfos E (poolEntry v ns (world t)) = (\<lambda>k'. if k' \<in> set (k # ks)
        then map_option (newInfo scName gone pools k') (poolInfos E (mget (cm_Data cm)) k')
        else poolInfos E (mget (cm_Data cm)) k'))) u"
    if "onlyAt (poolKey ns) (v (world s)) (v (world u))"
      "snd x = Ok () \<longrightarrow> inSync v ns (world u) (cm\<lparr>cm_Data := fst x\<rparr>) \<and>
        poolInfos E (mget (fst x)) = (poolInfos E (mget (cm_Data cm)))
          (k := map_option f (poolInfos E (mget (cm_Data cm)) k))"
      "f = newInfo scName gone pools k" for x u f
  proof (cases "snd x")
    case (Ok n)
    with that have "inSync v ns (world u) (cm\<lparr>cm_Data := fst x\<rparr>)"
      and p: "poolInfos E (mget (fst x)) = (poolInfos E (mget (cm_Data cm)))
          (k := map_option f (poolInfos E (mget (cm_Data cm)) k))" by auto
    then show ?thesis
      using Ok Cons.prems(2) that(1,3)
      by (simp, intro wp_mono [OF Cons.IH]) (auto simp: p intro: onlyAt_trans)
  qed (use that in \<open>auto simp: wp\<close>)
  show ?case
  proof (cases "gone \<or> mget pools k = None")
    case True
    then have n: "forget scName = newInfo scName gone pools k" by (auto simp: newInfo_def)
    have body: "updateEntries E scName gone pools cm (k # ks) = do {
        x \<leftarrow> removeStorageClassFromConfigMap E cm k scName;
        (case snd x of Ok _ \<Rightarrow> updateEntries E scName gone pools (cm\<lparr>cm_Data := fst x\<rparr>) ks
         | Err e \<Rightarrow> ret (Err e) | Panic p \<Rightarrow> ret (Panic p)) }"
      using True by auto
    show ?thesis
      unfolding body wp_bind
      by (rule wp_mono [OF wp_removeStorageClass [OF laws Cons.prems(1), of k scName]], erule conjE)
        (rule next_step [OF _ _ n])
  next
    case False
    then obtain p where p: "\<not> gone" "mget pools k = Some p" "p \<noteq> []" "valid p" using pools by blast
    then have n: "assign scName p = newInfo scName gone pools k" by (auto simp: newInfo_def)
    have body: "updateEntries E scName gone pools cm (k # ks) = do {
        x \<leftarrow> addStorageClassToConfigMap E cm k scName p;
        (case snd x of Ok _ \<Rightarrow> updateEntries E scName gone pools (cm\<lparr>cm_Data := fst x\<rparr>) ks
         | Err e \<Rightarrow> ret (Err e) | Panic p \<Rightarrow> ret (Panic p)) }"
      using p(1-3) by (simp cong del: res.case_cong_weak)
    show ?thesis
      unfolding body wp_bind
      by (rule wp_mono [OF wp_addStorageClass [OF laws Cons.prems(1) ok p(4), of k]], erule conjE)
        (rule next_step [OF _ _ n])
  qed
qed

text \<open>A storage class that is gone is treated like one under deletion.\<close>

lemma removeFromAll_updateEntries: "removeFromAll E scName cm ks = updateEntries E scName True pools cm ks"
  by (induction ks arbitrary: cm) (auto intro!: arg_cong [where f = "State_Monad.bind _"] simp: fun_eq_iff split: res.splits)

section \<open>The cluster of a regular storage class\<close>

type_synonym objects = "objkey \<Rightarrow> kobj option"

definition isCluster :: "objects \<Rightarrow> FlashSystemCluster \<Rightarrow> bool" where
  "isCluster os c \<longleftrightarrow> os (keyOf (OFsc c)) = Some (OFsc c)"

text \<open>The management address in a secret the server holds.\<close>

definition secretAddr :: "objects \<Rightarrow> string \<Rightarrow> string \<Rightarrow> string option" where
  "secretAddr os ns n =
     (case os (KSecret, ns, n) of
        Some (OSecret x) \<Rightarrow> Some (mgets (sec_Data x) SecretManagementAddressKey) | _ \<Rightarrow> None)"

definition clusterAddr :: "objects \<Rightarrow> FlashSystemCluster \<Rightarrow> string option" where
  "clusterAddr os c = secretAddr os (sr_Namespace (fs_Secret (fsc_Spec c))) (sr_Name (fs_Secret (fsc_Spec c)))"

text \<open>\<open>m\<close> is the name of one of the clusters at the address, or none when none of them has it.\<close>

definition atAddress :: "objects \<Rightarrow> FlashSystemCluster set \<Rightarrow> string \<Rightarrow> string option \<Rightarrow> bool" where
  "atAddress os cs addr m =
     (case m of
        None \<Rightarrow> (\<forall>c \<in> cs. clusterAddr os c \<noteq> Some addr)
      | Some n \<Rightarrow> (\<exists>c \<in> cs. clusterAddr os c = Some addr \<and> om_Name (fsc_Meta c) = n))"

definition singlePool :: "string option \<Rightarrow> string \<Rightarrow> string \<Rightarrow> string option" where
  "singlePool m pool k = (if m = Some k then Some pool else None)"

lemma atAddress_Cons:
  "atAddress os (set cs) addr n \<Longrightarrow> clusterAddr os c \<noteq> Some addr \<Longrightarrow> atAddress os (insert c (set cs)) addr n"
  by (auto simp: atAddress_def split: option.splits)

lemma wp_regularLoop:
  assumes laws: "api_laws E v"
  shows "wpre (regularLoop E sc addr cs) (\<lambda>r t. v (world t) = v (world s) \<and> (\<forall>m. r = Inr m \<longrightarrow>
     (\<exists>n. atAddress (v (world s)) (set cs) addr n \<and>
          mget m = singlePool n (mgets (sc_Parameters sc) CsiIBMBlockScPool)))) s"
proof (induction cs arbitrary: s)
  case Nil
  then show ?case by (auto simp: wp singlePool_def atAddress_def intro!: exI [of _ None])
next
  case (Cons c cs)
  have addr: "clusterAddr (v (world s)) c = Some (mgets (sec_Data x) SecretManagementAddressKey)"
    if "v (world s) (KSecret, sr_Namespace (fs_Secret (fsc_Spec c)), sr_Name (fs_Secret (fsc_Spec c))) = Some (OSecret x)" for x
    using that by (simp add: clusterAddr_def secretAddr_def)
  show ?case
    unfolding regularLoop.simps wp_bind
  proof (rule wp_getAs_laws [OF laws], goal_cases)
    case (2 x y w)
    then have a: "clusterAddr (v (world s)) c = Some (mgets (sec_Data y) SecretManagementAddressKey)" by (intro addr) simp
    show ?case
    proof (cases "mgets (sec_Data y) SecretManagementAddressKey = addr")
      case True
      with 2 a show ?thesis
        by (auto simp: wp singlePool_def atAddress_def fun_eq_iff intro!: exI [of _ "Some (om_Name (fsc_Meta c))"])
    next
      case False
      with a 2(1) show ?thesis
        by (auto intro!: wp_mono [OF Cons.IH]) (metis atAddress_Cons option.inject)
    qed
  qed (simp add: wp)
qed

lemma listed_clusters:
  assumes "list_all (\<lambda>x. asFsc x \<noteq> None) xs"
    and "\<And>x. x \<in> set xs \<longleftrightarrow> selects KFsc None [] x \<and> os (keyOf x) = Some x"
  shows "set (map (the \<circ> asFsc) xs) = {c. isCluster os c}"
proof -
  have "x \<in> set (map (the \<circ> asFsc) xs) \<longleftrightarrow> OFsc x \<in> set xs" for x
    using assms(1) by (auto simp: list_all_iff image_iff) (metis as_Some(1) option.sel)+
  moreover have "OFsc x \<in> set xs \<longleftrightarrow> isCluster os x" for x
    using assms(2) [of "OFsc x"] by (simp add: selects_def isCluster_def)
  ultimately show ?thesis by blast
qed

lemma wp_getFscByRegularStorageClass:
  assumes laws: "api_laws E v"
  shows "wpre (getFscByRegularStorageClass E sc secret) (\<lambda>r t. v (world t) = v (world s) \<and> (\<forall>m. r = Inr m \<longrightarrow>
     (\<exists>n. atAddress (v (world s)) {c. isCluster (v (world s)) c} (mgets (sec_Data secret) SecretManagementAddressKey) n \<and>
          mget m = singlePool n (mgets (sc_Parameters sc) CsiIBMBlockScPool)))) s"
  unfolding getFscByRegularStorageClass_def wp_bind
proof (rule wp_listAs_laws [OF laws], goal_cases)
  case (2 xs w)
  note listed_clusters [OF 2(2,3)]
  with 2(1) show ?case
    by (auto intro!: wp_mono [OF wp_regularLoop [OF laws]] simp del: set_map)
qed (simp add: wp)

section \<open>A whole pass\<close>

lemma inSync_got:
  assumes "v w (poolKey ns) = Some (OConfigMap cm)" "keyOf (OConfigMap cm) = poolKey ns" "om_DeletionTimestamp (cm_Meta cm) = None"
  shows "inSync v ns w cm"
  using assms by (auto simp: inSync_def poolLive_def poolCm_def poolEntry_upd)

lemma infos_mkeys:
  "(\<lambda>k. if k \<in> set (mkeys d) then map_option (f k) (poolInfos E (mget d) k) else poolInfos E (mget d) k) =
   (\<lambda>k. map_option (f k) (poolInfos E (mget d) k))"
  by (auto simp: fun_eq_iff set_mkeys poolInfos_def)

text \<open>All the entries at once, from a ConfigMap in sync with the server.\<close>

lemma wp_updateAll:
  assumes laws: "api_laws E v" "codec_laws E valid" and ok: "valid scName"
    and pools: "\<And>k p. mget pools k = Some p \<Longrightarrow> p \<noteq> [] \<and> valid p"
    and sync: "inSync v ns (world s) cm"
  shows "wpre (updateEntries E scName gone pools cm (mkeys (cm_Data cm))) (\<lambda>r t.
     onlyAt (poolKey ns) (v (world s)) (v (world t)) \<and>
     (r = Ok () \<longrightarrow> poolInfos E (poolEntry v ns (world t)) =
        (\<lambda>k. map_option (newInfo scName gone pools k) (poolInfos E (mget (cm_Data cm)) k)))) s"
  using wp_updateEntries [OF laws ok pools sync distinct_mkeys [of "cm_Data cm"], where gone = gone]
  by (simp only: infos_mkeys)

lemma doneResult_Ok: "deferConflict (doneResult r) = Ok emptyResult \<longleftrightarrow> r = Ok ()"
  by (cases r) (auto simp: deferConflict_def doneResult_def emptyResult_def)

lemma deferConflict_Err: "deferConflict (Err e) \<noteq> Ok emptyResult"
  by (simp add: deferConflict_def emptyResult_def)

lemma deferConflict_Panic: "deferConflict (Panic p) = Panic p"
  by (simp add: deferConflict_def)

lemma wp_ScReconcile:
  assumes laws: "api_laws E v" and live: "poolLive v ns (world s)"
    and gone: "\<And>cm u. inSync v ns (world u) cm \<Longrightarrow> mget (cm_Data cm) = poolEntry v ns (world s) \<Longrightarrow>
       onlyAt (poolKey ns) (v (world s)) (v (world u)) \<Longrightarrow> v (world s) (KStorageClass, fst rq, snd rq) = None \<Longrightarrow>
       wpre (removeFromAll E (snd rq) cm (mkeys (cm_Data cm))) (\<lambda>r t. r = Ok () \<longrightarrow> P t) u"
    and present: "\<And>cm u sc. inSync v ns (world u) cm \<Longrightarrow> mget (cm_Data cm) = poolEntry v ns (world s) \<Longrightarrow>
       onlyAt (poolKey ns) (v (world s)) (v (world u)) \<Longrightarrow>
       v (world s) (KStorageClass, fst rq, snd rq) = Some (OStorageClass sc) \<Longrightarrow>
       wpre (ensureConfigMapUpdated E rq sc cm) (\<lambda>r t. r = Ok () \<longrightarrow> P t) u"
  shows "wpre (ScReconcile E ns rq) (\<lambda>r t. r = Ok emptyResult \<longrightarrow> P t) s"
  unfolding ScReconcile_def reconcileBody_def wp_bind
proof (rule wp_GetCreateConfigmap [OF laws live], goal_cases)
  case (2 cm t)
  have sync: "inSync v ns (world t) cm" and mg: "mget (cm_Data cm) = poolEntry v ns (world s)"
    using 2 by (auto intro: inSync_got)
  have same: "v (world t) (KStorageClass, p) = v (world s) (KStorageClass, p)" for p
    using 2(1) by (cases p) (simp add: onlyAt_def poolKey_def)
  show ?case
    unfolding sum.case wp_bind
  proof (rule wp_getAs_laws [OF laws], goal_cases)
    case (1 e r w)
    show ?case
    proof (cases "IsNotFound e")
      case True
      then show ?thesis
        using 1 same sync mg 2(1)
        by (simp add: wp_bind, intro wp_mono [OF gone])
          (auto simp: wp doneResult_Ok inSync_def poolEntry_def poolLive_def poolCm_def)
    qed (simp add: wp deferConflict_Err)
  next
    case (2 x y w)
    then show ?case
      using same sync mg \<open>onlyAt (poolKey ns) (v (world s)) (v (world t))\<close>
      by (simp add: wp_bind, intro wp_mono [OF present])
        (auto simp: wp doneResult_Ok inSync_def poolEntry_def poolLive_def poolCm_def)
  qed
qed (simp add: wp deferConflict_Err)

lemma wp_removeFromAll:
  assumes "api_laws E v" "codec_laws E valid" and "valid scName" and "inSync v ns (world s) cm"
  shows "wpre (removeFromAll E scName cm (mkeys (cm_Data cm))) (\<lambda>r t.
     onlyAt (poolKey ns) (v (world s)) (v (world t)) \<and>
     (r = Ok () \<longrightarrow> poolInfos E (poolEntry v ns (world t)) =
        (\<lambda>k. map_option (forget scName) (poolInfos E (mget (cm_Data cm)) k)))) s"
  unfolding removeFromAll_updateEntries [of E scName cm _ NilMap]
  by (rule wp_mono [OF wp_updateAll [OF assms(1-3) _ assms(4)]])
    (auto simp: newInfo_def [abs_def])

lemma ScReconcile_forgets_post:
  assumes "api_laws E v" "codec_laws E valid" and "poolLive v ns (world s)" and "valid (snd rq)"
    and "v (world s) (KStorageClass, fst rq, snd rq) = None"
    and "run_state (ScReconcile E ns rq) s = (Ok emptyResult, t)"
  shows "onlyAt (poolKey ns) (v (world s)) (v (world t)) \<and>
    (\<forall>k. poolInfos E (poolEntry v ns (world t)) k =
       map_option (forget (snd rq)) (poolInfos E (poolEntry v ns (world s)) k))"
proof -
  have "wpre (ScReconcile E ns rq) (\<lambda>r t. r = Ok emptyResult \<longrightarrow> onlyAt (poolKey ns) (v (world s)) (v (world t)) \<and>
    (\<forall>k. poolInfos E (poolEntry v ns (world t)) k =
       map_option (forget (snd rq)) (poolInfos E (poolEntry v ns (world s)) k))) s"
    by (rule wp_ScReconcile [OF assms(1,3)])
      (use assms(5) in \<open>auto intro!: wp_mono [OF wp_removeFromAll [OF assms(1,2,4)]] intro: onlyAt_trans\<close>)
  from wp_runD [OF this assms(6)] show ?thesis by simp
qed

text \<open>
  C15: When a storage class no longer exists and a pass ends without an error and without asking to be
  run again, the pools ConfigMap has forgotten it: in the entry of every cluster the pool of this
  storage class is gone, the other pools and the secret are what they were, and no other object of the
  cluster has changed.
\<close>

theorem ScReconcile_forgets:
  assumes "api_laws E v" "codec_laws E valid" and "poolLive v ns (world s)" and "valid (snd rq)"
    and "v (world s) (KStorageClass, fst rq, snd rq) = None"
    and "run_state (ScReconcile E ns rq) s = (Ok emptyResult, t)"
  shows "onlyAt (poolKey ns) (v (world s)) (v (world t)) \<and>
    (\<forall>k. poolInfos E (poolEntry v ns (world t)) k =
       map_option (forget (snd rq)) (poolInfos E (poolEntry v ns (world s)) k))"
  by (rule ScReconcile_forgets_post [OF assms])

lemma wp_ensureConfigMapUpdated:
  assumes laws: "api_laws E v" "codec_laws E valid" and ok: "valid (snd rq)" and sync: "inSync v ns (world s) cm"
    and got: "wpre (getFlashSystemClusterByStorageClass E sc (mget (sc_Parameters sc) TopologyStorageClassByMgmtId \<noteq> None))
       (\<lambda>r t. v (world t) = v (world s) \<and> (\<forall>m. r = Ok m \<longrightarrow> (\<forall>k p. mget m k = Some p \<longrightarrow> p \<noteq> [] \<and> valid p) \<and> Good m)) s"
  shows "wpre (ensureConfigMapUpdated E rq sc cm) (\<lambda>r t. r = Ok () \<longrightarrow>
     onlyAt (poolKey ns) (v (world s)) (v (world t)) \<and> (\<exists>m. Good m \<and>
       (\<forall>k. mget m k \<noteq> None \<longrightarrow> mget (cm_Data cm) k \<noteq> None) \<and>
       poolInfos E (poolEntry v ns (world t)) = (\<lambda>k. map_option
         (newInfo (snd rq) (om_DeletionTimestamp (sc_Meta sc) \<noteq> None) m k) (poolInfos E (mget (cm_Data cm)) k)))) s"
  unfolding ensureConfigMapUpdated_def Let_def wp_bind
proof (rule wp_mono [OF got], goal_cases)
  case (1 r t)
  show ?case
  proof (cases r)
    case (Ok m)
    show ?thesis
    proof (cases "list_ex (\<lambda>k. mget (cm_Data cm) k = None) (mkeys m)")
      case False
      then have dom: "\<forall>k. mget m k \<noteq> None \<longrightarrow> mget (cm_Data cm) k \<noteq> None"
        unfolding list_ex_iff set_mkeys by (metis (mono_tags, lifting) mem_Collect_eq)
      have "inSync v ns (world t) cm"
        using sync 1 by (auto simp: inSync_def poolEntry_def poolLive_def poolCm_def)
      from wp_updateAll [OF laws ok _ this, of m "om_DeletionTimestamp (sc_Meta sc) \<noteq> None"] 1 Ok False dom
      show ?thesis by (auto intro: wp_mono)
    qed (simp add: Ok wp)
  qed (simp_all add: wp)
qed

lemma wp_regular_pools:
  assumes laws: "api_laws E v"
    and secret: "GetStorageClassSecretNamespacedName sc = Inr (n, ns')" "secretAddr (v (world s)) ns' n = Some addr"
  shows "wpre (getFlashSystemClusterByStorageClass E sc False) (\<lambda>r t. v (world t) = v (world s) \<and> (\<forall>m. r = Ok m \<longrightarrow>
     (\<exists>c. atAddress (v (world s)) {c. isCluster (v (world s)) c} addr c \<and>
          mget m = singlePool c (mgets (sc_Parameters sc) CsiIBMBlockScPool)))) s"
proof -
  have a: "mgets (sec_Data x) SecretManagementAddressKey = addr" if "v (world s) (KSecret, ns', n) = Some (OSecret x)" for x
    using that secret(2) by (simp add: secretAddr_def)
  show ?thesis
    unfolding getFlashSystemClusterByStorageClass_def GetStorageClassSecret_def secret sum.case prod.case wp_bind
    by (rule wp_getAs_laws [OF laws])
      (auto simp: wp_bind wp_ret dest!: a intro!: wp_mono [OF wp_getFscByRegularStorageClass [OF laws]])
qed

lemma pool_frame:
  assumes "onlyAt (poolKey ns) a b"
  shows "isCluster b = isCluster a" "secretAddr b = secretAddr a" "clusterAddr b = clusterAddr a" "atAddress b = atAddress a"
proof -
  show i: "isCluster b = isCluster a" and s: "secretAddr b = secretAddr a"
    using assms by (auto simp: fun_eq_iff isCluster_def secretAddr_def onlyAt_def poolKey_def keyOf_def)
  then show c: "clusterAddr b = clusterAddr a" by (simp add: fun_eq_iff clusterAddr_def)
  then show "atAddress b = atAddress a" by (simp add: atAddress_def [abs_def])
qed

lemma newInfo_single:
  assumes "mget m = singlePool c pool"
  shows "newInfo scName False m k = (if c = Some k then assign scName pool else forget scName)"
  using assms by (auto simp: newInfo_def singlePool_def fun_eq_iff)

lemma ScReconcile_regular_post:
  assumes "api_laws E v" "codec_laws E valid" and "poolLive v ns (world s)" and "valid (snd rq)"
    and "v (world s) (KStorageClass, fst rq, snd rq) = Some (OStorageClass sc)"
    and "mget (sc_Parameters sc) TopologyStorageClassByMgmtId = None" "om_DeletionTimestamp (sc_Meta sc) = None"
    and "GetStorageClassSecretNamespacedName sc = Inr (n, ns')" "secretAddr (v (world s)) ns' n = Some addr"
    and "mget (sc_Parameters sc) CsiIBMBlockScPool = Some pool" "pool \<noteq> []" "valid pool"
    and "run_state (ScReconcile E ns rq) s = (Ok emptyResult, t)"
  shows "onlyAt (poolKey ns) (v (world s)) (v (world t)) \<and>
    (\<exists>c. atAddress (v (world s)) {c. isCluster (v (world s)) c} addr c \<and>
      (\<forall>k. c = Some k \<longrightarrow> poolEntry v ns (world s) k \<noteq> None) \<and>
      (\<forall>k. poolInfos E (poolEntry v ns (world t)) k =
         map_option (if c = Some k then assign (snd rq) pool else forget (snd rq))
           (poolInfos E (poolEntry v ns (world s)) k)))"
proof -
  have p: "mgets (sc_Parameters sc) CsiIBMBlockScPool = pool" using assms(10) by (simp add: mgets_def)
  have "wpre (ScReconcile E ns rq) (\<lambda>r t. r = Ok emptyResult \<longrightarrow> onlyAt (poolKey ns) (v (world s)) (v (world t)) \<and>
    (\<exists>c. atAddress (v (world s)) {c. isCluster (v (world s)) c} addr c \<and>
      (\<forall>k. c = Some k \<longrightarrow> poolEntry v ns (world s) k \<noteq> None) \<and>
      (\<forall>k. poolInfos E (poolEntry v ns (world t)) k =
         map_option (if c = Some k then assign (snd rq) pool else forget (snd rq))
           (poolInfos E (poolEntry v ns (world s)) k)))) s"
  proof (rule wp_ScReconcile [OF assms(1,3)], goal_cases)
    case (2 cm u sc')
    then have sc': "sc' = sc" using assms(5) by simp
    note same = pool_frame [OF 2(3)]
    have got: "wpre (getFlashSystemClusterByStorageClass E sc False) (\<lambda>r t. v (world t) = v (world u) \<and> (\<forall>m. r = Ok m \<longrightarrow>
       (\<forall>k p. mget m k = Some p \<longrightarrow> p \<noteq> [] \<and> valid p) \<and>
       (\<exists>c. atAddress (v (world s)) {c. isCluster (v (world s)) c} addr c \<and> mget m = singlePool c pool))) u"
      by (rule wp_mono [OF wp_regular_pools [OF assms(1,8)]])
        (use assms(9,11,12) in \<open>auto simp: same p singlePool_def split: if_splits\<close>)
    show ?case
      unfolding sc'
      by (rule wp_mono [OF wp_ensureConfigMapUpdated [OF assms(1,2,4) 2(1)]], use got assms(6) in simp)
        (use 2(2,3) assms(7) in \<open>auto simp: newInfo_single intro: onlyAt_trans\<close>,
         rule exI, rule conjI, assumption, auto simp: singlePool_def)
  qed (use assms(5) in simp)
  from wp_runD [OF this assms(13)] show ?thesis by simp
qed

text \<open>
  C13: When a pass over an existing regular storage class ends without an error and without asking to be
  run again, the pools ConfigMap says where its volumes live: the entry of one cluster whose secret
  has the management address of the class's own secret maps the class to the pool the class
  names, in every other entry the class does not occur, and everything else is what it was. If no
  cluster has that address, the class is in no entry.
\<close>

theorem ScReconcile_regular:
  assumes "api_laws E v" "codec_laws E valid" and "poolLive v ns (world s)" and "valid (snd rq)"
    and "v (world s) (KStorageClass, fst rq, snd rq) = Some (OStorageClass sc)"
    and "mget (sc_Parameters sc) TopologyStorageClassByMgmtId = None" "om_DeletionTimestamp (sc_Meta sc) = None"
    and "GetStorageClassSecretNamespacedName sc = Inr (n, ns')" "secretAddr (v (world s)) ns' n = Some addr"
    and "mget (sc_Parameters sc) CsiIBMBlockScPool = Some pool" "pool \<noteq> []" "valid pool"
    and "run_state (ScReconcile E ns rq) s = (Ok emptyResult, t)"
  shows "onlyAt (poolKey ns) (v (world s)) (v (world t)) \<and>
    (\<exists>c. atAddress (v (world s)) {c. isCluster (v (world s)) c} addr c \<and>
      (\<forall>k. c = Some k \<longrightarrow> poolEntry v ns (world s) k \<noteq> None) \<and>
      (\<forall>k. poolInfos E (poolEntry v ns (world t)) k =
         map_option (if c = Some k then assign (snd rq) pool else forget (snd rq))
           (poolInfos E (poolEntry v ns (world s)) k)))"
  by (rule ScReconcile_regular_post [OF assms])

lemma demo_sc_state:
  "poolLive storeView ''ns'' (world (demoState (OConfigMap demoPools # xs)))"
  "poolEntry storeView ''ns'' (world (demoState (OConfigMap demoPools # xs))) ''fs1'' = Some (Marshal_content demoContent)"
  by (simp_all add: demoState_def poolLive_def poolEntry_def poolCm_def storeView_def demoPools_def demoCm_def
      keyOf_def poolKey_def PoolConfigmapName_def)

lemma demo_valid: "validUtf8 ''sc1''" "validUtf8 ''p0''"
  by (simp_all add: validUtf8.simps)

lemma demo_forget_run:
  "fst (run_state (ScReconcile storeEnv ''ns'' ([], ''sc1'')) (demoState [OConfigMap demoPools])) = Ok emptyResult"
  by code_simp

theorem ScReconcile_forgets_witness:
  "\<exists>t. run_state (ScReconcile storeEnv ''ns'' ([], ''sc1'')) (demoState [OConfigMap demoPools]) = (Ok emptyResult, t) \<and>
     poolInfos storeEnv (poolEntry storeView ''ns'' (world t)) ''fs1'' =
     map_option (forget ''sc1'') (poolInfos storeEnv (poolEntry storeView ''ns'' (world (demoState [OConfigMap demoPools]))) ''fs1'')"
proof -
  let ?s = "demoState [OConfigMap demoPools]"
  obtain t where run: "run_state (ScReconcile storeEnv ''ns'' ([], ''sc1'')) ?s = (Ok emptyResult, t)"
    using demo_forget_run by (metis prod.collapse)
  have "storeView (world ?s) (KStorageClass, fst ([], ''sc1''), snd ([], ''sc1'')) = None"
    by (simp add: storeView_def demoState_def keyOf_def)
  from ScReconcile_forgets [OF storeEnv_laws storeEnv_codec demo_sc_state(1) _ this run] run demo_valid
  show ?thesis by simp
qed

lemma demo_regular_run:
  "fst (run_state (ScReconcile storeEnv ''ns'' ([], ''sc1'')) (demoState demoWorld)) = Ok emptyResult"
  by code_simp

lemma demo_objects:
  "storeView (world (demoState demoWorld)) (KStorageClass, [], ''sc1'') = Some (OStorageClass demoSc)"
  "secretAddr (storeView (world (demoState demoWorld))) ''ns'' ''fs-secret'' = Some ''10.0.0.1''"
  by (simp_all add: storeView_def demoState_def demoWorld_def keyOf_def demoPools_def demoCm_def demoSc_def demoSecret_def
      secretAddr_def mgets_def SecretManagementAddressKey_def)

theorem ScReconcile_regular_witness:
  "\<exists>t c. run_state (ScReconcile storeEnv ''ns'' ([], ''sc1'')) (demoState demoWorld) = (Ok emptyResult, t) \<and>
     atAddress (storeView (world (demoState demoWorld))) {c. isCluster (storeView (world (demoState demoWorld))) c} ''10.0.0.1'' c \<and>
     (\<forall>k. poolInfos storeEnv (poolEntry storeView ''ns'' (world t)) k =
       map_option (if c = Some k then assign ''sc1'' ''p0'' else forget ''sc1'')
         (poolInfos storeEnv (poolEntry storeView ''ns'' (world (demoState demoWorld))) k))"
proof -
  let ?s = "demoState demoWorld"
  obtain t where run: "run_state (ScReconcile storeEnv ''ns'' ([], ''sc1'')) ?s = (Ok emptyResult, t)"
    using demo_regular_run by (metis prod.collapse)
  have live: "poolLive storeView ''ns'' (world ?s)" unfolding demoWorld_def by (rule demo_sc_state)
  have params: "mget (sc_Parameters demoSc) TopologyStorageClassByMgmtId = None" "om_DeletionTimestamp (sc_Meta demoSc) = None"
    "GetStorageClassSecretNamespacedName demoSc = Inr (''fs-secret'', ''ns'')" "mget (sc_Parameters demoSc) CsiIBMBlockScPool = Some ''p0''"
    by (simp_all add: demoSc_def TopologyStorageClassByMgmtId_def CsiIBMBlockScPool_def GetStorageClassSecretNamespacedName_def
        mgets_def DefaultSecretNameKey_def DefaultSecretNamespaceKey_def)
  have sc: "storeView (world ?s) (KStorageClass, fst ([], ''sc1''), snd ([], ''sc1'')) = Some (OStorageClass demoSc)"
    and ok: "validUtf8 (snd (([] :: string), ''sc1''))" and ne: "''p0'' \<noteq> []"
    using demo_objects(1) demo_valid by simp_all
  from ScReconcile_regular [OF storeEnv_laws storeEnv_codec live ok sc params(1-3) demo_objects(2) params(4) ne demo_valid(2) run] run
  show ?thesis by auto
qed

section \<open>The writes of a pass\<close>

text \<open>A write of the pass is an update of the ConfigMap with the metadata, and so the version, that was read.\<close>

definition poolWrite :: "ObjectMeta \<Rightarrow> req \<Rightarrow> bool" where
  "poolWrite m q \<longleftrightarrow> isWrite q \<longrightarrow> (\<exists>c. q = RUpdate (OConfigMap c) \<and> cm_Meta c = m)"

lemma poolWrite_reads [simp]: "poolWrite m (RGet k ns n)" "poolWrite m (RList k o' l)"
  by (simp_all add: poolWrite_def)

lemma poolWrite_update [simp]: "poolWrite (cm_Meta c) (RUpdate (OConfigMap (c\<lparr>cm_Data := d\<rparr>)))"
  by (simp add: poolWrite_def)

lemma issues_removeStorageClass [issues_intro]: "issues (poolWrite (cm_Meta c)) (removeStorageClassFromConfigMap E c f n)"
  unfolding removeStorageClassFromConfigMap_def Let_def by (intro issues_intro) simp

lemma issues_addStorageClass [issues_intro]: "issues (poolWrite (cm_Meta c)) (addStorageClassToConfigMap E c f n p)"
  unfolding addStorageClassToConfigMap_def Let_def by (intro issues_intro) simp

lemma issues_updateEntries: "issues (poolWrite (cm_Meta c)) (updateEntries E n gone pools c ks)"
proof (induction ks arbitrary: c)
  case (Cons k ks)
  have "issues (poolWrite (cm_Meta c)) (updateEntries E n gone pools (c\<lparr>cm_Data := d\<rparr>) ks)" for d
    using Cons.IH [of "c\<lparr>cm_Data := d\<rparr>"] by simp
  then show ?case unfolding updateEntries.simps by (intro issues_intro)
qed (simp add: issues_ret)

lemma issues_regularLoop: "(\<And>ns n. P (RGet KSecret ns n)) \<Longrightarrow> issues P (regularLoop E sc a cs)"
  by (induction cs) (auto intro!: issues_intro)

lemma issues_getFlashSystemCluster: "issues (poolWrite m) (getFlashSystemClusterByStorageClass E sc isTop)"
  unfolding getFlashSystemClusterByStorageClass_def getFscByTopologyStorageClass_def getFscByRegularStorageClass_def mapClustersByMgmtId_def
  by (intro issues_intro issues_regularLoop) simp_all

lemma issues_ensureConfigMapUpdated: "issues (poolWrite (cm_Meta c)) (ensureConfigMapUpdated E rq sc c)"
  unfolding ensureConfigMapUpdated_def Let_def
  by (intro issues_intro issues_getFlashSystemCluster issues_updateEntries)

text \<open>
  C22: A pass of the storage class watcher never overwrites a ConfigMap it has not read. Whatever the
  server answers: the first call reads the pools ConfigMap, and every write of the pass is an update of
  that ConfigMap that carries the metadata of the answer, with its resource version, so that the
  server refuses it when anybody has changed the ConfigMap since. If the ConfigMap cannot be
  read, the pass writes nothing.
\<close>

theorem ScReconcile_writes:
  "\<exists>r xs. calls (snd (run_state (ScReconcile E ns rq) s)) =
       calls s @ (RGet KConfigMap ns PoolConfigmapName, r) # xs \<and>
     (case r of ROk (OConfigMap c) \<Rightarrow> list_all (poolWrite (cm_Meta c) \<circ> fst) xs | _ \<Rightarrow> xs = [])"
proof -
  define rest where "rest c = do {
        r \<leftarrow> getAs E asStorageClass KStorageClass (fst rq) (snd rq);
        (case r of
           Inl e \<Rightarrow> if IsNotFound e then do { x \<leftarrow> removeFromAll E (snd rq) c (mkeys (cm_Data c)); ret (doneResult x) } else ret (Err e)
         | Inr sc \<Rightarrow> do { x \<leftarrow> ensureConfigMapUpdated E rq sc c; ret (doneResult x) }) }" for c
  have rest: "issues (poolWrite (cm_Meta c)) (rest c)" for c
    unfolding rest_def removeFromAll_updateEntries [of _ _ _ _ NilMap]
    by (intro issues_intro issues_updateEntries issues_ensureConfigMapUpdated) simp
  have body: "ScReconcile E ns rq = do {
      x \<leftarrow> GetCreateConfigmap E ns False;
      r \<leftarrow> (case x of Inl e \<Rightarrow> ret (Err e) | Inr c \<Rightarrow> rest c);
      ret (deferConflict r) }"
    unfolding ScReconcile_def reconcileBody_def rest_def by simp
  obtain r w where a: "api E (RGet KConfigMap ns PoolConfigmapName) (world s) = (r, w)" by fastforce
  let ?t = "afterCall (RGet KConfigMap ns PoolConfigmapName) r w s"
  have got: "run_state (GetCreateConfigmap E ns False) s = (decodeOne asConfigMap r, ?t)"
    by (auto simp: GetCreateConfigmap_def getAs_def call_def a split: sum.split)
  show ?thesis
  proof (cases "decodeOne asConfigMap r")
    case (Inl e)
    then have "calls (snd (run_state (ScReconcile E ns rq) s)) = calls ?t" by (simp add: body got)
    moreover have "r \<noteq> ROk (OConfigMap c)" for c using Inl by (auto simp: decodeOne_eq)
    ultimately show ?thesis by (intro exI [of _ r] exI [of _ "[]"]) (auto split: resp.split kobj.split)
  next
    case (Inr c)
    then have r: "r = ROk (OConfigMap c)" by (simp add: decodeOne_eq)
    obtain x u where run: "run_state (rest c) ?t = (x, u)" by fastforce
    with rest [of c] obtain xs where "calls u = calls ?t @ xs" "list_all (poolWrite (cm_Meta c) \<circ> fst) xs" by (rule issuesE)
    moreover have "snd (run_state (ScReconcile E ns rq) s) = u" by (simp add: body got Inr run)
    ultimately show ?thesis using r by (intro exI [of _ r] exI [of _ xs]) simp
  qed
qed

section \<open>Clusters by management address\<close>

text \<open>\<open>m\<close> holds, for every address of a cluster of \<open>cs\<close>, one of the clusters at that address.\<close>

definition byAddress :: "objects \<Rightarrow> FlashSystemCluster set \<Rightarrow> (string, FlashSystemCluster) gomap \<Rightarrow> bool" where
  "byAddress os cs m \<longleftrightarrow>
     (\<forall>a c. mget m a = Some c \<longrightarrow> c \<in> cs \<and> clusterAddr os c = Some a) \<and>
     (\<forall>c \<in> cs. \<exists>a. clusterAddr os c = Some a \<and> mget m a \<noteq> None)"

lemma wp_mapClustersLoop:
  assumes laws: "api_laws E v" and "byAddress (v (world s)) done' m"
  shows "wpre (mapClustersLoop E cs m) (\<lambda>r t. v (world t) = v (world s) \<and>
     (\<forall>e. r = Inl e \<longrightarrow> \<not> ownError e) \<and>
     (\<forall>m'. r = Inr m' \<longrightarrow> byAddress (v (world s)) (done' \<union> set cs) m')) s"
  using assms(2)
proof (induction cs arbitrary: m done' s)
  case Nil
  then show ?case by (simp add: wp)
next
  case (Cons c cs)
  show ?case
    unfolding mapClustersLoop.simps wp_bind
  proof (rule wp_getAs_laws [OF laws], goal_cases)
    case (2 x y w)
    let ?a = "mgets (sec_Data y) SecretManagementAddressKey"
    have "clusterAddr (v (world s)) c = Some ?a"
      using 2 by (simp add: clusterAddr_def secretAddr_def)
    with Cons.prems have "byAddress (v (world s)) (insert c done') (mput m ?a c)"
      unfolding byAddress_def mget_mput by (metis insert_iff option.distinct(1) option.inject)
    with 2(1) show ?case
      by (simp, intro wp_mono [OF Cons.IH]) (auto simp: Un_insert_left)
  qed (simp add: wp)
qed

lemma wp_MapClustersByMgmtAddress:
  assumes laws: "api_laws E v"
  shows "wpre (MapClustersByMgmtAddress E) (\<lambda>r t. v (world t) = v (world s) \<and>
     (\<forall>e. r = Inl e \<longrightarrow> \<not> ownError e) \<and>
     (\<forall>m. r = Inr m \<longrightarrow> byAddress (v (world s)) {c. isCluster (v (world s)) c} m)) s"
  unfolding MapClustersByMgmtAddress_def wp_bind
proof (rule wp_listAs_laws [OF laws], goal_cases)
  case (2 xs w)
  have "byAddress (v (world s)) {} (MkMap [])" by (simp add: byAddress_def)
  with 2(1) listed_clusters [OF 2(2,3)] show ?case
    by (auto intro!: wp_mono [OF wp_mapClustersLoop [OF laws, of _ "{}"]] simp del: set_map)
qed (simp add: wp)

lemma byAddress_atAddress:
  assumes "byAddress os cs m"
  shows "atAddress os cs a (map_option (\<lambda>c. om_Name (fsc_Meta c)) (mget m a))"
  using assms by (cases "mget m a") (fastforce simp: byAddress_def atAddress_def)+

end
