(* ===== verification/ScTopology.thy ===== *)
theory ScTopology
  imports ScSpec
begin

text \<open>
  The pass over a topology storage class: its secret lists several systems by management id, and its
  parameters may name a pool for each of them.
\<close>

section \<open>The clusters and pools of the management ids\<close>

definition idAddr :: "(string, json) gomap \<Rightarrow> string \<Rightarrow> string option" where
  "idAddr D i = (case mget D i of None \<Rightarrow> None | Some j \<Rightarrow> (case mgmtAddressOf j of Ok a \<Rightarrow> Some a | _ \<Rightarrow> None))"

definition idCluster :: "(string, json) gomap \<Rightarrow> (string, FlashSystemCluster) gomap \<Rightarrow> string \<Rightarrow> FlashSystemCluster option" where
  "idCluster D B i = Option.bind (idAddr D i) (mget B)"

lemma clustersByIdLoop_Ok:
  "clustersByIdLoop D B ids m = Ok m' \<Longrightarrow>
     (\<forall>i \<in> set ids. mget D i \<noteq> None \<longrightarrow> idAddr D i \<noteq> None) \<and>
     (\<forall>i. mget m' i = (if i \<in> set ids \<and> idCluster D B i \<noteq> None then idCluster D B i else mget m i))"
proof (induction ids arbitrary: m)
  case (Cons i ids)
  show ?case
  proof (cases "mget D i")
    case None
    then have no: "idCluster D B i = None" by (simp add: idCluster_def idAddr_def)
    from Cons.prems None have "clustersByIdLoop D B ids m = Ok m'" by simp
    from Cons.IH [OF this] None no show ?thesis by auto
  next
    case (Some j)
    with Cons.prems obtain a where a: "mgmtAddressOf j = Ok a" by (auto split: res.splits)
    with Some have i: "idAddr D i = Some a" "idCluster D B i = mget B a" by (simp_all add: idCluster_def idAddr_def)
    show ?thesis
    proof (cases "mget B a")
      case None
      with Cons.prems Some a have "clustersByIdLoop D B ids m = Ok m'" by simp
      from Cons.IH [OF this] None i show ?thesis by auto
    next
      case c: (Some c)
      with Cons.prems Some a have "clustersByIdLoop D B ids (mput m i c) = Ok m'" by simp
      from Cons.IH [OF this] c i show ?thesis by auto
    qed
  qed
qed simp

lemma clustersByIdLoop_typed:
  "(\<And>i j. mget D i = Some j \<Longrightarrow> \<exists>a. mgmtAddressOf j = Ok a) \<Longrightarrow> \<exists>m'. clustersByIdLoop D byAddr ids m = Ok m'"
  by (induction ids arbitrary: m) (force split: option.split)+

lemma topologyPools_Ok:
  "topologyPools sc P C ids m = Ok m' \<Longrightarrow>
     (\<forall>n. mget m n \<noteq> None \<longrightarrow> mget m' n \<noteq> None) \<and>
     (\<forall>n p. mget m' n = Some p \<longrightarrow> mget m n = Some p \<or>
        (\<exists>i \<in> set ids. \<exists>c. mget C i = Some c \<and> om_Name (fsc_Meta c) = n \<and> extractPoolName sc P i = Ok p)) \<and>
     (\<forall>i \<in> set ids. \<forall>c. mget C i = Some c \<longrightarrow> mget m' (om_Name (fsc_Meta c)) \<noteq> None)"
proof (induction ids arbitrary: m)
  case (Cons i ids)
  show ?case
  proof (cases "mget C i")
    case None
    with Cons.prems have "topologyPools sc P C ids m = Ok m'" by simp
    from Cons.IH [OF this] None show ?thesis by fastforce
  next
    case (Some c)
    with Cons.prems obtain p where p: "extractPoolName sc P i = Ok p"
      "topologyPools sc P C ids (mput m (om_Name (fsc_Meta c)) p) = Ok m'" by (auto split: res.splits)
    from Cons.IH [OF p(2)] Some p(1) show ?thesis
      by (auto split: if_splits) metis+
  qed
qed simp

text \<open>
  \<open>m\<close> maps the clusters of the ids of the secret to pools: only to the pool of an id at whose address the
  cluster is, and for every id with a cluster at its address, one such cluster.
\<close>

definition topologySpec :: "objects \<Rightarrow> StorageClass \<Rightarrow> (string, json) gomap \<Rightarrow> (string, json) gomap
    \<Rightarrow> (string \<Rightarrow> string option) \<Rightarrow> bool" where
  "topologySpec os sc D P m \<longleftrightarrow>
     (\<forall>n p. m n = Some p \<longrightarrow> (\<exists>i c. isCluster os c \<and> om_Name (fsc_Meta c) = n \<and>
        idAddr D i = clusterAddr os c \<and> idAddr D i \<noteq> None \<and> extractPoolName sc P i = Ok p)) \<and>
     (\<forall>i c. mget D i \<noteq> None \<longrightarrow> isCluster os c \<longrightarrow> clusterAddr os c = idAddr D i \<longrightarrow>
        (\<exists>c'. isCluster os c' \<and> clusterAddr os c' = idAddr D i \<and> m (om_Name (fsc_Meta c')) \<noteq> None))"

lemma topologySpec_pools:
  assumes B: "byAddress os {c. isCluster os c} B"
    and C: "clustersByIdLoop D B (mkeys D) (MkMap []) = Ok C"
    and m: "topologyPools sc P C (mkeys C) (MkMap []) = Ok m"
  shows "topologySpec os sc D P (mget m)"
proof -
  have Ci: "mget C i = idCluster D B i" for i
    using clustersByIdLoop_Ok [OF C] by (auto simp: set_mkeys idCluster_def idAddr_def)
  have addr: "mget D i \<noteq> None \<Longrightarrow> idAddr D i \<noteq> None" for i
    using clustersByIdLoop_Ok [OF C] by (auto simp: set_mkeys)
  note pools = topologyPools_Ok [OF m]
  show ?thesis
    unfolding topologySpec_def
  proof (intro conjI allI impI)
    fix n p
    assume "mget m n = Some p"
    with pools have "\<exists>i \<in> set (mkeys C). \<exists>c. mget C i = Some c \<and> om_Name (fsc_Meta c) = n \<and> extractPoolName sc P i = Ok p"
      by simp
    then obtain i c where ic: "mget C i = Some c" "om_Name (fsc_Meta c) = n" "extractPoolName sc P i = Ok p" by blast
    then obtain a where "idAddr D i = Some a" "mget B a = Some c"
      by (auto simp: Ci idCluster_def bind_eq_Some_conv)
    with B ic show "\<exists>i c. isCluster os c \<and> om_Name (fsc_Meta c) = n \<and> idAddr D i = clusterAddr os c \<and>
        idAddr D i \<noteq> None \<and> extractPoolName sc P i = Ok p"
      unfolding byAddress_def by (metis mem_Collect_eq option.distinct(1))
  next
    fix i c
    assume i: "mget D i \<noteq> None" "isCluster os c" "clusterAddr os c = idAddr D i"
    with addr obtain a where a: "idAddr D i = Some a" by blast
    with B i have "mget B a \<noteq> None" unfolding byAddress_def by (metis mem_Collect_eq option.inject)
    then obtain c' where c': "mget B a = Some c'" by blast
    with a have "mget C i = Some c'" by (simp add: Ci idCluster_def)
    with pools have "mget m (om_Name (fsc_Meta c')) \<noteq> None" by (auto simp: in_mkeys_iff)
    with B c' a show "\<exists>c'. isCluster os c' \<and> clusterAddr os c' = idAddr D i \<and> mget m (om_Name (fsc_Meta c')) \<noteq> None"
      unfolding byAddress_def by (metis mem_Collect_eq)
  qed
qed

lemma topologySpec_pool: "topologySpec os sc D P m \<Longrightarrow> m n = Some p \<Longrightarrow> \<exists>i. extractPoolName sc P i = Ok p"
  unfolding topologySpec_def by blast

lemma wp_topology:
  assumes laws: "api_laws E v"
    and D: "kUnmarshalAny E (mgets (sec_Data secret) TopologySecretDataKey) = Inr D"
    and P: "kUnmarshalAny E (mgets (sc_Parameters sc) TopologyStorageClassByMgmtId) = Inr P"
  shows "wpre (getFscByTopologyStorageClass E sc secret) (\<lambda>r t. v (world t) = v (world s) \<and>
     (\<forall>m. r = Ok m \<longrightarrow> topologySpec (v (world s)) sc D P (mget m))) s"
  unfolding getFscByTopologyStorageClass_def mapClustersByMgmtId_def D P sum.case wp_bind
  by (rule wp_mono [OF wp_MapClustersByMgmtAddress [OF laws]])
    (auto simp: wp split: sum.splits res.splits intro: topologySpec_pools)

section \<open>A pass over a topology class\<close>

definition topologySecret :: "'w env \<Rightarrow> objects \<Rightarrow> StorageClass \<Rightarrow> (string, json) gomap \<Rightarrow> bool" where
  "topologySecret E os sc D \<longleftrightarrow> (\<exists>n ns x. GetStorageClassSecretNamespacedName sc = Inr (n, ns) \<and>
     os (KSecret, ns, n) = Some (OSecret x) \<and> kUnmarshalAny E (mgets (sec_Data x) TopologySecretDataKey) = Inr D)"

lemma wp_topology_pools:
  assumes laws: "api_laws E v" and D: "topologySecret E (v (world s)) sc D"
    and P: "kUnmarshalAny E (mgets (sc_Parameters sc) TopologyStorageClassByMgmtId) = Inr P"
  shows "wpre (getFlashSystemClusterByStorageClass E sc True) (\<lambda>r t. v (world t) = v (world s) \<and>
     (\<forall>m. r = Ok m \<longrightarrow> topologySpec (v (world s)) sc D P (mget m))) s"
proof -
  from D obtain n ns x where sec: "GetStorageClassSecretNamespacedName sc = Inr (n, ns)"
    and x: "v (world s) (KSecret, ns, n) = Some (OSecret x)"
    and d: "kUnmarshalAny E (mgets (sec_Data x) TopologySecretDataKey) = Inr D"
    by (auto simp: topologySecret_def)
  show ?thesis
    unfolding getFlashSystemClusterByStorageClass_def GetStorageClassSecret_def sec sum.case prod.case wp_bind
    by (rule wp_getAs_laws [OF laws])
      (use x in \<open>auto simp: wp_ret intro!: wp_mono [OF wp_topology [OF laws d P]]\<close>)
qed

text \<open>Every pool that the class names for an id is a usable name: not empty, and valid text.\<close>

definition poolsUsable :: "(string \<Rightarrow> bool) \<Rightarrow> StorageClass \<Rightarrow> (string, json) gomap \<Rightarrow> bool" where
  "poolsUsable valid sc P \<longleftrightarrow> (\<forall>i p. extractPoolName sc P i = Ok p \<longrightarrow> p \<noteq> [] \<and> valid p)"

lemma topologySpec_usable:
  "topologySpec os sc D P m \<Longrightarrow> poolsUsable valid sc P \<Longrightarrow> m n = Some p \<Longrightarrow> p \<noteq> [] \<and> valid p"
  unfolding poolsUsable_def using topologySpec_pool by metis

lemma ScReconcile_topology_post:
  assumes "api_laws E v" "codec_laws E valid" and "poolLive v ns (world s)" and "valid (snd rq)"
    and "v (world s) (KStorageClass, fst rq, snd rq) = Some (OStorageClass sc)"
    and "mget (sc_Parameters sc) TopologyStorageClassByMgmtId \<noteq> None" "om_DeletionTimestamp (sc_Meta sc) = None"
    and "topologySecret E (v (world s)) sc D"
    and "kUnmarshalAny E (mgets (sc_Parameters sc) TopologyStorageClassByMgmtId) = Inr P"
    and "poolsUsable valid sc P"
    and "run_state (ScReconcile E ns rq) s = (Ok emptyResult, t)"
  shows "onlyAt (poolKey ns) (v (world s)) (v (world t)) \<and>
    (\<exists>m. topologySpec (v (world s)) sc D P m \<and> (\<forall>k. m k \<noteq> None \<longrightarrow> poolEntry v ns (world s) k \<noteq> None) \<and>
      (\<forall>k. poolInfos E (poolEntry v ns (world t)) k =
         map_option (case m k of Some pool \<Rightarrow> assign (snd rq) pool | None \<Rightarrow> forget (snd rq))
           (poolInfos E (poolEntry v ns (world s)) k)))"
proof -
  have "wpre (ScReconcile E ns rq) (\<lambda>r t. r = Ok emptyResult \<longrightarrow> onlyAt (poolKey ns) (v (world s)) (v (world t)) \<and>
    (\<exists>m. topologySpec (v (world s)) sc D P m \<and> (\<forall>k. m k \<noteq> None \<longrightarrow> poolEntry v ns (world s) k \<noteq> None) \<and>
      (\<forall>k. poolInfos E (poolEntry v ns (world t)) k =
         map_option (case m k of Some pool \<Rightarrow> assign (snd rq) pool | None \<Rightarrow> forget (snd rq))
           (poolInfos E (poolEntry v ns (world s)) k)))) s"
  proof (rule wp_ScReconcile [OF assms(1,3)], goal_cases)
    case (2 cm u sc')
    then have sc': "sc' = sc" using assms(5) by simp
    note frame = pool_frame [OF 2(3)]
    have sec: "topologySecret E (v (world u)) sc D"
      using assms(8) 2(3) by (auto simp: topologySecret_def onlyAt_def poolKey_def)
    have spec: "topologySpec (v (world u)) = topologySpec (v (world s))"
      by (simp add: topologySpec_def [abs_def] frame)
    have got: "wpre (getFlashSystemClusterByStorageClass E sc True) (\<lambda>r t. v (world t) = v (world u) \<and> (\<forall>m. r = Ok m \<longrightarrow>
       (\<forall>k p. mget m k = Some p \<longrightarrow> p \<noteq> [] \<and> valid p) \<and> topologySpec (v (world s)) sc D P (mget m))) u"
      by (rule wp_mono [OF wp_topology_pools [OF assms(1) sec assms(9)]])
        (unfold spec, blast dest: topologySpec_usable [OF _ assms(10)])
    have new: "newInfo (snd rq) False m k = (case mget m k of Some pool \<Rightarrow> assign (snd rq) pool | None \<Rightarrow> forget (snd rq))" for m k
      by (auto simp: newInfo_def fun_eq_iff split: option.splits)
    show ?case
      unfolding sc'
      by (rule wp_mono [OF wp_ensureConfigMapUpdated [OF assms(1,2,4) 2(1)]], use got assms(6) in simp)
        (use 2(2,3) assms(7) in \<open>auto simp: new intro: onlyAt_trans\<close>)
  qed (use assms(5) in simp)
  from wp_runD [OF this assms(11)] show ?thesis by simp
qed

text \<open>
  C14: When a pass over an existing topology storage class ends without an error and without asking to be
  run again, the pools ConfigMap says where its volumes can live: in the entry of a cluster the class
  has the pool of one of the management ids at whose address the cluster is, every management
  id with a cluster at its address has such an entry, in every other entry the class does not occur,
  and everything else is what it was.
\<close>

theorem ScReconcile_topology:
  assumes "api_laws E v" "codec_laws E valid" and "poolLive v ns (world s)" and "valid (snd rq)"
    and "v (world s) (KStorageClass, fst rq, snd rq) = Some (OStorageClass sc)"
    and "mget (sc_Parameters sc) TopologyStorageClassByMgmtId \<noteq> None" "om_DeletionTimestamp (sc_Meta sc) = None"
    and "topologySecret E (v (world s)) sc D"
    and "kUnmarshalAny E (mgets (sc_Parameters sc) TopologyStorageClassByMgmtId) = Inr P"
    and "poolsUsable valid sc P"
    and "run_state (ScReconcile E ns rq) s = (Ok emptyResult, t)"
  shows "onlyAt (poolKey ns) (v (world s)) (v (world t)) \<and>
    (\<exists>m. topologySpec (v (world s)) sc D P m \<and> (\<forall>k. m k \<noteq> None \<longrightarrow> poolEntry v ns (world s) k \<noteq> None) \<and>
      (\<forall>k. poolInfos E (poolEntry v ns (world t)) k =
         map_option (case m k of Some pool \<Rightarrow> assign (snd rq) pool | None \<Rightarrow> forget (snd rq))
           (poolInfos E (poolEntry v ns (world s)) k)))"
  by (rule ScReconcile_topology_post [OF assms])

section \<open>A concrete run\<close>

definition topoSecret :: Secret where
  \<open>topoSecret = \<lparr>sec_Meta = mkMeta ''topo'' ''ns'', sec_Data = MkMap [(''config'', ''{"id1":{"management_address":"10.0.0.1"}}'')]\<rparr>\<close>

definition topoSc :: StorageClass where
  \<open>topoSc = \<lparr>sc_Meta = mkMeta ''sc1'' [], sc_Provisioner = ''block.csi.ibm.com'',
     sc_Parameters = MkMap [(''by_management_id'', ''{"id1":{"pool":"p7"}}''), (''csi.storage.k8s.io/secret-name'', ''topo''),
       (''csi.storage.k8s.io/secret-namespace'', ''ns'')]\<rparr>\<close>

definition topoState :: "store st" where
  "topoState = demoState [OConfigMap demoPools, OStorageClass topoSc, OSecret topoSecret, OSecret demoSecret, OFsc demoFsc]"

definition topoIds :: "(string, json) gomap" where
  "topoIds = MkMap [(''id1'', JObj [(''management_address'', JStr ''10.0.0.1'')])]"

definition topoParam :: "(string, json) gomap" where
  "topoParam = MkMap [(''id1'', JObj [(''pool'', JStr ''p7'')])]"

lemma topo_decoded:
  "kUnmarshalAny storeEnv (mgets (sec_Data topoSecret) TopologySecretDataKey) = Inr topoIds"
  "kUnmarshalAny storeEnv (mgets (sc_Parameters topoSc) TopologyStorageClassByMgmtId) = Inr topoParam"
  by code_simp+

lemma topo_run: "fst (run_state (ScReconcile storeEnv ''ns'' ([], ''sc1'')) topoState) = Ok emptyResult"
  by code_simp

lemma topo_pool: "poolsUsable validUtf8 topoSc topoParam"
  by (auto simp: poolsUsable_def extractPoolName_def topoParam_def jget_def CsiIBMBlockScPool_def validUtf8.simps split: if_splits)

lemma topo_state:
  "storeView (world topoState) (KSecret, ''ns'', ''topo'') = Some (OSecret topoSecret)"
  "storeView (world topoState) (KStorageClass, [], ''sc1'') = Some (OStorageClass topoSc)"
  "GetStorageClassSecretNamespacedName topoSc = Inr (''topo'', ''ns'')"
  "om_DeletionTimestamp (sc_Meta topoSc) = None" "poolLive storeView ''ns'' (world topoState)"
  by code_simp+

theorem ScReconcile_topology_witness:
  "\<exists>t m. run_state (ScReconcile storeEnv ''ns'' ([], ''sc1'')) topoState = (Ok emptyResult, t) \<and>
     topologySpec (storeView (world topoState)) topoSc topoIds topoParam m \<and>
     (\<forall>k. poolInfos storeEnv (poolEntry storeView ''ns'' (world t)) k =
         map_option (case m k of Some pool \<Rightarrow> assign ''sc1'' pool | None \<Rightarrow> forget ''sc1'')
           (poolInfos storeEnv (poolEntry storeView ''ns'' (world topoState)) k))"
proof -
  let ?rq = "(([] :: string), ''sc1'')"
  obtain t where run: "run_state (ScReconcile storeEnv ''ns'' ?rq) topoState = (Ok emptyResult, t)"
    using topo_run by (metis prod.collapse)
  have sec: "topologySecret storeEnv (storeView (world topoState)) topoSc topoIds"
    unfolding topologySecret_def using topo_state(1,3) topo_decoded(1) by blast
  have sc: "storeView (world topoState) (KStorageClass, fst ?rq, snd ?rq) = Some (OStorageClass topoSc)"
    and ok: "validUtf8 (snd ?rq)" and top: "mget (sc_Parameters topoSc) TopologyStorageClassByMgmtId \<noteq> None"
    using topo_state(2) demo_valid by (simp_all add: topoSc_def TopologyStorageClassByMgmtId_def)
  from ScReconcile_topology [OF storeEnv_laws storeEnv_codec topo_state(5) ok sc top topo_state(4) sec topo_decoded(2) topo_pool run] run
  show ?thesis unfolding snd_conv by blast
qed

end
