(* ===== verification/PvSpec.thy ===== *)
theory PvSpec
  imports PvController ScTopology
begin

text \<open>What the watcher of persistent volumes guarantees: the label it leaves, and that it writes nothing else.\<close>

section \<open>The label of a volume\<close>

text \<open>
  The management address of a volume: through its claim, the class of the claim and the secret of the class; in a
  topology class the secret has an address for each system, and the handle of the volume names the system.
\<close>

definition systemOf :: "PersistentVolume \<Rightarrow> string option" where
  "systemOf pv =
     (case pv_CSI pv of None \<Rightarrow> None
      | Some csi \<Rightarrow>
          if csi_VolumeHandle csi = [] then None
          else (case Split (csi_VolumeHandle csi) (CHR '':'') of _ # system # _ \<Rightarrow> Some system | _ \<Rightarrow> None))"

definition systemAddr :: "Secret \<Rightarrow> string \<Rightarrow> string option" where
  "systemAddr x system =
     (case Unmarshal_any (mgets (sec_Data x) TopologySecretDataKey) of
        Inl e \<Rightarrow> None
      | Inr D \<Rightarrow> (case mget D system of
                   Some (JObj ms) \<Rightarrow> (case jget ms SecretManagementAddressKey of Some (JStr a) \<Rightarrow> Some a | _ \<Rightarrow> None)
                 | _ \<Rightarrow> None))"

definition classSecretAddr :: "StorageClass \<Rightarrow> PersistentVolume \<Rightarrow> Secret \<Rightarrow> string option" where
  "classSecretAddr sc pv x =
     (if mget (sc_Parameters sc) TopologyStorageClassByMgmtId \<noteq> None then Option.bind (systemOf pv) (systemAddr x)
      else Some (mgets (sec_Data x) SecretManagementAddressKey))"

definition volumeAddr :: "objects \<Rightarrow> PersistentVolume \<Rightarrow> string option" where
  "volumeAddr os pv =
     (case pv_ClaimRef pv of None \<Rightarrow> None
      | Some ref \<Rightarrow>
          (case os (KPvc, ref_Namespace ref, ref_Name ref) of
             Some (OPvc pvc) \<Rightarrow>
               (case pvc_StorageClassName pvc of None \<Rightarrow> None
                | Some scName \<Rightarrow>
                    (case os (KStorageClass, [], scName) of
                       Some (OStorageClass sc) \<Rightarrow>
                         (case GetStorageClassSecretNamespacedName sc of
                            Inl _ \<Rightarrow> None
                          | Inr (n, ns) \<Rightarrow> (case os (KSecret, ns, n) of Some (OSecret x) \<Rightarrow> classSecretAddr sc pv x | _ \<Rightarrow> None))
                     | _ \<Rightarrow> None))
           | _ \<Rightarrow> None))"

lemma topologyAddress_Ok:
  assumes "Option.bind (systemOf pv) (systemAddr x) = Some a"
  shows "topologyAddress pv x = Ok a"
proof -
  from assms obtain i where i: "systemOf pv = Some i" "systemAddr x i = Some a" by (cases "systemOf pv") auto
  from i(1) obtain csi h rest where csi: "pv_CSI pv = Some csi" "csi_VolumeHandle csi \<noteq> []"
    "Split (csi_VolumeHandle csi) (CHR '':'') = h # i # rest"
    by (auto simp: systemOf_def split: option.splits list.splits if_splits)
  from i(2) obtain D ms where D: "Unmarshal_any (mgets (sec_Data x) TopologySecretDataKey) = Inr D" "mget D i = Some (JObj ms)"
    "jget ms SecretManagementAddressKey = Some (JStr a)"
    by (auto simp: systemAddr_def split: sum.splits option.splits json.splits)
  show ?thesis by (simp add: topologyAddress_def csi D Let_def mgmtAddressOf_def)
qed

lemma wp_getPVManagementAddress:
  assumes laws: "api_laws E v" and addr: "volumeAddr (v (world s)) pv = Some a"
  shows "wpre (getPVManagementAddress E pv) (\<lambda>r t. v (world t) = v (world s) \<and> (\<forall>e. r = Err e \<longrightarrow> \<not> ownError e) \<and> (\<forall>x. r = Ok x \<longrightarrow> x = a)) s"
proof -
  let ?Q = "\<lambda>r t. v (world t) = v (world s) \<and> (\<forall>e. r = Err e \<longrightarrow> \<not> ownError e) \<and> (\<forall>x. r = Ok x \<longrightarrow> x = a)"
  obtain ref pvc scName sc n ns x where c: "pv_ClaimRef pv = Some ref"
    "v (world s) (KPvc, ref_Namespace ref, ref_Name ref) = Some (OPvc pvc)" "pvc_StorageClassName pvc = Some scName"
    "v (world s) (KStorageClass, [], scName) = Some (OStorageClass sc)"
    "GetStorageClassSecretNamespacedName sc = Inr (n, ns)" "v (world s) (KSecret, ns, n) = Some (OSecret x)" "classSecretAddr sc pv x = Some a"
    using addr by (auto simp: volumeAddr_def split: option.splits kobj.splits sum.splits)
  have last: "(if mget (sc_Parameters sc) TopologyStorageClassByMgmtId \<noteq> None then topologyAddress pv x
      else Ok (mgets (sec_Data x) SecretManagementAddressKey)) = Ok a"
    using c(7) by (auto simp: classSecretAddr_def topologyAddress_Ok split: if_splits)
  have secret: "wpre (do { s \<leftarrow> GetStorageClassSecret E sc;
      (case s of Inl e \<Rightarrow> ret (Err e) | Inr secret \<Rightarrow> if mget (sc_Parameters sc) TopologyStorageClassByMgmtId \<noteq> None
             then ret (topologyAddress pv secret) else ret (Ok (mgets (sec_Data secret) SecretManagementAddressKey))) }) ?Q u"
    if "v (world u) = v (world s)" for u
    unfolding GetStorageClassSecret_def c sum.case prod.case wp_bind
    by (rule wp_getAs_laws [OF laws]) (use that c last in \<open>auto simp: wp split: if_splits\<close>)
  have class': "wpre (do { c \<leftarrow> getAs E asStorageClass KStorageClass [] scName;
      (case c of Inl e \<Rightarrow> ret (Err e)
       | Inr sc \<Rightarrow> do { s \<leftarrow> GetStorageClassSecret E sc;
      (case s of Inl e \<Rightarrow> ret (Err e)
       | Inr secret \<Rightarrow> if mget (sc_Parameters sc) TopologyStorageClassByMgmtId \<noteq> None
             then ret (topologyAddress pv secret) else ret (Ok (mgets (sec_Data secret) SecretManagementAddressKey))) }) }) ?Q u"
    if "v (world u) = v (world s)" for u
    unfolding wp_bind [of "getAs _ _ _ _ _"]
    by (rule wp_getAs_laws [OF laws]) (use that c secret in \<open>auto simp: wp_ret simp del: not_None_eq\<close>)
  show ?thesis
    unfolding getPVManagementAddress_def c option.case wp_bind [of "getAs _ _ _ _ _"]
    by (rule wp_getAs_laws [OF laws]) (use c in \<open>auto simp: wp_ret simp del: not_None_eq intro!: class'\<close>)
qed

lemma newLabels_label:
  "mget (case newLabels ls c of None \<Rightarrow> ls | Some ls' \<Rightarrow> ls') k =
     (if k = OdfFsStorageSystemLabelKey then map_option (\<lambda>c. om_Name (fsc_Meta c)) c else mget ls k)"
proof (cases ls)
  case NilMap
  then show ?thesis by (cases c) (simp_all add: newLabels_def)
next
  case (MkMap xs)
  then show ?thesis by (cases c) (auto simp: newLabels_def Let_def delete_conv')
qed

lemma newLabels_settled:
  "newLabels (case newLabels ls c of None \<Rightarrow> ls | Some ls' \<Rightarrow> ls') c = None"
proof (cases ls)
  case NilMap
  then show ?thesis by (cases c) (simp_all add: newLabels_def)
next
  case (MkMap xs)
  then show ?thesis by (cases c) (auto simp: newLabels_def Let_def delete_conv')
qed

definition pvLabel :: "objects \<Rightarrow> request \<Rightarrow> string \<Rightarrow> string option" where
  "pvLabel os rq k = (case os (KPv, rq) of Some (OPv pv) \<Rightarrow> mget (om_Labels (pv_Meta pv)) k | _ \<Rightarrow> None)"

lemma wp_ensureStorageSystemLabel:
  assumes laws: "api_laws E v" and pv: "v (world s) (KPv, rq) = Some (OPv pv)" "keyOf (OPv pv) = (KPv, rq)"
    and live: "om_DeletionTimestamp (pv_Meta pv) = None" and addr: "volumeAddr (v (world s)) pv = Some a"
  shows "wpre (ensureStorageSystemLabel E pv) (\<lambda>r t. onlyAt (KPv, rq) (v (world s)) (v (world t)) \<and> (\<forall>e. r = Err e \<longrightarrow> \<not> ownError e) \<and>
     (r = Ok () \<longrightarrow> (\<exists>c. atAddress (v (world s)) {c. isCluster (v (world s)) c} a c \<and>
        (\<forall>k. pvLabel (v (world t)) rq k = (if k = OdfFsStorageSystemLabelKey then c else pvLabel (v (world s)) rq k))))) s"
proof -
  let ?Q = "\<lambda>r t. onlyAt (KPv, rq) (v (world s)) (v (world t)) \<and> (\<forall>e. r = Err e \<longrightarrow> \<not> ownError e) \<and>
     (r = Ok () \<longrightarrow> (\<exists>c. atAddress (v (world s)) {c. isCluster (v (world s)) c} a c \<and>
        (\<forall>k. pvLabel (v (world t)) rq k = (if k = OdfFsStorageSystemLabelKey then c else pvLabel (v (world s)) rq k))))"
  have upd: "wpre (case newLabels (om_Labels (pv_Meta pv)) (mget m a) of
        None \<Rightarrow> ret (Ok ())
      | Some ls \<Rightarrow> do { u \<leftarrow> updateAs E asPv (OPv (setPvLabels ls pv));
          (case u of Inl e \<Rightarrow> ret (Err e) | Inr _ \<Rightarrow> ret (Ok ())) }) ?Q u"
    if "byAddress (v (world s)) {c. isCluster (v (world s)) c} m" "v (world u) = v (world s)" for m u
  proof -
    note c = byAddress_atAddress [OF that(1), of a]
    show ?thesis
    proof (cases "newLabels (om_Labels (pv_Meta pv)) (mget m a)")
      case None
      then have "map_option (\<lambda>c. om_Name (fsc_Meta c)) (mget m a) = mget (om_Labels (pv_Meta pv)) OdfFsStorageSystemLabelKey"
        using newLabels_label [of "om_Labels (pv_Meta pv)" "mget m a" OdfFsStorageSystemLabelKey] by simp
      with None c that(2) pv show ?thesis by (auto simp: wp pvLabel_def)
    next
      case (Some ls)
      have k: "keyOf (OPv (setPvLabels ls pv)) = (KPv, rq)" using pv(2) by (simp add: keyOf_def setPvLabels_def)
      have "wpre (updateAs E asPv (OPv (setPvLabels ls pv))) (\<lambda>x. wpre (case x of Inl e \<Rightarrow> ret (Err e) | Inr _ \<Rightarrow> ret (Ok ())) ?Q) u"
      proof (rule wp_updateAs_laws [OF laws], goal_cases)
        case (2 z x' y w)
        then have "z = OPv pv" using k that(2) pv(1) by simp
        with 2 live have "\<not> released x'" by (simp add: released_def deletionOf_def)
        with 2 k that(2) Some newLabels_label [of "om_Labels (pv_Meta pv)" "mget m a"] c pv show ?case
          by (auto simp: wp onlyAt_def pvLabel_def agrees_def sameEntries_def setPvLabels_def)
      qed (use k that(2) in \<open>simp add: wp\<close>)
      with Some show ?thesis by (simp add: wp_bind)
    qed
  qed
  show ?thesis
    unfolding ensureStorageSystemLabel_def wp_bind [of "getPVManagementAddress _ _"]
  proof (rule wp_mono [OF wp_getPVManagementAddress [OF laws addr]], goal_cases)
    case (1 r t)
    show ?case
    proof (cases r)
      case (Ok x)
      with 1 have x: "x = a" and t: "v (world t) = v (world s)" by auto
      show ?thesis
        unfolding Ok res.case x wp_bind [of "MapClustersByMgmtAddress _"]
      proof (rule wp_mono [OF wp_MapClustersByMgmtAddress [OF laws]], goal_cases)
        case (1 r' t')
        show ?case
        proof (cases r')
          case (Inl e)
          with 1 t show ?thesis by (simp add: wp_ret)
        next
          case (Inr m)
          show ?thesis unfolding Inr sum.case by (rule upd) (use 1 t Inr in auto)
        qed
      qed
    qed (use 1 in \<open>auto simp: wp\<close>)
  qed
qed

text \<open>
  C19: A pass over a persistent volume, of a regular or a topology storage class, labels it with the
  FlashSystemCluster it lives on: when the pass ends without an error and without asking to be run again, the value of
  the storage-system label is the name of a cluster whose secret has the management address of the
  volume (through its claim, the storage class of the claim and the secret of that class, which in a topology
  class has the address of the system in the handle of the volume), the label is
  absent if there is no such cluster, every other label is what it was, and no other object has changed.
\<close>

theorem PvReconcile_labels:
  assumes "api_laws E v" and "v (world s) (KPv, rq) = Some (OPv pv)"
    and "om_DeletionTimestamp (pv_Meta pv) = None" and "volumeAddr (v (world s)) pv = Some a"
    and "run_state (PvReconcile E rq) s = (Ok emptyResult, t)"
  shows "onlyAt (KPv, rq) (v (world s)) (v (world t)) \<and>
    (\<exists>c. atAddress (v (world s)) {c. isCluster (v (world s)) c} a c \<and>
      (\<forall>k. pvLabel (v (world t)) rq k = (if k = OdfFsStorageSystemLabelKey then c else pvLabel (v (world s)) rq k)))"
proof -
  let ?P = "\<lambda>t. onlyAt (KPv, rq) (v (world s)) (v (world t)) \<and>
    (\<exists>c. atAddress (v (world s)) {c. isCluster (v (world s)) c} a c \<and>
      (\<forall>k. pvLabel (v (world t)) rq k = (if k = OdfFsStorageSystemLabelKey then c else pvLabel (v (world s)) rq k)))"
  have key: "keyOf (OPv pv) = (KPv, rq)"
    using api_lawsD(1) [OF assms(1), of "world s" KPv "fst rq" "snd rq"] assms(2) by simp
  have "wpre (PvReconcile E rq) (\<lambda>r t. r = Ok emptyResult \<longrightarrow> ?P t) s"
    unfolding PvReconcile_def pvBody_def wp_bind
  proof (rule wp_getAs_laws [OF assms(1)], goal_cases)
    case (1 e r w)
    then have "\<not> IsNotFound e" using assms(2) by auto
    then show ?case by (simp add: wp deferConflict_Err)
  next
    case (2 x y w)
    then have y: "y = pv" using assms(2) by simp
    let ?u = "afterCall (RGet KPv (fst rq) (snd rq)) (ROk x) w s"
    have pre: "v (world ?u) (KPv, rq) = Some (OPv pv)" "volumeAddr (v (world ?u)) pv = Some a"
      using 2(1) assms(2,4) by simp_all
    show ?case
      unfolding y sum.case wp_bind
      by (rule wp_mono [OF wp_ensureStorageSystemLabel [OF assms(1) pre(1) key assms(3) pre(2)]])
        (use 2(1) in \<open>auto simp: wp deferConflict_Err deferConflict_Panic ownError_def split: res.splits\<close>)
  qed
  from wp_runD [OF this assms(5)] show ?thesis by simp
qed

text \<open>A volume of a topology class; its handle names the first system of the secret.\<close>

definition topoPv :: PersistentVolume where
  "topoPv = demoPv\<lparr>pv_CSI := Some \<lparr>csi_Driver = ''block.csi.ibm.com'', csi_VolumeHandle = ''SVC:id1:2''\<rparr>\<rparr>"

definition topoVolumes :: "store st" where
  "topoVolumes = demoState [OPv topoPv, OPvc demoPvc, OStorageClass topoSc, OSecret topoSecret, OSecret demoSecret, OFsc demoFsc]"

lemma demo_label_run:
  "fst (run_state (PvReconcile storeEnv ([], ''pv1'')) (demoState demoVolumes)) = Ok emptyResult"
  "fst (run_state (PvReconcile storeEnv ([], ''pv1'')) topoVolumes) = Ok emptyResult"
  by code_simp+

lemma demo_volume:
  "storeView (world (demoState demoVolumes)) (KPv, [], ''pv1'') = Some (OPv demoPv)"
  "volumeAddr (storeView (world (demoState demoVolumes))) demoPv = Some ''10.0.0.1''"
  "om_DeletionTimestamp (pv_Meta demoPv) = None"
  "storeView (world topoVolumes) (KPv, [], ''pv1'') = Some (OPv topoPv)"
  "volumeAddr (storeView (world topoVolumes)) topoPv = Some ''10.0.0.1''"
  "om_DeletionTimestamp (pv_Meta topoPv) = None"
  by code_simp+

theorem PvReconcile_labels_witness:
  "(\<exists>t c. run_state (PvReconcile storeEnv ([], ''pv1'')) (demoState demoVolumes) = (Ok emptyResult, t) \<and>
     atAddress (storeView (world (demoState demoVolumes))) {c. isCluster (storeView (world (demoState demoVolumes))) c} ''10.0.0.1'' c \<and>
     pvLabel (storeView (world t)) ([], ''pv1'') OdfFsStorageSystemLabelKey = c) \<and>
   (\<exists>t c. run_state (PvReconcile storeEnv ([], ''pv1'')) topoVolumes = (Ok emptyResult, t) \<and>
     atAddress (storeView (world topoVolumes)) {c. isCluster (storeView (world topoVolumes)) c} ''10.0.0.1'' c \<and>
     pvLabel (storeView (world t)) ([], ''pv1'') OdfFsStorageSystemLabelKey = c)"
proof (rule conjI)
  obtain t where run: "run_state (PvReconcile storeEnv ([], ''pv1'')) (demoState demoVolumes) = (Ok emptyResult, t)"
    using demo_label_run(1) by (metis prod.collapse)
  from PvReconcile_labels [OF storeEnv_laws demo_volume(1,3,2) run] run show
    "\<exists>t c. run_state (PvReconcile storeEnv ([], ''pv1'')) (demoState demoVolumes) = (Ok emptyResult, t) \<and>
     atAddress (storeView (world (demoState demoVolumes))) {c. isCluster (storeView (world (demoState demoVolumes))) c} ''10.0.0.1'' c \<and>
     pvLabel (storeView (world t)) ([], ''pv1'') OdfFsStorageSystemLabelKey = c" by auto
next
  obtain t where run: "run_state (PvReconcile storeEnv ([], ''pv1'')) topoVolumes = (Ok emptyResult, t)"
    using demo_label_run(2) by (metis prod.collapse)
  from PvReconcile_labels [OF storeEnv_laws demo_volume(4,6,5) run] run show
    "\<exists>t c. run_state (PvReconcile storeEnv ([], ''pv1'')) topoVolumes = (Ok emptyResult, t) \<and>
     atAddress (storeView (world topoVolumes)) {c. isCluster (storeView (world topoVolumes)) c} ''10.0.0.1'' c \<and>
     pvLabel (storeView (world t)) ([], ''pv1'') OdfFsStorageSystemLabelKey = c" by auto
qed

section \<open>The writes of a pass\<close>

text \<open>The only write is an update of the volume that was read, with the label set or removed.\<close>

definition labelWrite :: "PersistentVolume \<Rightarrow> req \<Rightarrow> bool" where
  "labelWrite pv q \<longleftrightarrow> isWrite q \<longrightarrow> (\<exists>ls. q = RUpdate (OPv (setPvLabels ls pv)) \<and>
     mget ls OdfFsStorageSystemLabelKey \<noteq> mget (om_Labels (pv_Meta pv)) OdfFsStorageSystemLabelKey \<and>
     (\<forall>k. k \<noteq> OdfFsStorageSystemLabelKey \<longrightarrow> mget ls k = mget (om_Labels (pv_Meta pv)) k))"

lemma labelWrite_reads [simp]: "labelWrite pv (RGet k ns n)" "labelWrite pv (RList k o' l)"
  by (simp_all add: labelWrite_def)

lemma newLabels_changes:
  "newLabels ls c = Some ls' \<Longrightarrow> mget ls' OdfFsStorageSystemLabelKey \<noteq> mget ls OdfFsStorageSystemLabelKey"
  by (cases ls) (auto simp: newLabels_def Let_def delete_conv' split: option.splits if_splits)

lemma labelWrite_update:
  "newLabels (om_Labels (pv_Meta pv)) c = Some ls \<Longrightarrow> labelWrite pv (RUpdate (OPv (setPvLabels ls pv)))"
  using newLabels_label [of "om_Labels (pv_Meta pv)" c] newLabels_changes [of "om_Labels (pv_Meta pv)" c ls]
  by (auto simp: labelWrite_def)

lemma issues_getPVManagementAddress: "issues (labelWrite pv) (getPVManagementAddress E pv')"
  unfolding getPVManagementAddress_def by (intro issues_intro) simp_all

lemma issues_ensureStorageSystemLabel: "issues (labelWrite pv) (ensureStorageSystemLabel E pv)"
proof -
  have upd: "issues (labelWrite pv) (case newLabels (om_Labels (pv_Meta pv)) c of
        None \<Rightarrow> ret (Ok ())
      | Some ls \<Rightarrow> do { u \<leftarrow> updateAs E asPv (OPv (setPvLabels ls pv));
          (case u of Inl e \<Rightarrow> ret (Err e) | Inr _ \<Rightarrow> ret (Ok ())) })" for c
    by (cases "newLabels (om_Labels (pv_Meta pv)) c") (auto intro!: issues_intro labelWrite_update)
  show ?thesis
    unfolding ensureStorageSystemLabel_def
    by (intro upd issues_getPVManagementAddress issues_MapClustersByMgmtAddress issues_ret issues_bind
        issues_case_res issues_case_sum) simp_all
qed

text \<open>
  C23: A pass of the volume watcher disturbs nothing but the label. Whatever the server answers: the first
  call reads the volume, and every write of the pass is an update of the volume as it was read
  in which the storage-system label has another value and every other label the same; a volume
  whose label is right is not written.
\<close>

theorem PvReconcile_writes:
  "\<exists>r xs. calls (snd (run_state (PvReconcile E rq) s)) = calls s @ (RGet KPv (fst rq) (snd rq), r) # xs \<and>
     (case r of ROk (OPv pv) \<Rightarrow> list_all (labelWrite pv \<circ> fst) xs | _ \<Rightarrow> xs = [])"
proof -
  obtain r w where a: "api E (RGet KPv (fst rq) (snd rq)) (world s) = (r, w)" by fastforce
  let ?t = "afterCall (RGet KPv (fst rq) (snd rq)) r w s"
  have got: "run_state (getAs E asPv KPv (fst rq) (snd rq)) s = (decodeOne asPv r, ?t)"
    by (simp add: getAs_def call_def a)
  show ?thesis
  proof (cases "decodeOne asPv r")
    case (Inl e)
    then have "calls (snd (run_state (PvReconcile E rq) s)) = calls ?t" by (simp add: PvReconcile_def pvBody_def got)
    moreover have "r \<noteq> ROk (OPv pv)" for pv using Inl by (auto simp: decodeOne_eq)
    ultimately show ?thesis by (intro exI [of _ r] exI [of _ "[]"]) (auto split: resp.split kobj.split)
  next
    case (Inr pv)
    then have r: "r = ROk (OPv pv)" by (simp add: decodeOne_eq)
    obtain x u where run: "run_state (ensureStorageSystemLabel E pv) ?t = (x, u)" by fastforce
    with issues_ensureStorageSystemLabel obtain xs where "calls u = calls ?t @ xs" "list_all (labelWrite pv \<circ> fst) xs"
      by (rule issuesE)
    moreover have "snd (run_state (PvReconcile E rq) s) = u"
      by (cases x) (simp_all add: PvReconcile_def pvBody_def got Inr run)
    ultimately show ?thesis using r by (intro exI [of _ r] exI [of _ xs]) simp
  qed
qed

end
