(* ===== verification/Outcomes.thy ===== *)
theory Outcomes
  imports ScTopology FscLife
begin

text \<open>
  Every outcome of a pass for the pools ConfigMap, the failing ones included: an update that was refused, one
  whose answer was lost, a step that failed before or after the ConfigMap was written, a panic. The
  server applies a write as a whole or not at all; that is the one law added to \<^const>\<open>api_laws\<close>.
\<close>

section \<open>Writes that are not acknowledged\<close>

fun wholeWrite :: "req \<Rightarrow> objects \<Rightarrow> objects \<Rightarrow> bool" where
  "wholeWrite (RCreate x) a b \<longleftrightarrow> b (keyOf x) = a (keyOf x) \<or>
     a (keyOf x) = None \<and> (\<exists>y. agrees x y \<and> deletionOf y = None \<and> b (keyOf x) = Some y)"
| "wholeWrite (RUpdate x) a b \<longleftrightarrow> b (keyOf x) = a (keyOf x) \<or>
     (\<exists>z y. a (keyOf x) = Some z \<and> agrees x y \<and> deletionOf y = deletionOf z \<and>
        b (keyOf x) = (if released y then None else Some y))"
| "wholeWrite q a b \<longleftrightarrow> True"

definition atomic_laws :: "'w env \<Rightarrow> 'w view \<Rightarrow> bool" where
  "atomic_laws E v \<longleftrightarrow> (\<forall>q w. wholeWrite q (v w) (v (snd (api E q w))))"

lemma storeEnv_atomic: "atomic_laws storeEnv storeView"
proof -
  have "wholeWrite q (storeView w) (storeView (snd (storeApi q w)))" for q w
  proof (cases q)
    case (RCreate x)
    then show ?thesis
      by (cases "lookupObj (objs w) (keyOf x)") (auto simp: storeView_def statusErr_def Let_def tick_def agrees_stored)
  next
    case (RUpdate x)
    show ?thesis
    proof (cases "lookupObj (objs w) (keyOf x)")
      case (Some z)
      let ?y = "stamp (clock w) (deletionOf z) (withStatusOf (serialise x) z)"
      have "storeView (snd (storeApi (RUpdate x) w)) (keyOf x) =
          (if versionOf z \<noteq> versionOf x then Some z else if released ?y then None else Some ?y)"
        using Some by (simp add: storeView_def Let_def tick_def)
      moreover have "storeView w (keyOf x) = Some z" using Some by (simp add: storeView_def)
      moreover have "agrees x ?y \<and> deletionOf ?y = deletionOf z" by (simp add: agrees_stored)
      ultimately show ?thesis
        unfolding RUpdate wholeWrite.simps by (metis (no_types, lifting))
    qed (simp add: RUpdate storeView_def)
  qed simp_all
  then show ?thesis by (simp add: atomic_laws_def storeEnv_def)
qed

lemma wp_call_atomic:
  assumes "api_laws E v" "atomic_laws E v"
    and "\<And>r w. answers q r (v (world s)) (v w) \<Longrightarrow> wholeWrite q (v (world s)) (v w) \<Longrightarrow> Q r (afterCall q r w s)"
  shows "wpre (call E q) Q s"
proof -
  obtain r w where a: "api E q (world s) = (r, w)" by fastforce
  with assms(2) have "wholeWrite q (v (world s)) (v w)" unfolding atomic_laws_def by (metis snd_conv)
  with assms(3) api_lawsD(2) [OF assms(1) a] a show ?thesis by (simp add: wp_call)
qed

text \<open>Only the ConfigMap may have changed.\<close>

lemma pools_eq:
  assumes "v w (poolKey ns) = v w' (poolKey ns)"
  shows "poolEntry v ns w = poolEntry v ns w'" "poolLive v ns w = poolLive v ns w'"
  using assms by (simp_all add: poolEntry_def poolLive_def poolCm_def fun_eq_iff)

definition moved :: "'w view \<Rightarrow> string \<Rightarrow> 'w st \<Rightarrow> 'w st \<Rightarrow> bool" where
  "moved v ns s t \<longleftrightarrow> onlyAt (poolKey ns) (v (world s)) (v (world t))"

lemma moved_refl [simp]: "moved v ns s s" by (simp add: moved_def)

lemma moved_trans: "moved v ns s t \<Longrightarrow> moved v ns t u \<Longrightarrow> moved v ns s u"
  by (auto simp: moved_def intro: onlyAt_trans)

lemma inSync_stored:
  assumes key: "keyOf (OConfigMap cm) = poolKey ns" and live: "poolLive v ns w"
    and z: "v w (poolKey ns) = Some z" "keyOf z = poolKey ns"
    and y: "agrees (OConfigMap cm) y" "deletionOf y = deletionOf z" "v w' (poolKey ns) = (if released y then None else Some y)"
  shows "inSync v ns w' cm" and "y = OConfigMap c \<Longrightarrow> inSync v ns w' c"
proof -
  from z(2) obtain c' where "z = OConfigMap c'" by (cases z) (auto simp: keyOf_def poolKey_def)
  with live z y(2) have del: "deletionOf y = None" by (simp add: poolLive_def poolCm_def deletionOf_def)
  from y(1) key have "keyOf y = poolKey ns" by (simp add: agrees_def)
  then obtain c where c: "y = OConfigMap c" by (cases y) (auto simp: keyOf_def poolKey_def)
  with y(3) del have w': "v w' (poolKey ns) = Some (OConfigMap c)" by (simp add: released_def)
  from w' del c y(1) key show "inSync v ns w' cm"
    by (auto simp: inSync_def poolLive_def poolCm_def poolEntry_upd agrees_def sameEntries_def deletionOf_def)
  from w' del c y(1) key show "inSync v ns w' c'" if "y = OConfigMap c'" for c'
    using that by (auto simp: inSync_def poolLive_def poolCm_def poolEntry_upd agrees_def deletionOf_def)
qed

text \<open>An update of the ConfigMap, for every answer.\<close>

lemma wp_update_any:
  assumes laws: "api_laws E v" "atomic_laws E v" and sync: "keyOf (OConfigMap cm) = poolKey ns" "poolLive v ns (world s)"
    and Any: "\<And>r t. moved v ns s t \<Longrightarrow> v (world t) = v (world s) \<or> inSync v ns (world t) cm \<Longrightarrow>
       (\<And>c. r = Inr c \<Longrightarrow> inSync v ns (world t) cm \<and> inSync v ns (world t) c) \<Longrightarrow> Q r t"
  shows "wpre (updateAs E asConfigMap (OConfigMap cm)) Q s"
  unfolding updateAs_def wp
proof (rule wp_call_atomic [OF laws])
  fix r w
  let ?t = "afterCall (RUpdate (OConfigMap cm)) r w s"
  assume a: "answers (RUpdate (OConfigMap cm)) r (v (world s)) (v w)" and b: "wholeWrite (RUpdate (OConfigMap cm)) (v (world s)) (v w)"
  have zk: "keyOf z = poolKey ns" if "v (world s) (poolKey ns) = Some z" for z
    using api_laws_key [OF laws(1) that] .
  have only: "onlyAt (poolKey ns) (v (world s)) (v w)" using a sync(1) by simp
  show "Q (decodeOne asConfigMap r) ?t"
  proof (rule Any)
    show "moved v ns s ?t" using only by (simp add: moved_def)
    show "v (world ?t) = v (world s) \<or> inSync v ns (world ?t) cm"
    proof (cases "v w (poolKey ns) = v (world s) (poolKey ns)")
      case True
      with only show ?thesis using onlyAt_upd [OF only] by simp
    next
      case False
      with b sync(1) obtain z y where "v (world s) (poolKey ns) = Some z" "agrees (OConfigMap cm) y" "deletionOf y = deletionOf z"
        "v w (poolKey ns) = (if released y then None else Some y)" by auto
      from inSync_stored(1) [OF sync this(1) zk [OF this(1)] this(2-4)] show ?thesis by simp
    qed
    fix c
    assume "decodeOne asConfigMap r = Inr c"
    then have r: "r = ROk (OConfigMap c)" by (auto simp: decodeOne_eq)
    with a sync(1) obtain z where "v (world s) (poolKey ns) = Some z" "deletionOf (OConfigMap c) = deletionOf z"
      "agrees (OConfigMap cm) (OConfigMap c)" "v w (poolKey ns) = (if released (OConfigMap c) then None else Some (OConfigMap c))"
      by (auto split: option.splits)
    from inSync_stored [OF sync this(1) zk [OF this(1)] this(3,2,4)] show "inSync v ns (world ?t) cm \<and> inSync v ns (world ?t) c"
      by simp
  qed
qed

lemma wp_update_entries:
  assumes laws: "api_laws E v" "atomic_laws E v" and sync: "keyOf (OConfigMap cm) = poolKey ns" "poolLive v ns (world s)"
    and Fail: "\<And>e t. moved v ns s t \<Longrightarrow> poolEntry v ns (world t) \<in> {poolEntry v ns (world s), mget (cm_Data cm)} \<Longrightarrow> Q (Inl e) t"
    and Done: "\<And>c t. moved v ns s t \<Longrightarrow> inSync v ns (world t) cm \<Longrightarrow> inSync v ns (world t) c \<Longrightarrow>
       poolEntry v ns (world t) = mget (cm_Data cm) \<Longrightarrow> Q (Inr c) t"
  shows "wpre (updateAs E asConfigMap (OConfigMap cm)) Q s"
proof (rule wp_update_any [OF laws sync], goal_cases)
  case (1 r t)
  have e: "poolEntry v ns (world t) = mget (cm_Data cm)" if "inSync v ns (world t) cm" using that by (auto simp: inSync_def)
  show ?case
  proof (cases r)
    case (Inl x)
    from 1(2) have "poolEntry v ns (world t) \<in> {poolEntry v ns (world s), mget (cm_Data cm)}"
      using e pools_eq(1) [of v "world t" ns "world s"] by fastforce
    with Fail [OF 1(1)] Inl show ?thesis by simp
  next
    case (Inr c)
    with 1(3) Done [OF 1(1) _ _ e] show ?thesis by simp
  qed
qed

text \<open>The ConfigMap is read, or created when it is missing, for every answer.\<close>

definition gotPools :: "'w view \<Rightarrow> string \<Rightarrow> 'w st \<Rightarrow> goerr + ConfigMap \<Rightarrow> 'w st \<Rightarrow> bool" where
  "gotPools v ns s r t \<longleftrightarrow> moved v ns s t \<and> poolEntry v ns (world t) = poolEntry v ns (world s) \<and> poolLive v ns (world t) \<and>
     (\<forall>cm. r = Inr cm \<longrightarrow> inSync v ns (world t) cm)"

lemma gotPools_same: "v (world t) = v (world s) \<Longrightarrow> poolLive v ns (world s) \<Longrightarrow>
    gotPools v ns s (Inl e) t"
  using pools_eq [of v "world t" ns "world s"] by (simp add: gotPools_def moved_def)

lemma wp_create_pools:
  assumes laws: "api_laws E v" "atomic_laws E v" and live: "poolLive v ns (world s)"
  shows "wpre (createAs E asConfigMap (OConfigMap ((initScPoolConfigMap ns)\<lparr>cm_Data := MkMap []\<rparr>))) (gotPools v ns s) s"
  unfolding createAs_def wp
proof (rule wp_call_atomic [OF laws])
  fix r w
  let ?cm = "(initScPoolConfigMap ns)\<lparr>cm_Data := MkMap []\<rparr>"
  let ?t = "afterCall (RCreate (OConfigMap ?cm)) r w s"
  have k: "keyOf (OConfigMap ?cm) = poolKey ns" by (simp add: keyOf_ConfigMap initScPoolConfigMap_def)
  assume a: "answers (RCreate (OConfigMap ?cm)) r (v (world s)) (v w)" and b: "wholeWrite (RCreate (OConfigMap ?cm)) (v (world s)) (v w)"
  have only: "onlyAt (poolKey ns) (v (world s)) (v w)" using a k by simp
  have created: "gotPools v ns s (decodeOne asConfigMap r) ?t"
    if y: "v (world s) (poolKey ns) = None" "agrees (OConfigMap ?cm) y" "deletionOf y = None" "v w (poolKey ns) = Some y" for y
  proof -
    from y(2) k have yk: "keyOf y = poolKey ns" by (simp add: agrees_def)
    then obtain c where c: "y = OConfigMap c" by (cases y) (auto simp: keyOf_def poolKey_def)
    with y yk only have "inSync v ns w c" and empty: "mget (cm_Data c) k = None" for k
      by (auto simp: inSync_def poolLive_def poolCm_def poolEntry_upd agrees_def sameEntries_def deletionOf_def)
    moreover have "cm' = c" if "decodeOne asConfigMap r = Inr cm'" for cm'
      using that a k y(4) c by (auto simp: decodeOne_eq)
    moreover have "poolEntry v ns w = poolEntry v ns (world s)"
      using y(1,4) c empty by (simp add: poolEntry_def poolCm_def fun_eq_iff)
    ultimately show ?thesis using only by (auto simp: gotPools_def moved_def inSync_def)
  qed
  show "gotPools v ns s (decodeOne asConfigMap r) ?t"
  proof (cases "decodeOne asConfigMap r")
    case (Inl e)
    show ?thesis
    proof (cases "v w (poolKey ns) = v (world s) (poolKey ns)")
      case True
      with onlyAt_upd [OF only] Inl live show ?thesis by (auto intro: gotPools_same)
    next
      case False
      with b k created show ?thesis by auto
    qed
  next
    case (Inr c)
    then have "r = ROk (OConfigMap c)" by (auto simp: decodeOne_eq)
    with a k created show ?thesis by auto
  qed
qed

lemma wp_get_pools:
  assumes laws: "api_laws E v" "atomic_laws E v" and live: "poolLive v ns (world s)"
  shows "wpre (GetCreateConfigmap E ns c) (gotPools v ns s) s"
  unfolding GetCreateConfigmap_def wp_bind [of "getAs _ _ _ _ _"]
proof (rule wp_getAs_laws [OF laws(1)], goal_cases)
  case (1 e r w)
  let ?t = "afterCall (RGet KConfigMap ns PoolConfigmapName) r w s"
  have same: "v (world ?t) = v (world s)" using 1 by (simp del: split_paired_All)
  note pools = pools_eq [of v w ns "world s", unfolded 1(1), OF refl]
  have live': "poolLive v ns (world ?t)" using live pools by simp
  have "wpre (createAs E asConfigMap (OConfigMap ((initScPoolConfigMap ns)\<lparr>cm_Data := MkMap []\<rparr>)))
     (\<lambda>r. wpre (case r of Inl e' \<Rightarrow> ret (Inl e') | Inr cm \<Rightarrow> ret (Inr cm)) (gotPools v ns s)) ?t"
    by (rule wp_mono [OF wp_create_pools [OF laws live']])
      (use 1(1) pools in \<open>auto simp: gotPools_def moved_def wp split: sum.splits simp del: split_paired_All\<close>)
  moreover have "gotPools v ns s (Inl e) ?t" using gotPools_same [OF same live] .
  ultimately show ?case by (auto simp: wp)
next
  case (2 x y w)
  then have "inSync v ns w y" using live
    by (auto simp: inSync_def poolKey_def poolLive_def poolCm_def poolEntry_def)
  moreover note pools_eq [of v w ns "world s"]
  ultimately show ?case using 2(1) live by (simp add: wp gotPools_def moved_def)
qed

section \<open>The entry of a cluster\<close>

text \<open>\<open>b\<close>: whether the step reported success.\<close>

definition removal :: "string \<Rightarrow> bool \<Rightarrow> (string \<Rightarrow> string option) \<Rightarrow> (string \<Rightarrow> string option) \<Rightarrow> bool" where
  "removal n b f g \<longleftrightarrow> g = f(n := None) \<or> \<not> b \<and> g = f"

definition ensuring :: "string \<Rightarrow> string \<Rightarrow> bool \<Rightarrow> (string \<Rightarrow> string option) \<Rightarrow> (string \<Rightarrow> string option) \<Rightarrow> bool" where
  "ensuring n val b f g \<longleftrightarrow> g = ensuredEntry n val f \<or> \<not> b \<and> (g = f \<or> g = f(PoolsKey := None))"

lemma wp_remove_any:
  assumes laws: "api_laws E v" "atomic_laws E v" and live: "poolLive v (watchNamespace s) (world s)"
  shows "wpre (removeFscFromConfigMap E n) (\<lambda>r t. moved v (watchNamespace s) s t \<and>
     removal n (r = Inr ()) (poolEntry v (watchNamespace s) (world s)) (poolEntry v (watchNamespace s) (world t))) s"
  unfolding removeFscFromConfigMap_def wp
proof (rule wp_mono [OF wp_get_pools [OF laws live]], goal_cases)
  case (1 r t)
  let ?ns = "watchNamespace s"
  show ?case
  proof (cases r)
    case (Inr cm)
    with 1 have sync: "inSync v ?ns (world t) cm" by (simp add: gotPools_def)
    let ?c = "cm\<lparr>cm_Data := mdel (cm_Data cm) n\<rparr>"
    have f: "poolEntry v ?ns (world t) = poolEntry v ?ns (world s)" and m: "moved v ?ns s t" using 1 by (simp_all add: gotPools_def)
    have g: "mget (cm_Data ?c) = (poolEntry v ?ns (world s))(n := None)"
      using sync f by (auto simp: inSync_def fun_eq_iff)
    have k: "keyOf (OConfigMap ?c) = poolKey ?ns" "poolLive v ?ns (world t)"
      using sync by (simp_all add: inSync_def keyOf_ConfigMap)
    show ?thesis
      unfolding Inr sum.case
      by (rule wp_update_entries [OF laws k]; drule moved_trans [OF m]) (auto simp: wp removal_def f g [simplified])
  qed (use 1 in \<open>simp add: gotPools_def removal_def wp\<close>)
qed

definition adding :: "string \<Rightarrow> string \<Rightarrow> (string \<Rightarrow> string option) \<Rightarrow> string \<Rightarrow> string option" where
  "adding n val f k = (if k = n \<and> f k = None then Some val else f k)"

lemma ensuredEntry_adding: "ensuredEntry n val f = adding n val (f(PoolsKey := None))"
  by (auto simp: fun_eq_iff ensuredEntry_def adding_def Let_def)

lemma adding_present: "f n \<noteq> None \<Longrightarrow> adding n val f = f"
  by (auto simp: fun_eq_iff adding_def)

lemma wp_add_any:
  assumes laws: "api_laws E v" "atomic_laws E v" and val: "kMarshal E (newContent inst) = Inr val"
    and sync: "inSync v ns (world s) cm"
  shows "wpre (addFscEntry E inst cm) (\<lambda>r t. moved v ns s t \<and>
     (poolEntry v ns (world t) = adding (om_Name (fsc_Meta inst)) val (mget (cm_Data cm)) \<or>
      r \<noteq> Ok () \<and> poolEntry v ns (world t) = mget (cm_Data cm))) s"
proof -
  let ?n = "om_Name (fsc_Meta inst)"
  have f: "poolEntry v ns (world s) = mget (cm_Data cm)" using sync by (simp add: inSync_def fun_eq_iff)
  show ?thesis
  proof (cases "mget (cm_Data cm) ?n = None \<and> cm_Data cm \<noteq> NilMap")
    case True
    then have m: "mset (cm_Data cm) ?n val = Some (mput (cm_Data cm) ?n val)" by (simp add: mset_eq_Some)
    let ?c = "cm\<lparr>cm_Data := mput (cm_Data cm) ?n val\<rparr>"
    have g: "mget (cm_Data ?c) = adding ?n val (mget (cm_Data cm))"
      using True by (auto simp: fun_eq_iff adding_def)
    have k: "keyOf (OConfigMap ?c) = poolKey ns" "poolLive v ns (world s)"
      using sync by (simp_all add: inSync_def keyOf_ConfigMap)
    have body: "addFscEntry E inst cm = do { r \<leftarrow> updateAs E asConfigMap (OConfigMap ?c);
        (case r of Inl e \<Rightarrow> ret (Err e) | Inr _ \<Rightarrow> ret (Ok ())) }"
      using True val m by (simp add: addFscEntry_def Let_def)
    show ?thesis
      unfolding body wp_bind by (rule wp_update_entries [OF laws k]) (auto simp: wp f g [simplified])
  next
    case False
    then show ?thesis
      using f val adding_present [of "mget (cm_Data cm)" ?n val] by (auto simp: addFscEntry_def Let_def wp)
  qed
qed

lemma wp_ensure_any:
  assumes laws: "api_laws E v" "atomic_laws E v" and live: "poolLive v (watchNamespace s) (world s)"
    and val: "kMarshal E (newContent inst) = Inr val"
  shows "wpre (ensureScPoolConfigMap E inst) (\<lambda>r t. moved v (watchNamespace s) s t \<and>
     ensuring (om_Name (fsc_Meta inst)) val (r = Ok ()) (poolEntry v (watchNamespace s) (world s))
       (poolEntry v (watchNamespace s) (world t))) s"
proof -
  let ?ns = "watchNamespace s" and ?n = "om_Name (fsc_Meta inst)" and ?f = "poolEntry v (watchNamespace s) (world s)"
  let ?Q = "\<lambda>r t. moved v ?ns s t \<and> ensuring ?n val (r = Ok ()) ?f (poolEntry v ?ns (world t))"
  show ?thesis
    unfolding ensureScPoolConfigMap_def wp_bind [of askNamespace] wp_bind [of "GetCreateConfigmap _ _ _"] wp_askNamespace
  proof (rule wp_mono [OF wp_get_pools [OF laws live]], goal_cases)
    case (1 r t)
    show ?case
    proof (cases r)
      case (Inr cm0)
      define cm where "cm = (if cm_Data cm0 = NilMap then cm0\<lparr>cm_Data := MkMap []\<rparr> else cm0)"
      from 1 Inr have sync: "inSync v ?ns (world t) cm" and f: "mget (cm_Data cm) = ?f"
        by (auto simp: gotPools_def cm_def inSync_def keyOf_ConfigMap fun_eq_iff)
      have add: "wpre (addFscEntry E inst c) ?Q u"
        if "moved v ?ns s u" "inSync v ?ns (world u) c" "mget (cm_Data c) = ?f(PoolsKey := None)" for c u
        by (rule wp_mono [OF wp_add_any [OF laws val that(2)]])
          (use that(1,3) in \<open>auto simp: ensuring_def ensuredEntry_adding intro: moved_trans\<close>)
      show ?thesis
      proof (cases "?f PoolsKey = None")
        case True
        then have "?f(PoolsKey := None) = ?f" by (auto simp: fun_eq_iff)
        with True show ?thesis
          unfolding Inr sum.case cm_def [symmetric] Let_def f
          using add [of t cm] sync f 1 by (simp add: gotPools_def)
      next
        case False
        let ?c = "cm\<lparr>cm_Data := mdel (cm_Data cm) PoolsKey\<rparr>"
        have g: "mget (cm_Data ?c) = ?f(PoolsKey := None)" using f by (auto simp: fun_eq_iff)
        have mv: "moved v ?ns s t" and ft: "poolEntry v ?ns (world t) = ?f" using 1 by (simp_all add: gotPools_def)
        have k: "keyOf (OConfigMap ?c) = poolKey ?ns" "poolLive v ?ns (world t)"
          using sync by (simp_all add: inSync_def keyOf_ConfigMap)
        have "wpre (do { r \<leftarrow> updateAs E asConfigMap (OConfigMap ?c);
            (case r of Inl e \<Rightarrow> ret (Err e) | Inr c \<Rightarrow> addFscEntry E inst c) }) ?Q t"
          unfolding wp_bind
        proof (rule wp_update_entries [OF laws k], goal_cases)
          case (1 e u)
          with mv moved_trans [OF mv 1(1)] show ?case by (auto simp: wp ensuring_def ft g [simplified])
        next
          case (2 c u)
          then have "mget (cm_Data c) = ?f(PoolsKey := None)" using g by (auto simp: inSync_def fun_eq_iff)
          from add [OF moved_trans [OF mv 2(1)] 2(3) this] show ?case by simp
        qed
        with False show ?thesis
          unfolding Inr sum.case cm_def [symmetric] Let_def f by simp
      qed
    qed (use 1 in \<open>simp add: gotPools_def ensuring_def wp\<close>)
  qed
qed

section \<open>The entries during a pass over a storage class\<close>

text \<open>
  \<open>rewritten E h D f g\<close>: no entry comes or goes, and what an entry decodes to is as it was or rewritten
  with \<open>h\<close>; the entries of \<open>D\<close> are rewritten for sure.
\<close>

definition rewritten :: "'w env \<Rightarrow> (string \<Rightarrow> poolInfo \<Rightarrow> poolInfo) \<Rightarrow> string set \<Rightarrow> (string \<Rightarrow> string option)
    \<Rightarrow> (string \<Rightarrow> string option) \<Rightarrow> bool" where
  "rewritten E h D f g \<longleftrightarrow> (\<forall>k. (f k = None \<longleftrightarrow> g k = None) \<and>
     (poolInfos E g k = map_option (h k) (poolInfos E f k) \<or> k \<notin> D \<and> poolInfos E g k = poolInfos E f k))"

lemma rewritten_refl [simp]: "rewritten E h {} f f"
  by (simp add: rewritten_def)

lemma rewritten_trans:
  assumes "rewritten E h A f g" "rewritten E h B g u" and "\<And>k i. h k (h k i) = h k i"
  shows "rewritten E h (A \<union> B) f u"
  unfolding rewritten_def
proof (intro allI conjI)
  fix k
  note fg = assms(1) [unfolded rewritten_def, rule_format, of k] and gu = assms(2) [unfolded rewritten_def, rule_format, of k]
  from fg gu show "f k = None \<longleftrightarrow> u k = None" by simp
  have "map_option (h k) (map_option (h k) x) = map_option (h k) x" for x by (cases x) (simp_all add: assms(3))
  with fg gu show "poolInfos E u k = map_option (h k) (poolInfos E f k) \<or> k \<notin> A \<union> B \<and> poolInfos E u k = poolInfos E f k"
    by auto
qed

lemma rewritten_mono: "rewritten E h D f g \<Longrightarrow> D' \<subseteq> D \<Longrightarrow> rewritten E h D' f g"
  unfolding rewritten_def by blast

lemma rewritten_all: "rewritten E h {k. f k \<noteq> None} f g \<Longrightarrow> rewritten E h UNIV f g"
  unfolding rewritten_def poolInfos_def by fastforce

lemma newInfo_idem: "newInfo n gone pools k (newInfo n gone pools k i) = newInfo n gone pools k i"
  by (auto simp: newInfo_def forget_def assign_def split: option.splits)

definition entryPost :: "'w env \<Rightarrow> 'w view \<Rightarrow> string \<Rightarrow> (string \<Rightarrow> poolInfo \<Rightarrow> poolInfo) \<Rightarrow> string \<Rightarrow> ConfigMap \<Rightarrow> 'w st
    \<Rightarrow> cmdata \<times> unit res \<Rightarrow> 'w st \<Rightarrow> bool" where
  "entryPost E v ns h k cm s x t \<longleftrightarrow> moved v ns s t \<and>
     rewritten E h (if snd x = Ok () then {k} else {}) (mget (cm_Data cm)) (poolEntry v ns (world t)) \<and>
     (snd x = Ok () \<longrightarrow> inSync v ns (world t) (cm\<lparr>cm_Data := fst x\<rparr>))"

lemma entryPost_fail:
  assumes "inSync v ns (world s) cm" and "r \<noteq> Ok ()"
  shows "entryPost E v ns h k cm s (d, r) s"
  using assms by (simp add: entryPost_def inSync_def rewritten_def poolInfos_def)

lemma wp_entry_write:
  assumes laws: "api_laws E v" "atomic_laws E v" and sync: "inSync v ns (world s) cm"
    and old: "mget (cm_Data cm) k = Some x" "infoOf E x = Some i" and new: "infoOf E val = Some (h k i)"
  shows "wpre (do { r \<leftarrow> updateAs E asConfigMap (OConfigMap (cm\<lparr>cm_Data := mput (cm_Data cm) k val\<rparr>));
     (case r of Inl e \<Rightarrow> ret (mput (cm_Data cm) k val, Err e) | Inr _ \<Rightarrow> ret (mput (cm_Data cm) k val, Ok ())) })
     (entryPost E v ns h k cm s) s"
proof -
  let ?c = "cm\<lparr>cm_Data := mput (cm_Data cm) k val\<rparr>"
  have key: "keyOf (OConfigMap ?c) = poolKey ns" "poolLive v ns (world s)" and f: "poolEntry v ns (world s) = mget (cm_Data cm)"
    using sync by (auto simp: inSync_def keyOf_ConfigMap)
  have "rewritten E h {k} (mget (cm_Data cm)) (mget (cm_Data ?c))"
    using old new by (auto simp: rewritten_def poolInfos_def)
  then show ?thesis
    unfolding wp_bind
    by (intro wp_update_entries [OF laws key]) (auto simp: wp entryPost_def f intro: rewritten_mono)
qed

lemma wp_remove_entry:
  assumes laws: "api_laws E v" "atomic_laws E v" "codec_laws E valid" and sync: "inSync v ns (world s) cm" and h: "h k = forget n"
  shows "wpre (removeStorageClassFromConfigMap E cm k n) (entryPost E v ns h k cm s) s"
proof (cases "mget (cm_Data cm) k")
  case None
  then show ?thesis
    using sync by (auto simp: removeStorageClassFromConfigMap_def wp entryPost_def inSync_def rewritten_def poolInfos_def)
next
  case (Some content)
  show ?thesis
  proof (cases "\<exists>c val. kUnmarshal E content = Inr c \<and> kMarshal E (c\<lparr>ScPoolMap := mdel (ScPoolMap c) n\<rparr>) = Inr val")
    case False
    with Some sync show ?thesis
      by (auto simp: removeStorageClassFromConfigMap_def wp entryPost_fail split: sum.splits)
  next
    case True
    then obtain c val where c: "kUnmarshal E content = Inr c"
      "kMarshal E (c\<lparr>ScPoolMap := mdel (ScPoolMap c) n\<rparr>) = Inr val" by blast
    have i: "infoOf E val = Some (h k (ContentSecret c, mget (ScPoolMap c)))"
      by (rule content_codec.dec_enc_mdel [OF laws(3) [unfolded codec_laws_def] c]) (simp add: infoOf_def h forget_def)
    have "infoOf E content = Some (ContentSecret c, mget (ScPoolMap c))" using c by (simp add: infoOf_def)
    from wp_entry_write [of E v ns s cm k content _ val h, OF laws(1,2) sync Some this i] Some c show ?thesis
      by (simp add: removeStorageClassFromConfigMap_def Let_def)
  qed
qed

lemma wp_add_entry:
  assumes laws: "api_laws E v" "atomic_laws E v" "codec_laws E valid" and sync: "inSync v ns (world s) cm"
    and ok: "valid n" "valid p" and h: "h k = assign n p"
  shows "wpre (addStorageClassToConfigMap E cm k n p) (entryPost E v ns h k cm s) s"
proof (cases "\<exists>content c m val. mget (cm_Data cm) k = Some content \<and> kUnmarshal E content = Inr c \<and>
    mset (ScPoolMap c) n p = Some m \<and> kMarshal E (c\<lparr>ScPoolMap := m\<rparr>) = Inr val")
  case False
  then show ?thesis
    using sync by (auto simp: addStorageClassToConfigMap_def wp entryPost_fail split: sum.splits option.splits)
next
  case True
  then obtain content c m val where Some: "mget (cm_Data cm) k = Some content"
    and c: "kUnmarshal E content = Inr c" "mset (ScPoolMap c) n p = Some m"
      "kMarshal E (c\<lparr>ScPoolMap := m\<rparr>) = Inr val" by blast
  have m: "m = mput (ScPoolMap c) n p" using c(2) by (simp add: mset_eq_Some)
  have i: "infoOf E val = Some (h k (ContentSecret c, mget (ScPoolMap c)))"
    by (rule content_codec.dec_enc_mput [OF laws(3) [unfolded codec_laws_def] c(1) c(3) [unfolded m] ok])
      (simp add: infoOf_def h assign_def)
  have "infoOf E content = Some (ContentSecret c, mget (ScPoolMap c))" using c by (simp add: infoOf_def)
  from wp_entry_write [of E v ns s cm k content _ val h, OF laws(1,2) sync Some this i] Some c show ?thesis
    by (simp add: addStorageClassToConfigMap_def Let_def)
qed

lemma wp_entries_any:
  assumes laws: "api_laws E v" "atomic_laws E v" "codec_laws E valid" and ok: "valid n"
    and pools: "\<And>k p. \<not> gone \<Longrightarrow> mget pools k = Some p \<Longrightarrow> p \<noteq> [] \<and> valid p"
    and sync: "inSync v ns (world s) cm"
  shows "wpre (updateEntries E n gone pools cm ks) (\<lambda>r t. moved v ns s t \<and>
     rewritten E (newInfo n gone pools) (if r = Ok () then set ks else {}) (mget (cm_Data cm)) (poolEntry v ns (world t))) s"
  using sync
proof (induction ks arbitrary: cm s)
  case Nil
  then have "poolEntry v ns (world s) = mget (cm_Data cm)" by (auto simp: inSync_def)
  then show ?case by (simp add: wp)
next
  case (Cons k ks)
  let ?h = "newInfo n gone pools"
  let ?Q = "\<lambda>r t. moved v ns s t \<and> rewritten E ?h (if r = Ok () then set (k # ks) else {}) (mget (cm_Data cm)) (poolEntry v ns (world t))"
  have next_step: "wpre (case snd x of Ok _ \<Rightarrow> updateEntries E n gone pools (cm\<lparr>cm_Data := fst x\<rparr>) ks
      | Err e \<Rightarrow> ret (Err e) | Panic p \<Rightarrow> ret (Panic p)) ?Q u" if x: "entryPost E v ns ?h k cm s x u" for x u
  proof (cases "snd x")
    case (Ok y)
    with x have sync: "inSync v ns (world u) (cm\<lparr>cm_Data := fst x\<rparr>)" and m: "moved v ns s u"
      and one: "rewritten E ?h {k} (mget (cm_Data cm)) (poolEntry v ns (world u))" by (auto simp: entryPost_def)
    from sync have e: "mget (cm_Data (cm\<lparr>cm_Data := fst x\<rparr>)) = poolEntry v ns (world u)" by (auto simp: inSync_def)
    show ?thesis
      unfolding Ok res.case
    proof (rule wp_mono [OF Cons.IH [OF sync]])
      fix r t
      assume t: "moved v ns u t \<and> rewritten E ?h (if r = Ok () then set ks else {}) (mget (cm_Data (cm\<lparr>cm_Data := fst x\<rparr>))) (poolEntry v ns (world t))"
      from rewritten_trans [OF one t [THEN conjunct2, unfolded e] newInfo_idem]
      have "rewritten E ?h (if r = Ok () then set (k # ks) else {}) (mget (cm_Data cm)) (poolEntry v ns (world t))"
        by (rule rewritten_mono) auto
      with t m show "?Q r t" by (blast intro: moved_trans)
    qed
  qed (use x in \<open>auto simp: wp entryPost_def\<close>)
  show ?case
  proof (cases "gone \<or> mget pools k = None")
    case True
    then have h: "?h k = forget n" by (auto simp: newInfo_def)
    have body: "updateEntries E n gone pools cm (k # ks) = do {
        x \<leftarrow> removeStorageClassFromConfigMap E cm k n;
        (case snd x of Ok _ \<Rightarrow> updateEntries E n gone pools (cm\<lparr>cm_Data := fst x\<rparr>) ks
         | Err e \<Rightarrow> ret (Err e) | Panic p \<Rightarrow> ret (Panic p)) }"
      using True by auto
    show ?thesis
      unfolding body wp_bind by (rule wp_mono [OF wp_remove_entry [where h = ?h, OF laws Cons.prems h] next_step])
  next
    case False
    then obtain p where p: "\<not> gone" "mget pools k = Some p" "p \<noteq> []" "valid p" using pools by blast
    then have h: "?h k = assign n p" by (auto simp: newInfo_def)
    have body: "updateEntries E n gone pools cm (k # ks) = do {
        x \<leftarrow> addStorageClassToConfigMap E cm k n p;
        (case snd x of Ok _ \<Rightarrow> updateEntries E n gone pools (cm\<lparr>cm_Data := fst x\<rparr>) ks
         | Err e \<Rightarrow> ret (Err e) | Panic p \<Rightarrow> ret (Panic p)) }"
      using p(1-3) by (simp cong del: res.case_cong_weak)
    show ?thesis
      unfolding body wp_bind by (rule wp_mono [OF wp_add_entry [where h = ?h, OF laws Cons.prems ok p(4) h] next_step])
  qed
qed

end
