(* ===== verification/ClassOutcome.thy ===== *)
theory ClassOutcome
  imports Outcomes
begin

text \<open>
  Every outcome of a pass over a storage class: which pools it looks for, and what of them is in the
  pools ConfigMap when it ends, settled or not.
\<close>

section \<open>What a pass over a storage class looks for\<close>

fun placeAt :: "string \<Rightarrow> string option \<Rightarrow> poolInfo \<Rightarrow> poolInfo" where
  "placeAt sc None i = forget sc i"
| "placeAt sc (Some pool) i = assign sc pool i"

text \<open>The address of a regular class, through its secret.\<close>

definition classAddr :: "objects \<Rightarrow> StorageClass \<Rightarrow> string option" where
  "classAddr os sc =
     (case GetStorageClassSecretNamespacedName sc of Inl e \<Rightarrow> None | Inr (n, ns) \<Rightarrow> secretAddr os ns n)"

definition isTopologyClass :: "StorageClass \<Rightarrow> bool" where
  "isTopologyClass sc \<longleftrightarrow> mget (sc_Parameters sc) TopologyStorageClassByMgmtId \<noteq> None"

text \<open>The pools a pass over a storage class may place it in, by cluster; a class that is gone or under deletion has none.\<close>

definition classSpec :: "'w env \<Rightarrow> objects \<Rightarrow> request \<Rightarrow> (string \<Rightarrow> string option) \<Rightarrow> bool" where
  "classSpec E os rq m =
     (case os (KStorageClass, rq) of
        None \<Rightarrow> m = (\<lambda>k. None)
      | Some (OStorageClass sc) \<Rightarrow>
          if om_DeletionTimestamp (sc_Meta sc) \<noteq> None then m = (\<lambda>k. None)
          else if isTopologyClass sc
          then \<exists>D P. topologySecret E os sc D \<and>
             kUnmarshalAny E (mgets (sc_Parameters sc) TopologyStorageClassByMgmtId) = Inr P \<and> topologySpec os sc D P m
          else \<exists>addr c. classAddr os sc = Some addr \<and> atAddress os {c. isCluster os c} addr c \<and>
             m = singlePool c (mgets (sc_Parameters sc) CsiIBMBlockScPool)
      | _ \<Rightarrow> False)"

text \<open>Classes the operator can represent: a name that is valid text, and, while it lives, pools that are, and are not empty.\<close>

definition okClass :: "'w env \<Rightarrow> (string \<Rightarrow> bool) \<Rightarrow> objects \<Rightarrow> request \<Rightarrow> bool" where
  "okClass E valid os rq \<longleftrightarrow> valid (snd rq) \<and>
     (case os (KStorageClass, rq) of
        Some (OStorageClass sc) \<Rightarrow>
          om_DeletionTimestamp (sc_Meta sc) \<noteq> None \<or>
          (if isTopologyClass sc
           then list_all (poolsUsable valid sc)
             (case kUnmarshalAny E (mgets (sc_Parameters sc) TopologyStorageClassByMgmtId) of Inl e \<Rightarrow> [] | Inr P \<Rightarrow> [P])
           else mgets (sc_Parameters sc) CsiIBMBlockScPool \<noteq> [] \<and> valid (mgets (sc_Parameters sc) CsiIBMBlockScPool))
      | _ \<Rightarrow> True)"

lemma wp_topology_any:
  assumes laws: "api_laws E v" and x: "v (world s) (KSecret, ns, n) = Some (OSecret x)"
    and sec: "GetStorageClassSecretNamespacedName sc = Inr (n, ns)"
  shows "wpre (getFscByTopologyStorageClass E sc x) (\<lambda>r t. v (world t) = v (world s) \<and>
     (\<forall>m. r = Ok m \<longrightarrow> (\<exists>D P. topologySecret E (v (world s)) sc D \<and>
        kUnmarshalAny E (mgets (sc_Parameters sc) TopologyStorageClassByMgmtId) = Inr P \<and> topologySpec (v (world s)) sc D P (mget m)))) s"
proof (cases "kUnmarshalAny E (mgets (sec_Data x) TopologySecretDataKey)")
  case (Inl e)
  then show ?thesis by (simp add: getFscByTopologyStorageClass_def mapClustersByMgmtId_def wp)
next
  case d: (Inr D)
  then have top: "topologySecret E (v (world s)) sc D" using x sec by (auto simp: topologySecret_def)
  show ?thesis
  proof (cases "kUnmarshalAny E (mgets (sc_Parameters sc) TopologyStorageClassByMgmtId)")
    case (Inr P)
    from top Inr show ?thesis
      by (rule_tac wp_mono [OF wp_topology [OF laws d Inr]]) blast
  next
    case (Inl e)
    show ?thesis
      unfolding getFscByTopologyStorageClass_def mapClustersByMgmtId_def d Inl sum.case wp_bind
      by (rule wp_keeps [OF keeps_MapClustersByMgmtAddress [OF laws]]) (auto simp: wp split: sum.splits res.splits)
  qed
qed

lemma wp_class_pools:
  assumes laws: "api_laws E v" and sc: "v (world s) (KStorageClass, rq) = Some (OStorageClass sc)"
    and alive: "om_DeletionTimestamp (sc_Meta sc) = None"
  shows "wpre (getFlashSystemClusterByStorageClass E sc (isTopologyClass sc)) (\<lambda>r t. v (world t) = v (world s) \<and>
     (\<forall>m. r = Ok m \<longrightarrow> classSpec E (v (world s)) rq (mget m))) s"
proof (cases "GetStorageClassSecretNamespacedName sc")
  case (Inl e)
  then show ?thesis by (simp add: getFlashSystemClusterByStorageClass_def GetStorageClassSecret_def wp)
next
  case (Inr p)
  then obtain n ns where sec: "GetStorageClassSecretNamespacedName sc = Inr (n, ns)" by (cases p) simp
  show ?thesis
    unfolding getFlashSystemClusterByStorageClass_def GetStorageClassSecret_def sec sum.case prod.case wp_bind
  proof (rule wp_getAs_laws [OF laws], goal_cases)
    case (2 x y w)
    let ?s = "afterCall (RGet KSecret ns n) (ROk x) w s"
    from 2 have y: "v (world ?s) (KSecret, ns, n) = Some (OSecret y)" and os: "v (world ?s) = v (world s)"
      by (simp_all del: split_paired_All)
    show ?case
    proof (cases "isTopologyClass sc")
      case True
      with sc alive show ?thesis
        unfolding sum.case if_P [OF True]
        by (rule_tac wp_mono [OF wp_topology_any [OF laws y sec]]) (simp add: classSpec_def 2(1))
    next
      case False
      have "classAddr (v (world s)) sc = Some (mgets (sec_Data y) SecretManagementAddressKey)"
        using y 2(1) by (simp add: classAddr_def sec secretAddr_def)
      with sc alive False show ?thesis
        unfolding sum.case if_not_P [OF False] wp_bind
        by (rule_tac wp_mono [OF wp_getFscByRegularStorageClass [OF laws]]) (auto simp: classSpec_def 2(1) wp split: sum.splits)
    qed
  qed (simp add: wp)
qed

lemma classSpec_usable:
  assumes "classSpec E os rq m" and "okClass E valid os rq" and "os (KStorageClass, rq) = Some (OStorageClass sc)" and "m k = Some p"
  shows "p \<noteq> [] \<and> valid p"
  using assms topologySpec_usable [of os sc _ _ m valid k p]
  by (auto simp: classSpec_def okClass_def singlePool_def split: if_splits)

lemma newInfo_placeAt: "newInfo n gone pools k = placeAt n (if gone then None else mget pools k)"
  by (cases "mget pools k") (auto simp: newInfo_def fun_eq_iff)

text \<open>A pass over a storage class, whatever its result: nothing, or some of the entries it looked for, or all of them.\<close>

definition classMoved :: "'w env \<Rightarrow> objects \<Rightarrow> request \<Rightarrow> bool \<Rightarrow> (string \<Rightarrow> string option) \<Rightarrow> (string \<Rightarrow> string option) \<Rightarrow> bool" where
  "classMoved E os rq b f g \<longleftrightarrow> \<not> b \<and> g = f \<or>
     (\<exists>m. classSpec E os rq m \<and> rewritten E (\<lambda>k. placeAt (snd rq) (m k)) (if b then UNIV else {}) f g)"

lemma wp_all_entries:
  assumes laws: "api_laws E v" "atomic_laws E v" "codec_laws E valid" and ok: "valid n"
    and pools: "\<And>k p. \<not> gone \<Longrightarrow> mget pools k = Some p \<Longrightarrow> p \<noteq> [] \<and> valid p"
    and sync: "inSync v ns (world s) cm" and m: "m = (\<lambda>k. if gone then None else mget pools k)"
  shows "wpre (updateEntries E n gone pools cm (mkeys (cm_Data cm))) (\<lambda>r t. moved v ns s t \<and>
     rewritten E (\<lambda>k. placeAt n (m k)) (if r = Ok () then UNIV else {}) (mget (cm_Data cm)) (poolEntry v ns (world t))) s"
proof (rule wp_mono [OF wp_entries_any [OF laws ok pools sync]], assumption, assumption)
  fix r t
  assume a: "moved v ns s t \<and> rewritten E (newInfo n gone pools) (if r = Ok () then set (mkeys (cm_Data cm)) else {})
      (mget (cm_Data cm)) (poolEntry v ns (world t))"
  have h: "newInfo n gone pools = (\<lambda>k. placeAt n (m k))" by (simp add: fun_eq_iff newInfo_placeAt m)
  show "moved v ns s t \<and> rewritten E (\<lambda>k. placeAt n (m k)) (if r = Ok () then UNIV else {}) (mget (cm_Data cm)) (poolEntry v ns (world t))"
    using a rewritten_all [of E "newInfo n gone pools" "mget (cm_Data cm)" "poolEntry v ns (world t)"]
    unfolding h [symmetric] by (auto simp: set_mkeys)
qed

lemma wp_ensure_class_any:
  assumes laws: "api_laws E v" "atomic_laws E v" "codec_laws E valid" and ok: "okClass E valid (v (world s)) rq"
    and sc: "v (world s) (KStorageClass, rq) = Some (OStorageClass sc)" and sync: "inSync v ns (world s) cm"
  shows "wpre (ensureConfigMapUpdated E rq sc cm) (\<lambda>r t. moved v ns s t \<and>
     classMoved E (v (world s)) rq (r = Ok ()) (mget (cm_Data cm)) (poolEntry v ns (world t))) s"
proof -
  let ?top = "isTopologyClass sc" and ?gone = "om_DeletionTimestamp (sc_Meta sc) \<noteq> None"
  from ok have valid: "valid (snd rq)" by (simp add: okClass_def)
  have f: "poolEntry v ns (world s) = mget (cm_Data cm)" using sync by (auto simp: inSync_def)
  have got: "wpre (getFlashSystemClusterByStorageClass E sc ?top) (\<lambda>r t. v (world t) = v (world s) \<and>
     (\<forall>m. r = Ok m \<longrightarrow> classSpec E (v (world s)) rq (\<lambda>k. if ?gone then None else mget m k))) s"
  proof (cases ?gone)
    case True
    then have "classSpec E (v (world s)) rq (\<lambda>k. if ?gone then None else m k)" for m
      using sc by (simp add: classSpec_def)
    then show ?thesis
      by (intro wp_keeps [OF keeps_getFlashSystemClusterByStorageClass [OF laws(1)]]) blast
  next
    case False
    then show ?thesis using wp_class_pools [OF laws(1) sc] by simp
  qed
  show ?thesis
    unfolding ensureConfigMapUpdated_def Let_def wp_bind isTopologyClass_def [symmetric]
  proof (rule wp_mono [OF got], goal_cases)
    case (1 r t)
    have same: "poolEntry v ns (world t) = mget (cm_Data cm)" "moved v ns s t" and sync': "inSync v ns (world t) cm"
      using 1 sync f pools_eq [of v "world t" ns "world s"] by (auto simp: moved_def inSync_def)
    show ?case
    proof (cases r)
      case (Ok m)
      with 1 have spec: "classSpec E (v (world s)) rq (\<lambda>k. if ?gone then None else mget m k)" by blast
      have usable: "p \<noteq> [] \<and> valid p" if "\<not> ?gone" "mget m k = Some p" for k p
        by (rule classSpec_usable [OF spec ok sc]) (use that in simp)
      show ?thesis
      proof (cases "list_ex (\<lambda>k. mget (cm_Data cm) k = None) (mkeys m)")
        case False
        show ?thesis
          unfolding Ok res.case if_not_P [OF False]
          by (rule wp_mono [OF wp_all_entries [OF laws valid usable sync' refl]], assumption, assumption)
            (use spec same in \<open>auto simp: classMoved_def intro: moved_trans\<close>)
      qed (use same in \<open>simp add: Ok wp classMoved_def\<close>)
    qed (use same in \<open>simp_all add: wp classMoved_def\<close>)
  qed
qed

lemma class_frame:
  assumes only: "onlyAt (poolKey ns) a b"
  shows "classSpec E b rq = classSpec E a rq" "okClass E valid b rq = okClass E valid a rq"
proof -
  note frame = pool_frame [OF only]
  have sc: "b (KStorageClass, rq) = a (KStorageClass, rq)" using only by (cases rq) (simp add: onlyAt_def poolKey_def)
  have secret: "topologySecret E b = topologySecret E a"
    using only by (auto simp: topologySecret_def [abs_def] onlyAt_def poolKey_def fun_eq_iff)
  have addr: "classAddr b = classAddr a" and top: "topologySpec b = topologySpec a"
    unfolding classAddr_def [abs_def] topologySpec_def [abs_def] frame by (rule refl)+
  show "classSpec E b rq = classSpec E a rq"
    by (simp add: classSpec_def [abs_def] sc secret addr top frame cong: option.case_cong kobj.case_cong if_cong)
  show "okClass E valid b rq = okClass E valid a rq" by (simp add: okClass_def sc)
qed

lemma wp_ScReconcile_any:
  assumes laws: "api_laws E v" "atomic_laws E v" "codec_laws E valid" and live: "poolLive v ns (world s)"
    and ok: "okClass E valid (v (world s)) rq"
  shows "wpre (ScReconcile E ns rq) (\<lambda>r t. moved v ns s t \<and>
     classMoved E (v (world s)) rq (r = Ok emptyResult) (poolEntry v ns (world s)) (poolEntry v ns (world t))) s"
  unfolding ScReconcile_def reconcileBody_def wp_bind
proof (rule wp_mono [OF wp_get_pools [OF laws(1,2) live]], goal_cases)
  case (1 r t)
  then have t: "moved v ns s t" "poolEntry v ns (world t) = poolEntry v ns (world s)" by (simp_all add: gotPools_def)
  from t(1) have only: "onlyAt (poolKey ns) (v (world s)) (v (world t))" by (simp add: moved_def)
  have stay: "moved v ns s u \<and> classMoved E (v (world s)) rq (x = Ok emptyResult) (poolEntry v ns (world s)) (poolEntry v ns (world u))"
    if "v (world u) = v (world t)" "x \<noteq> Ok emptyResult" for u x
    using that t pools_eq(1) [of v "world u" ns "world t"] by (simp add: moved_def classMoved_def)
  show ?case
  proof (cases r)
    case (Inr cm)
    with 1 have sync: "inSync v ns (world t) cm" by (simp add: gotPools_def)
    then have f: "mget (cm_Data cm) = poolEntry v ns (world s)" using t(2) by (auto simp: inSync_def)
    show ?thesis
      unfolding Inr sum.case wp_bind
    proof (rule wp_getAs_laws [OF laws(1)], goal_cases)
      case (1 e q w)
      let ?u = "afterCall (RGet KStorageClass (fst rq) (snd rq)) q w t"
      from 1 have same: "v (world ?u) = v (world t)" by (simp del: split_paired_All)
      show ?case
      proof (cases "IsNotFound e")
        case True
        with 1 have "v (world t) (KStorageClass, fst rq, snd rq) = None" by simp
        then have spec: "classSpec E (v (world s)) rq (\<lambda>k. None)"
          unfolding class_frame(1) [OF only, symmetric] by (simp add: classSpec_def)
        from sync 1(1) have sync': "inSync v ns (world ?u) cm" by (auto simp: inSync_def pools_eq [of v w ns "world t"])
        have valid: "valid (snd rq)" using ok by (simp add: okClass_def)
        have mv: "moved v ns s ?u" using t(1) 1(1) by (simp add: moved_def)
        show ?thesis
          unfolding sum.case if_P [OF True] wp_bind removeFromAll_updateEntries [of E "snd rq" cm _ NilMap]
          by (rule wp_mono [OF wp_all_entries [OF laws valid _ sync' refl]], simp)
            (use spec in \<open>auto simp: wp doneResult_Ok f classMoved_def intro: moved_trans [OF mv]\<close>)
      qed (use stay [OF same deferConflict_Err, of e] in \<open>simp add: wp deferConflict_Err\<close>)
    next
      case (2 x sc w)
      let ?u = "afterCall (RGet KStorageClass (fst rq) (snd rq)) (ROk x) w t"
      from 2 have sc: "v (world ?u) (KStorageClass, rq) = Some (OStorageClass sc)" by simp
      from sync 2(1) have sync': "inSync v ns (world ?u) cm" by (auto simp: inSync_def pools_eq [of v w ns "world t"])
      have ok': "okClass E valid (v (world ?u)) rq" using ok class_frame(2) [OF only, of E valid rq] 2(1) by simp
      have spec: "classSpec E (v (world ?u)) rq = classSpec E (v (world s)) rq" using class_frame(1) [OF only, of E rq] 2(1) by simp
      have mv: "moved v ns s ?u" using t(1) 2(1) by (simp add: moved_def)
      show ?case
        unfolding sum.case wp_bind
        by (rule wp_mono [OF wp_ensure_class_any [OF laws ok' sc sync']])
          (use spec in \<open>auto simp: wp doneResult_Ok f classMoved_def intro: moved_trans [OF mv]\<close>)
    qed
  qed (use stay [OF refl deferConflict_Err] in \<open>simp add: wp deferConflict_Err\<close>)
qed

end
