(* ===== verification/FscOutcome.thy ===== *)
theory FscOutcome
  imports ClassOutcome
begin

text \<open>
  Every outcome of a pass over a FlashSystemCluster for the pools ConfigMap: all the steps but one leave it
  alone, so a pass that fails has done the work on the ConfigMap or not, depending on where it failed.
\<close>

section \<open>A pass over a cluster\<close>

text \<open>Steps that leave every ConfigMap alone.\<close>

abbreviation aside :: "'w view \<Rightarrow> ('w, 'a) oper \<Rightarrow> bool" where
  "aside v \<equiv> confined v (- {KConfigMap})"

lemma aside_confined: "confined v K m \<Longrightarrow> KConfigMap \<notin> K \<Longrightarrow> aside v m"
proof -
  assume c: "confined v K m" and K: "KConfigMap \<notin> K"
  have "issues (writesTo (- {KConfigMap})) m"
    by (rule issues_mono [of "writesTo K"]) (use c K in \<open>auto simp: confined_def writesTo_def\<close>)
  moreover have "k \<noteq> KConfigMap" if "k \<in> K" for k using that K by blast
  ultimately show ?thesis using c unfolding confined_def Let_def by fastforce
qed

definition undisturbed :: "'w view \<Rightarrow> 'w st \<Rightarrow> 'w st \<Rightarrow> bool" where
  "undisturbed v s t \<longleftrightarrow> watchNamespace t = watchNamespace s \<and>
     (\<forall>ns. v (world t) (poolKey ns) = v (world s) (poolKey ns)) \<and>
     (\<exists>xs. calls t = calls s @ xs \<and> list_all (writesTo (- {KConfigMap}) \<circ> fst) xs)"

lemma undisturbed_pools:
  assumes "undisturbed v s t"
  shows "poolEntry v ns (world t) = poolEntry v ns (world s)" "poolLive v ns (world t) = poolLive v ns (world s)"
    "watchNamespace t = watchNamespace s"
  using assms pools_eq [of v "world t" ns "world s"] by (simp_all add: undisturbed_def)

lemma wp_aside:
  assumes "aside v m" and "\<And>a t. undisturbed v s t \<Longrightarrow> Q a t"
  shows "wpre m Q s"
proof (rule wp_runI, rule assms(2))
  fix a t
  assume run: "run_state m s = (a, t)"
  from confinedD [OF assms(1) run] show "undisturbed v s t"
    by (simp add: undisturbed_def poolKey_def)
qed

text \<open>What such steps cannot falsify.\<close>

definition stable :: "'w view \<Rightarrow> ('w st \<Rightarrow> bool) \<Rightarrow> bool" where
  "stable v I \<longleftrightarrow> (\<forall>s t. undisturbed v s t \<longrightarrow> I s \<longrightarrow> I t)"

lemma wp_stable: "stable v I \<Longrightarrow> aside v m \<Longrightarrow> I s \<Longrightarrow> (\<And>a t. I t \<Longrightarrow> Q a t) \<Longrightarrow> wpre m Q s"
  by (rule wp_aside) (auto simp: stable_def)

lemma aside_conditions:
  assumes "api_laws E v"
  shows "aside v (SetStatusCondition E cs c)" "aside v (failStep E i step reason e)" "aside v (failProvisioner E i e)" "aside v (finish E i)"
proof -
  show c: "aside v (SetStatusCondition E cs c)" for cs c
    using confined_SetStatusCondition [OF assms] by (rule aside_confined) simp
  show "aside v (failStep E i step reason e)" "aside v (failProvisioner E i e)" "aside v (finish E i)"
    unfolding failStep_def failProvisioner_def finish_def SetReconcileErrorCondition_def SetReconcileProvisionerErrorCondition_def
      SetReconcileCompleteCondition_def Let_def
    by (intro confined_intro c confined_createEvent [OF assms]; simp)+
qed

lemma aside_attempt: "aside v m \<Longrightarrow> (\<And>e. aside v (h e)) \<Longrightarrow> aside v k \<Longrightarrow> aside v (attempt m i h k)"
  unfolding attempt_def by (intro confined_intro)

lemma aside_steps:
  assumes "api_laws E v"
  shows "aside v (lift (ensureSecretOwnership E i ow))" "aside v (lift (ensureFlashSystemCSICR E i))"
    "aside v (lift (ensureExporterService E i ow))" "aside v (lift (ensureExporterDeployment E i ow))"
    "aside v (lift (ensureExporterServiceMonitor E i ow))" "aside v (lift (ensureDefaultStorageClass E i))"
    "aside v (enablePrometheusRules E i ow)"
  by (intro confined_lift aside_confined [OF confined_ensureSecretOwnership [OF assms]]
      aside_confined [OF confined_ensureFlashSystemCSICR [OF assms]] aside_confined [OF confined_exporter(1) [OF assms]]
      aside_confined [OF confined_exporter(2) [OF assms]] aside_confined [OF confined_exporter(3) [OF assms]]
      aside_confined [OF confined_ensureDefaultStorageClass [OF assms]] aside_confined [OF confined_enablePrometheusRules [OF assms]];
      simp)+

text \<open>
  A rules template of which every rule with a text has labels; the one the operator is shipped with,
  \<^verbatim>\<open>rules/prometheus-flashsystem-rules.yaml\<close>, is such a template.
\<close>

definition templateOk :: "'w env \<Rightarrow> bool" where
  "templateOk E \<longleftrightarrow> (\<forall>x r. yamlRule E x = Inr r \<longrightarrow> \<not> list_ex (\<lambda>g. list_ex unlabelled (rg_Rules g)) (pru_Groups r))"

lemma wp_rules_calm: "wpre (enablePrometheusRules E i ow) (\<lambda>r t. \<forall>p. r = Panic p \<longrightarrow> \<not> templateOk E) s"
proof -
  have rule: "\<not> templateOk E" if "yamlRule E x = Inr r" "instantiateRule r i ow = Panic p" for x r p
    using that by (auto simp: templateOk_def instantiateRule_def Let_def updateGroups_eq split: if_splits)
  have "wpre (getPrometheusRules E i ow) (\<lambda>r t. \<forall>p. r = Panic p \<longrightarrow> \<not> templateOk E) s"
    unfolding getPrometheusRules_def Let_def wp_bind
    by (rule wp_any) (auto simp: wp dest: rule split: sum.split)
  then show ?thesis
    unfolding enablePrometheusRules_def wp_bind [of "getPrometheusRules _ _ _"]
  proof (rule wp_mono, goal_cases)
    case (1 r t)
    have "of_sum x \<noteq> Panic p" for x :: "goerr + unit" and p by (cases x) simp_all
    with 1 show ?case by (cases r) (auto simp: wp intro: wp_any)
  qed
qed

lemma wp_lift_calm: "wpre (lift m) (\<lambda>r t. \<forall>p. r \<noteq> Panic p) s"
proof -
  have "of_sum x \<noteq> Panic p" for x :: "goerr + unit" and p by (cases x) simp_all
  then show ?thesis unfolding lift_def wp by (intro wp_any) blast
qed

text \<open>A failure of a step, under a stable condition.\<close>

lemma wp_fail_stable:
  assumes laws: "api_laws E v" and I: "stable v I" "I s" and Q: "\<And>j t. I t \<Longrightarrow> Q (j, Err e) t"
  shows "wpre (failStep E i step reason e) Q s" "wpre (failProvisioner E i e) Q s"
proof -
  have f: "wpre (failStep E i step reason e) (\<lambda>y t. snd y = Err e) s" "wpre (failProvisioner E i e) (\<lambda>y t. snd y = Err e) s"
    by (rule wp_failStep, simp) (rule wp_failProvisioner, simp)
  have k: "wpre (failStep E i step reason e) (\<lambda>y t. I t) s" "wpre (failProvisioner E i e) (\<lambda>y t. I t) s"
    by (rule wp_stable [OF I(1) aside_conditions(2) [OF laws] I(2)], assumption)
      (rule wp_stable [OF I(1) aside_conditions(3) [OF laws] I(2)], assumption)
  have q: "Q y t" if "snd y = Err e \<and> I t" for y t using Q [of t "fst y"] that by (cases y) simp
  show "wpre (failStep E i step reason e) Q s" "wpre (failProvisioner E i e) Q s"
    by (rule wp_mono [OF wp_conj [OF f(1) k(1)] q], assumption) (rule wp_mono [OF wp_conj [OF f(2) k(2)] q], assumption)
qed

lemma wp_attempt_stable:
  assumes laws: "api_laws E v" and I: "stable v I" "I s" and m: "aside v m"
    and calm: "\<And>s. wpre m (\<lambda>r t. \<forall>p. r = Panic p \<longrightarrow> P) s"
    and k: "\<And>t. I t \<Longrightarrow> wpre k Q t" and h: "\<And>e t. I t \<Longrightarrow> wpre (h e) Q t" and p: "\<And>p t. I t \<Longrightarrow> P \<Longrightarrow> Q (i, Panic p) t"
  shows "wpre (attempt m i h k) Q s"
  unfolding attempt_def wp_bind
proof (rule wp_mono [OF wp_conj [OF calm wp_stable [OF I(1) m I(2), where Q = "\<lambda>_. I"]]], assumption, goal_cases)
  case (1 r t)
  then show ?case by (cases r) (auto simp: wp k h p)
qed

text \<open>
  The steps of a pass from the secret to the rules: \<open>I\<close> holds up to the ConfigMap step, whose result \<open>r\<close>
  establishes \<open>J r\<close>; the pass reports success only when that step did, and panics only when it did or the template is at fault.
\<close>

definition stepped :: "'w env \<Rightarrow> ('w st \<Rightarrow> bool) \<Rightarrow> (unit res \<Rightarrow> 'w st \<Rightarrow> bool) \<Rightarrow> 'a res \<Rightarrow> 'w st \<Rightarrow> bool" where
  "stepped E I J r t \<longleftrightarrow>
     (\<exists>e. r = Err e) \<and> I t \<or>
     (\<exists>x. J x t \<and> ((\<exists>a. r = Ok a) \<longrightarrow> x = Ok ()) \<and> (\<forall>p. r = Panic p \<longrightarrow> x = Panic p \<or> \<not> templateOk E))"

lemma stable_stepped: "stable v I \<Longrightarrow> (\<And>x. stable v (J x)) \<Longrightarrow> stable v (stepped E I J r)"
  unfolding stepped_def stable_def by blast

text \<open>The steps after the ConfigMap.\<close>

definition laterSteps :: "'w env \<Rightarrow> FlashSystemCluster \<Rightarrow> OwnerReference \<Rightarrow> ('w, FlashSystemCluster \<times> unit res) oper" where
  "laterSteps E inst ow =
     attempt (lift (ensureExporterService E inst ow)) inst
       (failStep E inst ''ensureExporterService'' FailedCreateServiceReason) (
     attempt (lift (ensureExporterDeployment E inst ow)) inst
       (failStep E inst ''ensureExporterDeployment'' FailedLaunchBlockExporterReason) (
     attempt (lift (ensureExporterServiceMonitor E inst ow)) inst
       (failStep E inst ''ensureExporterServiceMonitor'' FailedCreateServiceMonitorReason) (do {
     cs \<leftarrow> SetStatusCondition E (conditionsOf inst) (mkCond ExporterCreated ConditionTrue [] []);
     (let inst = setConditions cs inst in
     attempt (lift (ensureDefaultStorageClass E inst)) inst
       (failStep E inst ''ensureDefaultStorageClass'' FailedCreateStorageClassReason) (
     attempt (enablePrometheusRules E inst ow) inst
       (failStep E inst ''enablePrometheusRules'' FailedCreatePromRuleReason) (
     finish E inst)))
     })))"

lemma wp_laterSteps:
  assumes laws: "api_laws E v" and ok: "stable v (J (Ok ()))" and s: "J (Ok ()) s"
  shows "wpre (laterSteps E inst ow) (\<lambda>y. stepped E I J (snd y)) s"
proof -
  let ?Q = "\<lambda>y. stepped E I J (snd y)"
  have late: "wpre (failStep E i st re e) ?Q t" if "J (Ok ()) t" for i st re e t
    by (rule wp_fail_stable(1) [OF laws ok that]) (auto simp: stepped_def)
  have calm: "wpre (lift m) (\<lambda>r t. \<forall>p. r = Panic p \<longrightarrow> \<not> templateOk E) t" for m and t :: "'a st"
    by (rule wp_mono [OF wp_lift_calm]) simp
  have panic: "?Q (i, Panic p) t" if "J (Ok ()) t" "\<not> templateOk E" for i p t using that by (auto simp: stepped_def)
  have finish: "wpre (finish E i) ?Q t" if "J (Ok ()) t" for i t
  proof -
    have "wpre (finish E i) (\<lambda>y t. snd y = Ok ()) t" unfolding finish_def Let_def wp by (intro wp_any) (simp add: wp)
    then show ?thesis
      by (rule wp_mono [OF wp_conj [OF _ wp_stable [OF ok aside_conditions(4) [OF laws] that, where Q = "\<lambda>_. J (Ok ())"]]])
        (auto simp: stepped_def)
  qed
  note step = wp_attempt_stable [OF laws ok _ _ _ _ late panic]
  have last: "wpre (attempt (lift (ensureDefaultStorageClass E i)) i
       (failStep E i ''ensureDefaultStorageClass'' FailedCreateStorageClassReason) (
     attempt (enablePrometheusRules E i ow) i
       (failStep E i ''enablePrometheusRules'' FailedCreatePromRuleReason) (
     finish E i))) ?Q t" if "J (Ok ()) t" for i t
    by (rule step [OF that aside_steps(6) [OF laws] calm], rule step [OF _ aside_steps(7) [OF laws] wp_rules_calm], assumption)
      (rule finish)
  show ?thesis
    unfolding laterSteps_def
  proof (rule step [OF s aside_steps(3) [OF laws] calm], rule step [OF _ aside_steps(4) [OF laws] calm], assumption,
      rule step [OF _ aside_steps(5) [OF laws] calm], assumption, goal_cases)
    case (1 t u w)
    show ?case
      unfolding wp_bind Let_def by (rule wp_stable [OF ok aside_conditions(1) [OF laws] 1(3)]) (rule last)
  qed
qed

lemma wp_reconcileSteps_frame:
  assumes laws: "api_laws E v" and I: "stable v I" "I s" and J: "\<And>r. stable v (J r)"
    and pools: "\<And>t. I t \<Longrightarrow> wpre (ensureScPoolConfigMap E inst) J t"
  shows "wpre (reconcileSteps E inst ow) (\<lambda>y. stepped E I J (snd y)) s"
proof -
  let ?Q = "\<lambda>y. stepped E I J (snd y)"
  have middle: "wpre (attempt (ensureScPoolConfigMap E inst) inst
       (failStep E inst ''ensureScPoolConfigMap'' FailedScPoolConfigMapReason) (laterSteps E inst ow)) ?Q t" if "I t" for t
    unfolding attempt_def wp_bind [of "ensureScPoolConfigMap _ _"]
  proof (rule wp_mono [OF pools [OF that]], goal_cases)
    case (1 r t)
    show ?case
    proof (cases r)
      case (Ok x)
      with 1 wp_laterSteps [OF laws J] show ?thesis by simp
    next
      case (Err e)
      show ?thesis
        unfolding Err res.case by (rule wp_fail_stable(1) [OF laws J 1]) (auto simp: stepped_def Err)
    qed (use 1 in \<open>auto simp: wp stepped_def\<close>)
  qed
  have early: "?Q (i, Err e) t" if "I t" for i e t using that by (simp add: stepped_def)
  note before = wp_attempt_stable [OF laws I(1), where P = False]
  have calm: "wpre (lift m) (\<lambda>r t. \<forall>p. r = Panic p \<longrightarrow> False) t" for m and t :: "'a st"
    by (rule wp_mono [OF wp_lift_calm]) simp
  show ?thesis
    unfolding reconcileSteps_def laterSteps_def [symmetric]
    by (rule before [OF I(2) aside_steps(1) [OF laws] calm], rule before [OF _ aside_steps(2) [OF laws] calm], assumption)
      (rule middle | rule wp_fail_stable [OF laws I(1)] | simp only: early)+
qed

lemma stepped_cong:
  assumes "stepped E I J r t" and "\<And>a. r' = Ok a \<Longrightarrow> \<exists>b. r = Ok b" and "\<And>p. r' = Panic p \<Longrightarrow> r = Panic p" and "\<And>e. r = Err e \<Longrightarrow> \<exists>e. r' = Err e"
  shows "stepped E I J r' t"
  using assms unfolding stepped_def by (cases r; cases r') auto

lemma agrees_Fsc: "agrees (OFsc a) x \<Longrightarrow> asFsc x = Some b \<Longrightarrow> om_Name (fsc_Meta b) = om_Name (fsc_Meta a) \<and> fsc_Spec b = fsc_Spec a"
  by (cases x) (auto simp: agrees_def keyOf_def)

lemma wp_updateFsc_stable:
  assumes laws: "api_laws E v" and I: "stable v I" "I s"
    and Fail: "\<And>e t. I t \<Longrightarrow> Q (Inl e) t"
    and Done: "\<And>i t. I t \<Longrightarrow> om_Name (fsc_Meta i) = om_Name (fsc_Meta inst) \<Longrightarrow> fsc_Spec i = fsc_Spec inst \<Longrightarrow> Q (Inr i) t"
  shows "wpre (updateAs E asFsc (OFsc inst)) Q s"
proof -
  have a: "aside v (updateAs E asFsc (OFsc inst))" by (intro confined_client laws) simp
  have "wpre (updateAs E asFsc (OFsc inst)) (\<lambda>r t. \<forall>i. r = Inr i \<longrightarrow> om_Name (fsc_Meta i) = om_Name (fsc_Meta inst) \<and> fsc_Spec i = fsc_Spec inst) s"
    by (rule wp_updateAs_laws [OF laws]) (auto dest: agrees_Fsc)
  moreover have "wpre (updateAs E asFsc (OFsc inst)) (\<lambda>r t. I t) s" by (rule wp_stable [OF I(1) a I(2)])
  ultimately show ?thesis
    by (rule wp_mono [OF wp_conj]) (case_tac a, auto intro: Fail Done)
qed

text \<open>The end of an instance: \<open>I\<close> holds up to the removal of the entry, whose result establishes \<open>J\<close>.\<close>

lemma wp_finalize_frame:
  assumes laws: "api_laws E v" and I: "stable v I" "I s"
    and pools: "\<And>t. I t \<Longrightarrow> wpre (removeFscFromConfigMap E (om_Name (fsc_Meta inst))) (\<lambda>r. J (of_sum r)) t"
  shows "wpre (finalizeInstance E inst) (\<lambda>y. stepped E I J (snd y)) s"
proof -
  have entry: "wpre (removeEntry E i) (\<lambda>y. stepped E I J (snd y)) t" if "I t" "om_Name (fsc_Meta i) = om_Name (fsc_Meta inst)" for i t
    unfolding removeEntry_def wp_bind that(2)
    by (rule wp_mono [OF pools [OF that(1)]]) (auto simp: wp stepped_def)
  have early: "stepped E I J (Err e :: unit res) t" if "I t" for e t using that by (simp add: stepped_def)
  show ?thesis
  proof (cases "IsContain (om_Finalizers (fsc_Meta inst)) flashSystemClusterFinalizer")
    case True
    show ?thesis
      unfolding finalizeInstance_def if_P [OF True] Let_def wp_bind [of "deleteDefaultStorageClass _ _"]
    proof (rule wp_stable [OF I(1) aside_confined [OF confined_deleteDefaultStorageClass [OF laws]] I(2)], simp, goal_cases)
      case (1 r t)
      show ?case
      proof (cases r)
        case (Inr x)
        show ?thesis
          unfolding Inr sum.case wp_bind
          by (rule wp_updateFsc_stable [OF laws I(1) 1]) (simp_all add: wp early entry setFinalizers_def)
      qed (use early [OF 1] in \<open>simp add: wp\<close>)
    qed
  qed (use entry [OF I(2) refl] in \<open>simp add: finalizeInstance_def\<close>)
qed

section \<open>A whole pass\<close>

definition aliveFsc :: "objects \<Rightarrow> request \<Rightarrow> FlashSystemCluster \<Rightarrow> bool" where
  "aliveFsc os rq c \<longleftrightarrow> os (KFsc, rq) = Some (OFsc c) \<and> om_DeletionTimestamp (fsc_Meta c) = None"

lemma wp_getFsc:
  assumes "api_laws E v"
  shows "wpre (getAs E asFsc KFsc ns n) (\<lambda>r t. (\<forall>e. r = Inl e \<longrightarrow> IsNotFound e \<longrightarrow> v (world s) (KFsc, ns, n) = None) \<and>
     (\<forall>i. r = Inr i \<longrightarrow> v (world s) (KFsc, ns, n) = Some (OFsc i) \<and> om_Name (fsc_Meta i) = n)) s"
  by (rule wp_getAs_laws [OF assms]) (auto simp: keyOf_def)

lemma wp_report_frame:
  assumes laws: "api_laws E v" and I: "stable v I" and J: "\<And>r. stable v (J r)" and s: "stepped E I J (snd y) s"
  shows "wpre (case snd y of
      Panic p \<Rightarrow> ret (Panic p)
    | Err e \<Rightarrow> do { st \<leftarrow> statusUpdateAs E asFsc (OFsc (fst y)); ret (Err e) }
    | Ok _ \<Rightarrow> do {
        st \<leftarrow> statusUpdateAs E asFsc (OFsc (fst y));
        (case st of Inl statusError \<Rightarrow> ret (Err statusError) | Inr _ \<Rightarrow> ret (Ok emptyResult))
      }) (stepped E I J) s"
proof -
  have st: "aside v (statusUpdateAs E asFsc (OFsc j))" for j by (intro confined_client laws) simp
  note wr = wp_stable [OF stable_stepped [OF I J] st s]
  show ?thesis
  proof (cases "snd y")
    case (Ok z)
    show ?thesis
      unfolding Ok res.case wp_bind [of "statusUpdateAs _ _ _"]
      by (rule wr) (auto simp: wp Ok elim!: stepped_cong split: sum.split)
  next
    case (Err e)
    show ?thesis
      unfolding Err res.case wp_bind [of "statusUpdateAs _ _ _"]
      by (rule wr) (auto simp: wp Err elim!: stepped_cong)
  next
    case (Panic p)
    with s show ?thesis by (auto simp: wp elim!: stepped_cong)
  qed
qed

lemma wp_reconcile_frame:
  assumes laws: "api_laws E v" and I: "stable v I" "I s" and J: "\<And>r. stable v (J r)"
    and ensure: "\<And>i t. om_DeletionTimestamp (fsc_Meta inst) = None \<Longrightarrow> om_Name (fsc_Meta i) = om_Name (fsc_Meta inst) \<Longrightarrow>
       fsc_Spec i = fsc_Spec inst \<Longrightarrow> I t \<Longrightarrow> wpre (ensureScPoolConfigMap E i) J t"
    and remove: "\<And>t. om_DeletionTimestamp (fsc_Meta inst) \<noteq> None \<Longrightarrow> I t \<Longrightarrow>
       wpre (removeFscFromConfigMap E (om_Name (fsc_Meta inst))) (\<lambda>r. J (of_sum r)) t"
  shows "wpre (reconcile E inst) (\<lambda>y. stepped E I J (snd y)) s"
proof (cases "om_DeletionTimestamp (fsc_Meta inst) = None")
  case True
  have steps: "wpre (reconcileSteps E i ow) (\<lambda>y. stepped E I J (snd y)) u"
    if "I u" "om_Name (fsc_Meta i) = om_Name (fsc_Meta inst)" "fsc_Spec i = fsc_Spec inst" for i ow u
    by (rule wp_reconcileSteps_frame [OF laws I(1) that(1) J ensure [OF True that(2,3)]])
  have early: "stepped E I J (Err e :: unit res) u" if "I u" for e u using that by (simp add: stepped_def)
  show ?thesis
  proof (cases "IsContain (om_Finalizers (fsc_Meta inst)) flashSystemClusterFinalizer")
    case fin: True
    with True show ?thesis using steps [OF I(2) refl refl] by (simp add: reconcile_def Let_def)
  next
    case False
    show ?thesis
      unfolding reconcile_def Let_def if_P [OF True] if_P [OF False] wp_bind
      by (rule wp_updateFsc_stable [OF laws I]) (simp_all add: wp early steps setFinalizers_def)
  qed
next
  case False
  show ?thesis
    unfolding reconcile_deleted [OF False]
    by (rule wp_finalize_frame [OF laws I]) (rule remove [OF False])
qed

lemma wp_Reconcile_frame:
  assumes laws: "api_laws E v" and I: "stable v I" "I s" and J: "\<And>r. stable v (J r)"
    and ensure: "\<And>c i t. aliveFsc (v (world s)) rq c \<Longrightarrow> om_Name (fsc_Meta i) = snd rq \<Longrightarrow> fsc_Spec i = fsc_Spec c \<Longrightarrow> I t \<Longrightarrow>
       wpre (ensureScPoolConfigMap E i) J t"
    and remove: "\<And>t. (\<And>c. \<not> aliveFsc (v (world s)) rq c) \<Longrightarrow> I t \<Longrightarrow> wpre (removeFscFromConfigMap E (snd rq)) (\<lambda>r. J (of_sum r)) t"
  shows "wpre (Reconcile E rq) (stepped E I J) s"
  unfolding Reconcile_def wp_bind [of "getAs _ _ _ _ _"]
proof (rule wp_mono [OF wp_conj [OF wp_getFsc [OF laws] wp_stable [OF I(1) _ I(2), where Q = "\<lambda>_. I"]]], goal_cases)
  case 1
  show ?case by (intro confined_client laws)
next
  case (3 r t)
  then have "I t" by blast
  have err: "stepped E I J (Err e :: Result res) t" if "I t" for e t using that by (simp add: stepped_def)
  show ?case
  proof (cases r)
    case (Inl e)
    show ?thesis
    proof (cases "IsNotFound e")
      case True
      with 3 Inl have none: "\<not> aliveFsc (v (world s)) rq c" for c by (simp add: aliveFsc_def)
      show ?thesis
        unfolding Inl sum.case if_P [OF True] wp_bind
        by (rule wp_mono [OF remove [OF none \<open>I t\<close>]]) (auto simp: wp stepped_def split: sum.split)
    qed (use err [OF \<open>I t\<close>] in \<open>simp add: Inl wp\<close>)
  next
    case (Inr inst)
    with 3 have inst: "v (world s) (KFsc, rq) = Some (OFsc inst)" "om_Name (fsc_Meta inst) = snd rq" by auto
    have alive: "aliveFsc (v (world s)) rq c \<longleftrightarrow> om_DeletionTimestamp (fsc_Meta inst) = None \<and> c = inst" for c
      using inst(1) by (auto simp: aliveFsc_def)
    have "wpre (reconcile E inst) (\<lambda>y. stepped E I J (snd y)) t"
      by (rule wp_reconcile_frame [OF laws I(1) \<open>I t\<close> J]) (use ensure remove inst(2) alive in simp_all)
    then show ?thesis
      unfolding Inr sum.case wp_bind [of "reconcile _ _"] by (rule wp_mono) (rule wp_report_frame [OF laws I(1) J])
  qed
qed simp

section \<open>The ConfigMap after a pass\<close>

definition ready :: "'w view \<Rightarrow> string \<Rightarrow> (string \<Rightarrow> string option) \<Rightarrow> 'w st \<Rightarrow> bool" where
  "ready v ns f t \<longleftrightarrow> watchNamespace t = ns \<and> poolLive v ns (world t) \<and> poolEntry v ns (world t) = f"

lemma stable_ready: "stable v (ready v ns f)" "stable v (\<lambda>t. P (poolEntry v ns (world t)))"
  by (auto simp: stable_def ready_def undisturbed_pools)

definition clusterMoved :: "'w env \<Rightarrow> objects \<Rightarrow> request \<Rightarrow> bool \<Rightarrow> (string \<Rightarrow> string option) \<Rightarrow> (string \<Rightarrow> string option) \<Rightarrow> bool" where
  "clusterMoved E os rq b f g \<longleftrightarrow>
     (case os (KFsc, rq) of
        Some (OFsc c) \<Rightarrow>
          if om_DeletionTimestamp (fsc_Meta c) = None
          then \<exists>val. kMarshal E (newContent c) = Inr val \<and> ensuring (snd rq) val b f g
          else removal (snd rq) b f g
      | _ \<Rightarrow> removal (snd rq) b f g)"

lemma clusterMoved_cases:
  "aliveFsc os rq c \<Longrightarrow> clusterMoved E os rq b f g \<longleftrightarrow> (\<exists>val. kMarshal E (newContent c) = Inr val \<and> ensuring (snd rq) val b f g)"
  "(\<And>c. \<not> aliveFsc os rq c) \<Longrightarrow> clusterMoved E os rq b f g \<longleftrightarrow> removal (snd rq) b f g"
proof -
  show "aliveFsc os rq c \<Longrightarrow> clusterMoved E os rq b f g \<longleftrightarrow> (\<exists>val. kMarshal E (newContent c) = Inr val \<and> ensuring (snd rq) val b f g)"
    by (simp add: clusterMoved_def aliveFsc_def)
  assume "\<And>c. \<not> aliveFsc os rq c"
  then have "os (KFsc, rq) = Some (OFsc c) \<Longrightarrow> om_DeletionTimestamp (fsc_Meta c) \<noteq> None" for c by (simp add: aliveFsc_def)
  then show "clusterMoved E os rq b f g \<longleftrightarrow> removal (snd rq) b f g"
    by (cases "\<exists>c. os (KFsc, rq) = Some (OFsc c)") (auto simp: clusterMoved_def split: option.split kobj.split)
qed

lemma clusterMoved_weaken: "clusterMoved E os rq b f g \<Longrightarrow> (b' \<Longrightarrow> b) \<Longrightarrow> clusterMoved E os rq b' f g"
  by (cases "\<exists>c. aliveFsc os rq c") (auto simp: clusterMoved_cases ensuring_def removal_def split: if_splits)

lemma wp_Reconcile_any:
  assumes laws: "api_laws E v" "atomic_laws E v" and s: "ready v ns f s"
    and ok: "\<And>c. aliveFsc (v (world s)) rq c \<Longrightarrow> \<exists>val. kMarshal E (newContent c) = Inr val"
  shows "wpre (Reconcile E rq) (\<lambda>r t. clusterMoved E (v (world s)) rq (r = Ok emptyResult) f (poolEntry v ns (world t))) s"
proof -
  let ?os = "v (world s)"
  let ?J = "\<lambda>x t. clusterMoved E ?os rq (x = Ok ()) f (poolEntry v ns (world t))"
  have none: "clusterMoved E ?os rq False f f"
    using ok by (cases "\<exists>c. aliveFsc ?os rq c") (auto simp: clusterMoved_cases ensuring_def removal_def)
  have "wpre (Reconcile E rq) (stepped E (ready v ns f) ?J) s"
  proof (rule wp_Reconcile_frame [OF laws(1) stable_ready(1) s stable_ready(2)], goal_cases)
    case (1 c i t)
    then have t: "watchNamespace t = ns" "poolLive v (watchNamespace t) (world t)" "poolEntry v ns (world t) = f"
      and i: "newContent i = newContent c"
      by (simp_all add: ready_def newContent_def)
    from ok [OF 1(1)] obtain val where val: "kMarshal E (newContent i) = Inr val" unfolding i by blast
    show ?case
      by (rule wp_mono [OF wp_ensure_any [OF laws t(2) val]], unfold t)
        (use 1(1,2) val i in \<open>auto simp: clusterMoved_cases\<close>)
  next
    case (2 t)
    then have t: "watchNamespace t = ns" "poolLive v (watchNamespace t) (world t)" "poolEntry v ns (world t) = f"
      by (simp_all add: ready_def)
    have "of_sum r = Ok () \<longleftrightarrow> r = Inr ()" for r :: "goerr + unit" by (cases r) simp_all
    then show ?case
      by (rule_tac wp_mono [OF wp_remove_any [OF laws t(2)]], unfold t) (simp add: clusterMoved_cases(2) [OF 2(1)])
  qed
  then show ?thesis
    by (rule wp_mono) (use none in \<open>auto simp: stepped_def ready_def elim: clusterMoved_weaken\<close>)
qed

end
