(* ===== verification/Registry.thy ===== *)
theory Registry
  imports FscOutcome PvSpec
begin

text \<open>
  The pools ConfigMap as a registry that the controllers keep together: the FlashSystemCluster controller
  adds and removes the entries of clusters, the storage class watcher places the storage classes in
  them, the volume watcher only reads. The whole passes of the three controllers, the failing ones
  included, refine the steps of an abstract registry, in every order and while others change every
  object of the cluster but the ConfigMap, or delete the ConfigMap.
\<close>

section \<open>The abstract registry\<close>

type_synonym registry = "string \<Rightarrow> poolInfo option"

datatype pass = EnsurePass string string | RemovePass string | ClassPass request | OtherPass | Wiped

definition ensureReg :: "string \<Rightarrow> poolInfo \<Rightarrow> registry \<Rightarrow> registry" where
  "ensureReg n i R = (\<lambda>k. let kept = (if k = PoolsKey then None else R k) in if k = n \<and> kept = None then Some i else kept)"

text \<open>
  \<open>regStep E os p b\<close>: a pass \<open>p\<close> over the objects \<open>os\<close>, settled (\<open>b\<close>) or not. A pass that is not settled has done all of
  its work, some of it, or nothing.
\<close>

inductive regStep :: "'w env \<Rightarrow> objects \<Rightarrow> pass \<Rightarrow> bool \<Rightarrow> registry \<Rightarrow> registry \<Rightarrow> bool" for E os where
  ensure: "regStep E os (EnsurePass n sec) b R (ensureReg n (sec, \<lambda>_. None) R)"
| legacy: "regStep E os (EnsurePass n sec) False R (R(PoolsKey := None))"
| remove: "regStep E os (RemovePass n) b R (R(n := None))"
| cls: "classSpec E os rq m \<Longrightarrow> (\<And>k. R' k = map_option (placeAt (snd rq) (m k)) (R k) \<or> \<not> b \<and> R' k = R k) \<Longrightarrow>
    regStep E os (ClassPass rq) b R R'"
| other: "regStep E os OtherPass b R R"
| wiped: "regStep E os Wiped b R (\<lambda>k. None)"
| failed: "regStep E os p False R R"

inductive_cases regStep_EnsureE: "regStep E os (EnsurePass n sec) True R R'"
inductive_cases regStep_ClassE: "regStep E os (ClassPass rq) True R R'"

text \<open>A run of the abstract registry: each step with the objects of the cluster at that moment.\<close>

type_synonym trace = "(objects \<times> pass \<times> bool) list"

inductive regRun :: "'w env \<Rightarrow> trace \<Rightarrow> registry \<Rightarrow> registry \<Rightarrow> bool" for E where
  nil: "regRun E [] R R"
| step: "regRun E ls R R' \<Longrightarrow> regStep E os p b R' R'' \<Longrightarrow> regRun E (ls @ [(os, p, b)]) R R''"

inductive_simps regRun_nil: "regRun E [] R R'"

lemma regRun_snoc: "regRun E (ls @ [(os, p, b)]) R R'' \<longleftrightarrow> (\<exists>R'. regRun E ls R R' \<and> regStep E os p b R' R'')"
  by (auto intro: regRun.step elim: regRun.cases)

lemma regRun_append: "regRun E (xs @ ys) R R'' \<longleftrightarrow> (\<exists>R'. regRun E xs R R' \<and> regRun E ys R' R'')"
proof (induction ys arbitrary: R'' rule: rev_induct)
  case Nil
  then show ?case by (simp add: regRun_nil)
next
  case (snoc x ys)
  obtain os p b where "x = (os, p, b)" by (cases x)
  with snoc regRun_snoc [of E "xs @ ys" os p b] show ?case by (auto simp: regRun_snoc)
qed

section \<open>The passes of the operator\<close>

datatype operation = FscPass request | ScPass request | PvPass request

text \<open>A whole pass of one of the controllers, and whether it has settled: no error, no panic and no requeue.\<close>

fun runPass :: "'w env \<Rightarrow> string \<Rightarrow> operation \<Rightarrow> ('w, bool) oper" where
  "runPass E ns (FscPass rq) = do { r \<leftarrow> Reconcile E rq; ret (r = Ok emptyResult) }"
| "runPass E ns (ScPass rq) = do { r \<leftarrow> ScReconcile E ns rq; ret (r = Ok emptyResult) }"
| "runPass E ns (PvPass rq) = do { r \<leftarrow> PvReconcile E rq; ret (r = Ok emptyResult) }"

text \<open>What a pass is for the registry: a pass over a living instance ensures its entry, one that is gone or leaving loses it.\<close>

fun passOf :: "objects \<Rightarrow> operation \<Rightarrow> pass" where
  "passOf os (FscPass rq) =
     (case os (KFsc, rq) of
        Some (OFsc c) \<Rightarrow>
          if om_DeletionTimestamp (fsc_Meta c) = None then EnsurePass (snd rq) (sr_Name (fs_Secret (fsc_Spec c)))
          else RemovePass (snd rq)
      | _ \<Rightarrow> RemovePass (snd rq))"
| "passOf os (ScPass rq) = ClassPass rq"
| "passOf os (PvPass rq) = OtherPass"

definition registryOf :: "'w env \<Rightarrow> 'w view \<Rightarrow> string \<Rightarrow> 'w \<Rightarrow> registry" where
  "registryOf E v ns w = poolInfos E (poolEntry v ns w)"

text \<open>Every entry but the legacy one decodes: it was written by the operator.\<close>

definition encoded :: "'w env \<Rightarrow> (string \<Rightarrow> string option) \<Rightarrow> bool" where
  "encoded E f \<longleftrightarrow> (\<forall>k s. k \<noteq> PoolsKey \<longrightarrow> f k = Some s \<longrightarrow> infoOf E s \<noteq> None)"

text \<open>Inputs the operator can represent: the secret of an instance has a name that is valid text.\<close>

fun okPass :: "'w env \<Rightarrow> (string \<Rightarrow> bool) \<Rightarrow> objects \<Rightarrow> operation \<Rightarrow> bool" where
  "okPass E valid os (FscPass rq) \<longleftrightarrow>
     (case os (KFsc, rq) of
        Some (OFsc c) \<Rightarrow> om_DeletionTimestamp (fsc_Meta c) \<noteq> None \<or>
          valid (sr_Name (fs_Secret (fsc_Spec c))) \<and> (case kMarshal E (newContent c) of Inl e \<Rightarrow> False | Inr val \<Rightarrow> True)
      | _ \<Rightarrow> True)"
| "okPass E valid os (ScPass rq) \<longleftrightarrow> okClass E valid os rq"
| "okPass E valid os (PvPass rq) \<longleftrightarrow> True"

section \<open>One pass refines one step\<close>

lemma encoded_upd: "encoded E f \<Longrightarrow> encoded E (f(k := None))"
  by (simp add: encoded_def)

lemma poolInfos_upd: "poolInfos E (f(k := None)) = (poolInfos E f)(k := None)"
  by (auto simp: poolInfos_def fun_eq_iff)

lemma info_newContent:
  assumes laws: "codec_laws E valid" and ok: "valid (sr_Name (fs_Secret (fsc_Spec c)))" and val: "kMarshal E (newContent c) = Inr val"
  shows "infoOf E val = Some (sr_Name (fs_Secret (fsc_Spec c)), \<lambda>_. None)"
proof -
  have "okContent valid (newContent c)" using ok by (simp add: okContent_def newContent_def)
  from laws [unfolded codec_laws_def] this val
  obtain d where "kUnmarshal E val = Inr d" "ContentSecret d = ContentSecret (newContent c)"
    "mget (ScPoolMap d) = mget (ScPoolMap (newContent c))"
    by (rule content_codec.dec_enc)
  then show ?thesis by (simp add: infoOf_def newContent_def fun_eq_iff)
qed

lemma ensured_infos:
  assumes enc: "encoded E f" and i: "infoOf E val = Some i"
  shows "poolInfos E (ensuredEntry n val f) = ensureReg n i (poolInfos E f)" "encoded E (ensuredEntry n val f)"
proof -
  show "encoded E (ensuredEntry n val f)"
    using enc i by (auto simp: encoded_def ensuredEntry_def Let_def split: if_splits)
  have "poolInfos E (ensuredEntry n val f) k = ensureReg n i (poolInfos E f) k" for k
  proof (cases "k = PoolsKey")
    case True
    with i show ?thesis by (simp add: poolInfos_def ensureReg_def ensuredEntry_def Let_def)
  next
    case False
    with enc have "f k = None \<longleftrightarrow> poolInfos E f k = None"
      by (cases "f k") (auto simp: encoded_def poolInfos_def)
    with False i show ?thesis by (auto simp: poolInfos_def ensureReg_def ensuredEntry_def Let_def)
  qed
  then show "poolInfos E (ensuredEntry n val f) = ensureReg n i (poolInfos E f)" by blast
qed

lemma removal_step:
  "encoded E f \<Longrightarrow> removal n b f g \<Longrightarrow> regStep E os (RemovePass n) b (poolInfos E f) (poolInfos E g) \<and> encoded E g"
  by (auto simp: removal_def poolInfos_upd encoded_upd intro: regStep.remove regStep.failed)

lemma cluster_step:
  assumes laws: "codec_laws E valid" and enc: "encoded E f" and ok: "okPass E valid os (FscPass rq)" and mv: "clusterMoved E os rq b f g"
  shows "regStep E os (passOf os (FscPass rq)) b (poolInfos E f) (poolInfos E g) \<and> encoded E g"
proof (cases "\<exists>c. os (KFsc, rq) = Some (OFsc c) \<and> om_DeletionTimestamp (fsc_Meta c) = None")
  case True
  then obtain c where c: "os (KFsc, rq) = Some (OFsc c)" "om_DeletionTimestamp (fsc_Meta c) = None" by blast
  with mv obtain val where val: "kMarshal E (newContent c) = Inr val" "ensuring (snd rq) val b f g" by (auto simp: clusterMoved_def)
  have i: "infoOf E val = Some (sr_Name (fs_Secret (fsc_Spec c)), \<lambda>_. None)"
    by (rule info_newContent [OF laws _ val(1)]) (use ok c in simp)
  have "passOf os (FscPass rq) = EnsurePass (snd rq) (sr_Name (fs_Secret (fsc_Spec c)))" using c by simp
  with val(2) show ?thesis
    using enc ensured_infos [OF enc i]
    by (auto simp: ensuring_def poolInfos_upd encoded_upd intro: regStep.ensure regStep.legacy regStep.failed)
next
  case False
  then have "passOf os (FscPass rq) = RemovePass (snd rq)" "removal (snd rq) b f g"
    using mv by (auto simp: clusterMoved_def split: option.splits kobj.splits if_splits)
  with removal_step [OF enc] show ?thesis by simp
qed

lemma encoded_rewritten: "encoded E f \<Longrightarrow> rewritten E h D f g \<Longrightarrow> encoded E g"
  unfolding encoded_def rewritten_def poolInfos_def
  by (metis (no_types, lifting) bind.bind_lunit map_option_is_None not_None_eq)

lemma class_step:
  assumes enc: "encoded E f" and mv: "classMoved E os rq b f g"
  shows "regStep E os (ClassPass rq) b (poolInfos E f) (poolInfos E g) \<and> encoded E g"
  using mv unfolding classMoved_def
proof
  assume "\<not> b \<and> g = f"
  with enc show ?thesis by (auto intro: regStep.failed)
next
  assume "\<exists>m. classSpec E os rq m \<and> rewritten E (\<lambda>k. placeAt (snd rq) (m k)) (if b then UNIV else {}) f g"
  then obtain m where m: "classSpec E os rq m" "rewritten E (\<lambda>k. placeAt (snd rq) (m k)) (if b then UNIV else {}) f g" by blast
  have "regStep E os (ClassPass rq) b (poolInfos E f) (poolInfos E g)"
    by (rule regStep.cls [OF m(1)]) (use m(2) in \<open>auto simp: rewritten_def split: if_splits\<close>)
  with encoded_rewritten [OF enc m(2)] show ?thesis by blast
qed

lemma confined_mapClustersLoop: "api_laws E v \<Longrightarrow> confined v K (mapClustersLoop E cs m)"
  by (induction cs arbitrary: m) (auto intro!: confined_intro confined_client)

lemma aside_PvReconcile:
  assumes laws: "api_laws E v"
  shows "aside v (PvReconcile E rq)"
proof -
  have upd: "aside v (updateAs E asPv (OPv pv))" for pv by (intro confined_client laws) simp
  show ?thesis
    unfolding PvReconcile_def pvBody_def ensureStorageSystemLabel_def getPVManagementAddress_def GetStorageClassSecret_def
      MapClustersByMgmtAddress_def
    by (intro confined_intro upd confined_mapClustersLoop [OF laws] confined_client(1,2) [OF laws])
qed

lemma pass_refines:
  assumes laws: "api_laws E v" "atomic_laws E v" "codec_laws E valid"
    and ns: "watchNamespace s = ns" and live: "poolLive v ns (world s)"
    and enc: "encoded E (poolEntry v ns (world s))" and ok: "okPass E valid (v (world s)) p"
    and run: "run_state (runPass E ns p) s = (b, t)"
  shows "regStep E (v (world s)) (passOf (v (world s)) p) b (registryOf E v ns (world s)) (registryOf E v ns (world t)) \<and>
    encoded E (poolEntry v ns (world t))"
proof (cases p)
  case (FscPass rq)
  with run obtain r where r: "run_state (Reconcile E rq) s = (r, t)" "b = (r = Ok emptyResult)"
    by (auto split: prod.splits)
  have s: "ready v ns (poolEntry v ns (world s)) s" using ns live by (simp add: ready_def)
  have ok': "\<exists>val. kMarshal E (newContent c) = Inr val"
    if "aliveFsc (v (world s)) rq c" for c
    using ok that unfolding FscPass aliveFsc_def by (auto split: sum.splits)
  have "clusterMoved E (v (world s)) rq b (poolEntry v ns (world s)) (poolEntry v ns (world t))"
    using wp_runD [OF wp_Reconcile_any [OF laws(1,2) s ok'] r(1)] r(2) by simp
  from cluster_step [OF laws(3) enc ok [unfolded FscPass] this] show ?thesis unfolding FscPass registryOf_def .
next
  case (ScPass rq)
  with run obtain r where r: "run_state (ScReconcile E ns rq) s = (r, t)" "b = (r = Ok emptyResult)"
    by (auto split: prod.splits)
  have "classMoved E (v (world s)) rq b (poolEntry v ns (world s)) (poolEntry v ns (world t))"
    using wp_runD [OF wp_ScReconcile_any [OF laws live] r(1)] ok r(2) unfolding ScPass by simp
  from class_step [OF enc this] show ?thesis unfolding ScPass passOf.simps registryOf_def .
next
  case (PvPass rq)
  with run obtain r where r: "run_state (PvReconcile E rq) s = (r, t)" by (auto split: prod.splits)
  have "wpre (PvReconcile E rq) (\<lambda>r t. poolEntry v ns (world t) = poolEntry v ns (world s)) s"
    by (rule wp_aside [OF aside_PvReconcile [OF laws(1)]]) (simp add: undisturbed_pools)
  from wp_runD [OF this r] enc show ?thesis unfolding PvPass passOf.simps registryOf_def by (simp add: regStep.other)
qed

section \<open>Histories\<close>

text \<open>
  A history of the cluster: passes of the controllers, each recorded with the objects it saw and whether it
  settled, and between them changes by others to anything but the ConfigMap, or its deletion.
\<close>

inductive history :: "'w env \<Rightarrow> 'w view \<Rightarrow> string \<Rightarrow> (string \<Rightarrow> bool) \<Rightarrow> 'w st \<Rightarrow> trace \<Rightarrow> 'w st \<Rightarrow> bool"
  for E v ns valid s where
  begin': "history E v ns valid s [] s"
| others: "history E v ns valid s ls t \<Longrightarrow> v (world u) (poolKey ns) = v (world t) (poolKey ns) \<Longrightarrow> history E v ns valid s ls u"
| wiped: "history E v ns valid s ls t \<Longrightarrow> v (world u) (poolKey ns) = None \<Longrightarrow>
    history E v ns valid s (ls @ [(v (world t), Wiped, True)]) u"
| pass: "history E v ns valid s ls t \<Longrightarrow> watchNamespace t = ns \<Longrightarrow> poolLive v ns (world t) \<Longrightarrow>
    okPass E valid (v (world t)) p \<Longrightarrow> run_state (runPass E ns p) t = (b, u) \<Longrightarrow>
    history E v ns valid s (ls @ [(v (world t), passOf (v (world t)) p, b)]) u"

lemma history_refines:
  assumes laws: "api_laws E v" "atomic_laws E v" "codec_laws E valid" and enc: "encoded E (poolEntry v ns (world s))"
  shows "history E v ns valid s ls t \<Longrightarrow>
    regRun E ls (registryOf E v ns (world s)) (registryOf E v ns (world t)) \<and> encoded E (poolEntry v ns (world t))"
proof (induction rule: history.induct)
  case begin'
  then show ?case using enc by (auto intro: regRun.nil)
next
  case (others ls t u)
  from pools_eq(1) [of v "world u" ns "world t", OF others.hyps(2)] others.IH show ?case by (simp add: registryOf_def)
next
  case (wiped ls t u)
  then have "poolEntry v ns (world u) = (\<lambda>k. None)" by (simp add: poolEntry_def poolCm_def fun_eq_iff)
  then have "registryOf E v ns (world u) = (\<lambda>k. None)" "encoded E (poolEntry v ns (world u))"
    by (simp_all add: registryOf_def poolInfos_def encoded_def fun_eq_iff)
  with wiped.IH show ?case by (auto intro: regRun.step regStep.wiped)
next
  case (pass ls t p b u)
  with pass_refines [OF laws pass.hyps(2-3) _ pass.hyps(4,5)] show ?case
    by (auto intro: regRun.step)
qed


section \<open>Every assignment is justified\<close>

fun passOver :: "string \<Rightarrow> pass \<Rightarrow> bool" where
  "passOver n (ClassPass rq) \<longleftrightarrow> snd rq = n"
| "passOver n p \<longleftrightarrow> False"

text \<open>The latest settled pass over a class, and the failed ones after it.\<close>

definition since :: "string \<Rightarrow> trace \<Rightarrow> (objects \<times> pass) list" where
  "since n ls = foldl (\<lambda>acc (os, p, b). if passOver n p then (if b then [] else acc) @ [(os, p)] else acc) [] ls"

lemma since_simps [simp]:
  "since n [] = []"
  "since n (ls @ [(os, p, b)]) = (if passOver n p then (if b then [] else since n ls) @ [(os, p)] else since n ls)"
  by (simp_all add: since_def)

definition justified :: "'w env \<Rightarrow> trace \<Rightarrow> registry \<Rightarrow> bool" where
  "justified E ls R \<longleftrightarrow> (\<forall>k i n pool. R k = Some i \<longrightarrow> snd i n = Some pool \<longrightarrow>
     (\<exists>os rq m. (os, ClassPass rq) \<in> set (since n ls) \<and> classSpec E os rq m \<and> m k = Some pool))"

lemma snd_placeAt [simp]: "snd (placeAt sc m i) n = (if n = sc then m else snd i n)" "fst (placeAt sc m i) = fst i"
  by (cases m; simp add: forget_def assign_def)+

lemma justifiedD:
  "justified E ls R \<Longrightarrow> R k = Some i \<Longrightarrow> snd i n = Some pool \<Longrightarrow>
     \<exists>os rq m. (os, ClassPass rq) \<in> set (since n ls) \<and> classSpec E os rq m \<and> m k = Some pool"
  unfolding justified_def by blast

lemma justified_mono:
  assumes "justified E ls R" and "\<And>k i n pool. R' k = Some i \<Longrightarrow> snd i n = Some pool \<Longrightarrow> \<exists>i'. R k = Some i' \<and> snd i' n = Some pool"
    and "\<And>n. set (since n ls) \<subseteq> set (since n ls')"
  shows "justified E ls' R'"
  unfolding justified_def using assms justifiedD by (meson subsetD)

lemma justified_step:
  assumes "justified E ls R" "regStep E os p b R R'"
  shows "justified E (ls @ [(os, p, b)]) R'"
proof (cases "\<exists>rq. p = ClassPass rq")
  case False
  then have over: "\<not> passOver n p" for n by (cases p) auto
  from assms(2) show ?thesis
    by cases (rule justified_mono [OF assms(1)]; use over False in \<open>auto simp: ensureReg_def Let_def split: if_splits\<close>)+
next
  case True
  then obtain rq where p: "p = ClassPass rq" by blast
  from assms(2) [unfolded p] show ?thesis
  proof cases
    case (cls m)
    show ?thesis
      unfolding justified_def p
    proof (intro allI impI)
      fix k i' n pool
      assume a: "R' k = Some i'" "snd i' n = Some pool"
      show "\<exists>os' rq' m'. (os', ClassPass rq') \<in> set (since n (ls @ [(os, ClassPass rq, b)])) \<and> classSpec E os' rq' m' \<and> m' k = Some pool"
      proof (cases "n = snd rq \<and> R' k = map_option (placeAt (snd rq) (m k)) (R k)")
        case True
        with a have "m k = Some pool" by auto
        with cls(1) True show ?thesis by (auto simp del: split_paired_Ex)
      next
        case False
        with cls(2) [of k] a obtain i where i: "R k = Some i" "snd i n = Some pool" "n = snd rq \<longrightarrow> \<not> b"
          by (cases "R k") (fastforce split: if_splits)+
        from justifiedD [OF assms(1) i(1,2)] i(3) show ?thesis by (auto simp del: split_paired_Ex split: if_splits)
      qed
    qed
  next
    case failed
    then show ?thesis
      unfolding p by (intro justified_mono [OF assms(1)]) auto
  qed
qed


section \<open>Entries stay current\<close>

text \<open>Passes that leave what an entry says of a storage class: over other classes, and not the removal of the cluster.\<close>

definition unrelated :: "string \<Rightarrow> string \<Rightarrow> trace \<Rightarrow> bool" where
  "unrelated k n ls \<longleftrightarrow> list_all (\<lambda>(os, p, b). \<not> passOver n p \<and> p \<noteq> RemovePass k \<and> p \<noteq> Wiped) ls"

lemma unrelated_run:
  "regRun E ls R R' \<Longrightarrow> unrelated k n ls \<Longrightarrow> k \<noteq> PoolsKey \<Longrightarrow> R k = Some i \<Longrightarrow> \<exists>i'. R' k = Some i' \<and> snd i' n = snd i n"
proof (induction rule: regRun.induct)
  case (step ls R R' os p b R'')
  then obtain i' where i': "R' k = Some i'" "snd i' n = snd i n" and p: "\<not> passOver n p" "p \<noteq> RemovePass k" "p \<noteq> Wiped"
    by (auto simp: unrelated_def)
  from step.hyps(2) show ?case
  proof cases
    case (cls rq m)
    with cls(3) [of k] i' p show ?thesis by (auto simp del: split_paired_Ex)
  qed (use i' p step.prems(2) in \<open>auto simp: ensureReg_def Let_def\<close>)
qed simp


section \<open>Whose entries there are\<close>

text \<open>The passes over a living cluster after the latest settled removal of its entry.\<close>

fun ensuredStep :: "string \<Rightarrow> pass \<Rightarrow> bool \<Rightarrow> string list \<Rightarrow> string list" where
  "ensuredStep n (EnsurePass n' sec) b acc = (if n' = n then acc @ [sec] else acc)"
| "ensuredStep n (RemovePass n') b acc = (if n' = n \<and> b then [] else acc)"
| "ensuredStep n Wiped b acc = (if b then [] else acc)"
| "ensuredStep n p b acc = acc"

definition ensuredSince :: "string \<Rightarrow> trace \<Rightarrow> string list" where
  "ensuredSince n ls = foldl (\<lambda>acc (os, p, b). ensuredStep n p b acc) [] ls"

lemma ensuredSince_simps [simp]:
  "ensuredSince n [] = []"
  "ensuredSince n (ls @ [(os, p, b)]) = ensuredStep n p b (ensuredSince n ls)"
  by (simp_all add: ensuredSince_def)

definition membersOf :: "trace \<Rightarrow> registry \<Rightarrow> bool" where
  "membersOf ls R \<longleftrightarrow> (\<forall>k i. R k = Some i \<longrightarrow> fst i \<in> set (ensuredSince k ls))"

lemma membersOf_step:
  assumes "membersOf ls R" "regStep E os p b R R'"
  shows "membersOf (ls @ [(os, p, b)]) R'"
  unfolding membersOf_def
proof (intro allI impI)
  fix k i
  assume k: "R' k = Some i"
  have old: "R k = Some i \<Longrightarrow> fst i \<in> set (ensuredSince k ls)" for i using assms(1) by (simp add: membersOf_def del: split_paired_All)
  from assms(2) show "fst i \<in> set (ensuredSince k (ls @ [(os, p, b)]))"
  proof cases
    case (cls rq m)
    with cls(3) [of k] k old show ?thesis by (cases "R k") auto
  next
    case failed
    with k old show ?thesis by (cases p) auto
  qed (use k old in \<open>auto simp: ensureReg_def Let_def split: if_splits\<close>)
qed

text \<open>
  C4: The pools ConfigMap has no entry for a cluster that is not there. Starting without entries, in every history:
  an entry of a cluster was put there by a pass that found the cluster alive, and since then no pass that found
  it gone or under deletion has settled; the secret it names is the secret that a pass found.
\<close>

theorem registry_members:
  assumes "api_laws E v" "atomic_laws E v" "codec_laws E valid" and "encoded E (poolEntry v ns (world s))"
    and "\<And>k. registryOf E v ns (world s) k = None" and "history E v ns valid s ls t"
    and "registryOf E v ns (world t) k = Some i"
  shows "fst i \<in> set (ensuredSince k ls)"
proof -
  have "regRun E ls R R' \<Longrightarrow> membersOf [] R \<Longrightarrow> membersOf ls R'" for R R'
    by (induction rule: regRun.induct) (auto intro: membersOf_step)
  moreover have "membersOf [] (registryOf E v ns (world s))" using assms(5) by (simp add: membersOf_def)
  ultimately have "membersOf ls (registryOf E v ns (world t))" using history_refines [OF assms(1-4,6)] by blast
  with assms(7) show ?thesis unfolding membersOf_def by blast
qed

section \<open>A concrete history\<close>

text \<open>A pass over the sample class; then its secret is deleted by others, and the next pass over the class fails.\<close>

definition bareContent :: FlashSystemClusterMapContent where
  "bareContent = \<lparr>ScPoolMap = MkMap [], ContentSecret = ''fs-secret''\<rparr>"

definition bareStart :: "store st" where
  "bareStart = demoState [OConfigMap (demoCm\<lparr>cm_Data := MkMap [(''fs1'', Marshal_content bareContent)]\<rparr>),
     OStorageClass demoSc, OSecret demoSecret, OFsc demoFsc]"

definition classRq :: request where
  "classRq = ([], ''sc1'')"

definition afterClass :: "store st" where
  "afterClass = snd (run_state (runPass storeEnv ''ns'' (ScPass classRq)) bareStart)"

definition placedCm :: ConfigMap where
  "placedCm = \<lparr>cm_Meta = (cm_Meta demoCm)\<lparr>om_ResourceVersion := ''100''\<rparr>,
     cm_Data = MkMap [(''fs1'', Marshal_content (bareContent\<lparr>ScPoolMap := MkMap [(''sc1'', ''p0'')]\<rparr>))]\<rparr>"

definition withoutSecret :: "store st" where
  "withoutSecret = demoState [OConfigMap placedCm, OStorageClass demoSc, OFsc demoFsc]"

definition afterFailure :: "store st" where
  "afterFailure = snd (run_state (runPass storeEnv ''ns'' (ScPass classRq)) withoutSecret)"

definition demoTrace :: trace where
  "demoTrace = [] @ [(storeView (world bareStart), ClassPass classRq, True)] @ [(storeView (world withoutSecret), ClassPass classRq, False)]"

lemma demo_runs:
  "run_state (runPass storeEnv ''ns'' (ScPass classRq)) bareStart = (True, afterClass)"
  "run_state (runPass storeEnv ''ns'' (ScPass classRq)) withoutSecret = (False, afterFailure)"
proof -
  have "fst (run_state (runPass storeEnv ''ns'' (ScPass classRq)) bareStart) = True" by code_simp
  then show "run_state (runPass storeEnv ''ns'' (ScPass classRq)) bareStart = (True, afterClass)"
    by (metis afterClass_def prod.collapse)
  have "fst (run_state (runPass storeEnv ''ns'' (ScPass classRq)) withoutSecret) = False" by code_simp
  then show "run_state (runPass storeEnv ''ns'' (ScPass classRq)) withoutSecret = (False, afterFailure)"
    by (metis afterFailure_def prod.collapse)
qed

lemma demo_states:
  "poolLive storeView ''ns'' (world bareStart)" "watchNamespace bareStart = ''ns''"
  "storeView (world bareStart) (KStorageClass, classRq) = Some (OStorageClass demoSc)"
  "poolLive storeView ''ns'' (world withoutSecret)" "watchNamespace withoutSecret = ''ns''"
  "storeView (world withoutSecret) (KStorageClass, classRq) = Some (OStorageClass demoSc)"
  "om_DeletionTimestamp (sc_Meta demoSc) = None" "mget (sc_Parameters demoSc) TopologyStorageClassByMgmtId = None"
  "mgets (sc_Parameters demoSc) CsiIBMBlockScPool = ''p0''" "snd classRq = ''sc1''"
  by code_simp+

lemma demo_okPass:
  "okPass storeEnv validUtf8 (storeView (world bareStart)) (ScPass classRq)"
  "okPass storeEnv validUtf8 (storeView (world withoutSecret)) (ScPass classRq)"
  using demo_states demo_valid by (simp_all add: okClass_def isTopologyClass_def)

lemma demo_history: "history storeEnv storeView ''ns'' validUtf8 bareStart demoTrace afterFailure"
proof -
  have same: "storeView (world withoutSecret) (poolKey ''ns'') = storeView (world afterClass) (poolKey ''ns'')"
    by code_simp
  note first = history.pass [OF history.begin' demo_states(2,1) demo_okPass(1) demo_runs(1)]
  from history.pass [OF history.others [OF first same] demo_states(5,4) demo_okPass(2) demo_runs(2)]
  show ?thesis by (simp add: demoTrace_def)
qed

lemma demo_start:
  "encoded storeEnv (poolEntry storeView ''ns'' (world bareStart))"
  "registryOf storeEnv storeView ''ns'' (world bareStart) k = (if k = ''fs1'' then Some (''fs-secret'', \<lambda>n. None) else None)"
proof -
  have e: "poolEntry storeView ''ns'' (world bareStart) = (\<lambda>k. if k = ''fs1'' then Some (Marshal_content bareContent) else None)"
    by (auto simp: bareStart_def demoState_def poolEntry_def poolCm_def storeView_def demoCm_def fun_eq_iff keyOf_def poolKey_def
        PoolConfigmapName_def mget_def)
  have "map_option ContentSecret (case kUnmarshal storeEnv (Marshal_content bareContent) of Inl e \<Rightarrow> None | Inr c \<Rightarrow> Some c) = Some ''fs-secret''"
    "map_option (\<lambda>c. mkeys (ScPoolMap c)) (case kUnmarshal storeEnv (Marshal_content bareContent) of Inl e \<Rightarrow> None | Inr c \<Rightarrow> Some c) = Some []"
    by code_simp+
  then obtain c where c: "kUnmarshal storeEnv (Marshal_content bareContent) = Inr c" "ContentSecret c = ''fs-secret''" "mkeys (ScPoolMap c) = []"
    by (auto split: sum.splits)
  then have "mget (ScPoolMap c) = (\<lambda>n. None)" using set_mkeys [of "ScPoolMap c"] by (auto simp: fun_eq_iff)
  with c have i: "infoOf storeEnv (Marshal_content bareContent) = Some (''fs-secret'', \<lambda>n. None)" by (simp add: infoOf_def)
  show "encoded storeEnv (poolEntry storeView ''ns'' (world bareStart))"
    "registryOf storeEnv storeView ''ns'' (world bareStart) k = (if k = ''fs1'' then Some (''fs-secret'', \<lambda>n. None) else None)"
    by (simp_all add: e i encoded_def registryOf_def poolInfos_def)
qed


lemma demo_placed:
  "map_option (\<lambda>i. snd i ''sc1'') (registryOf storeEnv storeView ''ns'' (world afterFailure) ''fs1'') = Some (Some ''p0'')"
  by code_simp



text \<open>The first pass over the sample instance, before there is a ConfigMap.\<close>

definition afterCluster :: "store st" where
  "afterCluster = snd (run_state (runPass storeEnv ''ns'' (FscPass (''ns'', ''fs1''))) demoStart)"

lemma demo_cluster_history:
  "history storeEnv storeView ''ns'' validUtf8 demoStart ([] @ [(storeView (world demoStart), EnsurePass ''fs1'' ''fs-secret'', True)]) afterCluster"
proof -
  have c: "storeView (world demoStart) (KFsc, ''ns'', ''fs1'') = Some (OFsc demoFsc)"
    "om_DeletionTimestamp (fsc_Meta demoFsc) = None" "sr_Name (fs_Secret (fsc_Spec demoFsc)) = ''fs-secret''" "validUtf8 ''fs-secret''"
    "poolLive storeView ''ns'' (world demoStart)" "watchNamespace demoStart = ''ns''"
    by code_simp+
  have ok: "okPass storeEnv validUtf8 (storeView (world demoStart)) (FscPass (''ns'', ''fs1''))"
    using c by (simp add: storeEnv_def)
  have "run_state (runPass storeEnv ''ns'' (FscPass (''ns'', ''fs1''))) demoStart = (True, afterCluster)"
    unfolding afterCluster_def using demo_Reconcile
    by (cases "run_state (Reconcile storeEnv (''ns'', ''fs1'')) demoStart") simp
  from history.pass [OF history.begin' c(6,5) ok this] c show ?thesis by simp
qed

lemma demo_none:
  "encoded storeEnv (poolEntry storeView ''ns'' (world demoStart))" "registryOf storeEnv storeView ''ns'' (world demoStart) k = None"
proof -
  have "storeView (world demoStart) (poolKey ''ns'') = None" by code_simp
  then show "encoded storeEnv (poolEntry storeView ''ns'' (world demoStart))" "registryOf storeEnv storeView ''ns'' (world demoStart) k = None"
    by (simp_all add: encoded_def poolEntry_def poolCm_def registryOf_def poolInfos_def)
qed

theorem registry_members_witness:
  "\<exists>i. registryOf storeEnv storeView ''ns'' (world afterCluster) ''fs1'' = Some i \<and> fst i = ''fs-secret''"
proof -
  from history_refines [OF storeEnv_laws storeEnv_atomic storeEnv_codec demo_none(1) demo_cluster_history]
  have "regStep storeEnv (storeView (world demoStart)) (EnsurePass ''fs1'' ''fs-secret'') True
      (registryOf storeEnv storeView ''ns'' (world demoStart)) (registryOf storeEnv storeView ''ns'' (world afterCluster))"
    unfolding regRun_snoc regRun_nil by blast
  then have "registryOf storeEnv storeView ''ns'' (world afterCluster) ''fs1'' \<noteq> None"
    by (rule regStep_EnsureE) (simp_all add: ensureReg_def Let_def)
  then obtain i where i: "registryOf storeEnv storeView ''ns'' (world afterCluster) ''fs1'' = Some i" by blast
  have "set (ensuredSince ''fs1'' ([] @ [(storeView (world demoStart), EnsurePass ''fs1'' ''fs-secret'', True)])) = {''fs-secret''}"
    by (simp only: ensuredSince_simps) simp
  with registry_members [OF storeEnv_laws storeEnv_atomic storeEnv_codec demo_none demo_cluster_history i] i show ?thesis by auto
qed

end
