(* ===== verification/PoolTypes.thy ===== *)
theory PoolTypes
  imports Registry
begin

text \<open>
  The entries of the pools ConfigMap as typed data. The code asserts types of decoded JSON, assigns to decoded
  maps without a check and follows pointers that the server may leave nil, which panics on data of another shape.
  Here: on well-typed data no whole pass of the three controllers panics, every ConfigMap they write is well
  typed again, and the entries stay well typed whatever the outcome.
\<close>

section \<open>Well-typed data\<close>

text \<open>An entry that decodes has a map of storage classes.\<close>

definition shaped :: "'w env \<Rightarrow> string \<Rightarrow> bool" where
  "shaped E x = (case kUnmarshal E x of Inl e \<Rightarrow> True | Inr d \<Rightarrow> ScPoolMap d \<noteq> NilMap)"

definition typedData :: "'w env \<Rightarrow> (string \<Rightarrow> string option) \<Rightarrow> bool" where
  "typedData E f \<longleftrightarrow> (\<forall>k x. f k = Some x \<longrightarrow> k \<noteq> PoolsKey \<and> shaped E x)"

text \<open>
  The JSON texts of a storage class and its secret: each management id of the class has an object, whose pool is
  valid text, and each id of the secret an object with an address that is a string.
\<close>

definition typedClass :: "'w env \<Rightarrow> (string \<Rightarrow> bool) \<Rightarrow> objects \<Rightarrow> StorageClass \<Rightarrow> bool" where
  "typedClass E valid os sc \<longleftrightarrow> valid (mgets (sc_Parameters sc) CsiIBMBlockScPool) \<and>
     (isTopologyClass sc \<longrightarrow>
       (\<forall>P i j. kUnmarshalAny E (mgets (sc_Parameters sc) TopologyStorageClassByMgmtId) = Inr P \<longrightarrow> mget P i = Some j \<longrightarrow>
         (\<exists>ms. j = JObj ms \<and> (\<forall>p. jget ms CsiIBMBlockScPool = Some (JStr p) \<longrightarrow> valid p))) \<and>
       (\<forall>D i j. topologySecret E os sc D \<longrightarrow> mget D i = Some j \<longrightarrow> (\<exists>a. mgmtAddressOf j = Ok a)))"

text \<open>
  A volume made by the driver: it has a CSI source and a claim; a claim names its storage class, and the secret of a
  topology class is typed as above.
\<close>

definition typedVolume :: "objects \<Rightarrow> PersistentVolume \<Rightarrow> bool" where
  "typedVolume os pv \<longleftrightarrow> pv_CSI pv \<noteq> None \<and>
     (\<exists>ref. pv_ClaimRef pv = Some ref \<and>
        (\<forall>pvc. os (KPvc, ref_Namespace ref, ref_Name ref) = Some (OPvc pvc) \<longrightarrow>
           (\<exists>n. pvc_StorageClassName pvc = Some n \<and>
              (\<forall>sc sn sns x D i j. os (KStorageClass, [], n) = Some (OStorageClass sc) \<longrightarrow> isTopologyClass sc \<longrightarrow>
                 GetStorageClassSecretNamespacedName sc = Inr (sn, sns) \<longrightarrow> os (KSecret, sns, sn) = Some (OSecret x) \<longrightarrow>
                 Unmarshal_any (mgets (sec_Data x) TopologySecretDataKey) = Inr D \<longrightarrow> mget D i = Some j \<longrightarrow>
                 (\<exists>a. mgmtAddressOf j = Ok a)))))"

fun typedOp :: "'w env \<Rightarrow> (string \<Rightarrow> bool) \<Rightarrow> objects \<Rightarrow> operation \<Rightarrow> bool" where
  "typedOp E valid os (FscPass rq) \<longleftrightarrow> snd rq \<noteq> PoolsKey \<and>
     (\<forall>c. aliveFsc os rq c \<longrightarrow> valid (sr_Name (fs_Secret (fsc_Spec c))))"
| "typedOp E valid os (ScPass rq) \<longleftrightarrow> valid (snd rq) \<and>
     (\<forall>sc. os (KStorageClass, rq) = Some (OStorageClass sc) \<longrightarrow> typedClass E valid os sc)"
| "typedOp E valid os (PvPass rq) \<longleftrightarrow> (\<forall>pv. os (KPv, rq) = Some (OPv pv) \<longrightarrow> typedVolume os pv)"

text \<open>A whole pass with its result.\<close>

fun passResult :: "'w env \<Rightarrow> string \<Rightarrow> operation \<Rightarrow> ('w, Result res) oper" where
  "passResult E ns (FscPass rq) = Reconcile E rq"
| "passResult E ns (ScPass rq) = ScReconcile E ns rq"
| "passResult E ns (PvPass rq) = PvReconcile E rq"

text \<open>Every ConfigMap that is written is written with typed entries.\<close>

definition typedWrite :: "'w env \<Rightarrow> req \<Rightarrow> bool" where
  "typedWrite E q \<longleftrightarrow> isWrite q \<longrightarrow> reqKind q = KConfigMap \<longrightarrow>
     (\<exists>c. (q = RUpdate (OConfigMap c) \<or> q = RCreate (OConfigMap c)) \<and> typedData E (mget (cm_Data c)))"

lemma typedWrite_others: "writesTo (- {KConfigMap}) q \<Longrightarrow> typedWrite E q"
  by (simp add: writesTo_def typedWrite_def)

lemma typedWrite_read [simp]: "typedWrite E (RGet k ns n)" "typedWrite E (RList k o' l)"
  by (simp_all add: typedWrite_def)

lemma typedWrite_pools [simp]:
  "typedWrite E (RUpdate (OConfigMap c)) \<longleftrightarrow> typedData E (mget (cm_Data c))"
  "typedWrite E (RCreate (OConfigMap c)) \<longleftrightarrow> typedData E (mget (cm_Data c))"
  by (auto simp: typedWrite_def)

section \<open>Encoding keeps the type\<close>

context content_codec
begin

lemma shape:
  assumes "okContent valid c" "enc c = Inr s" "ScPoolMap c \<noteq> NilMap"
  shows "\<exists>d. dec s = Inr d \<and> ScPoolMap d \<noteq> NilMap"
  using round [OF assms(1,2)] assms(3) by (auto simp: contentEq_def mapEq_iff)

end

lemma shaped_enc:
  assumes "codec_laws E valid" "okContent valid c" "kMarshal E c = Inr x" "ScPoolMap c \<noteq> NilMap"
  shows "shaped E x"
  using content_codec.shape [OF assms(1) [unfolded codec_laws_def] assms(2-4)] by (auto simp: shaped_def)

lemma shaped_dec:
  assumes "codec_laws E valid" "kUnmarshal E x = Inr d" "shaped E x"
  shows "okContent valid d \<and> ScPoolMap d \<noteq> NilMap"
  using content_codec.dec_ok [OF assms(1) [unfolded codec_laws_def] assms(2)] assms(2,3) by (auto simp: shaped_def)

section \<open>Writes\<close>

definition wrote :: "'w env \<Rightarrow> 'w st \<Rightarrow> 'w st \<Rightarrow> bool" where
  "wrote E s t \<longleftrightarrow> (\<exists>xs. calls t = calls s @ xs \<and> list_all (typedWrite E \<circ> fst) xs)"

lemma wrote_refl [simp]: "wrote E s s"
  by (simp add: wrote_def)

lemma wrote_trans: "wrote E s t \<Longrightarrow> wrote E t u \<Longrightarrow> wrote E s u"
  unfolding wrote_def by (metis append.assoc list_all_append)

lemma wp_issues: "issues (typedWrite E) m \<Longrightarrow> wpre m (\<lambda>_ t. wrote E s t) s"
  unfolding issues_def wrote_def wpre_def by (metis (mono_tags, lifting) case_prod_beta)

lemma inSync_typed: "inSync v ns w c \<Longrightarrow> typedData E (mget (cm_Data c)) \<Longrightarrow> typedData E (poolEntry v ns w)"
  by (simp add: inSync_def typedData_def)

lemma typedData_legacy: "typedData E f \<Longrightarrow> f PoolsKey = None"
  by (cases "f PoolsKey") (auto simp: typedData_def)

lemma wp_typed_update:
  assumes laws: "api_laws E v" "atomic_laws E v" and key: "keyOf (OConfigMap c) = poolKey ns" "poolLive v ns (world s)"
    and typed: "typedData E (poolEntry v ns (world s))" "typedData E (mget (cm_Data c))"
    and Fail: "\<And>e t. wrote E s t \<Longrightarrow> typedData E (poolEntry v ns (world t)) \<Longrightarrow> Q (Inl e) t"
    and Done: "\<And>x t. wrote E s t \<Longrightarrow> inSync v ns (world t) c \<Longrightarrow> typedData E (poolEntry v ns (world t)) \<Longrightarrow> Q (Inr x) t"
  shows "wpre (updateAs E asConfigMap (OConfigMap c)) Q s"
proof -
  have "issues (typedWrite E) (updateAs E asConfigMap (OConfigMap c))" by (intro issues_intro) (simp add: typed)
  from wp_issues [OF this]
  have "wpre (updateAs E asConfigMap (OConfigMap c)) (\<lambda>r t. wrote E s t \<and>
      typedData E (poolEntry v ns (world t)) \<and> (\<forall>x. r = Inr x \<longrightarrow> inSync v ns (world t) c)) s"
    by (rule wp_conj) (rule wp_update_entries [OF laws key], use typed in \<open>auto\<close>)
  then show ?thesis by (rule wp_mono) (case_tac a, auto intro: Fail Done)
qed

lemma wp_typed_get:
  assumes laws: "api_laws E v" "atomic_laws E v" and live: "poolLive v ns (world s)" and typed: "typedData E (poolEntry v ns (world s))"
    and Fail: "\<And>e t. wrote E s t \<Longrightarrow> typedData E (poolEntry v ns (world t)) \<Longrightarrow> Q (Inl e) t"
    and Got: "\<And>cm t. wrote E s t \<Longrightarrow> inSync v ns (world t) cm \<Longrightarrow> typedData E (mget (cm_Data cm)) \<Longrightarrow>
      onlyAt (poolKey ns) (v (world s)) (v (world t)) \<Longrightarrow> Q (Inr cm) t"
  shows "wpre (GetCreateConfigmap E ns c) Q s"
proof -
  have "issues (typedWrite E) (GetCreateConfigmap E ns c)"
    by (rule issues_GetCreateConfigmap) (simp_all add: typedData_def)
  from wp_conj [OF wp_issues [OF this] wp_get_pools [OF laws live]]
  show ?thesis
  proof (rule wp_mono, goal_cases)
    case (1 r t)
    then have t: "poolEntry v ns (world t) = poolEntry v ns (world s)" "moved v ns s t" by (simp_all add: gotPools_def)
    show ?case
    proof (cases r)
      case (Inr cm)
      with 1 have sync: "inSync v ns (world t) cm" by (simp add: gotPools_def)
      then have "mget (cm_Data cm) = poolEntry v ns (world t)" by (auto simp: inSync_def)
      with Inr 1 sync t typed Got show ?thesis by (simp add: moved_def)
    qed (use 1 t typed Fail in simp)
  qed
qed

lemma typedData_mput: "typedData E (mget d) \<Longrightarrow> k \<noteq> PoolsKey \<Longrightarrow> shaped E x \<Longrightarrow> typedData E (mget (mput d k x))"
  by (simp add: typedData_def)

lemma inSync_frame: "inSync v ns w cm \<Longrightarrow> v w' = v w \<Longrightarrow> inSync v ns w' cm"
  by (simp add: inSync_def poolLive_def poolEntry_def poolCm_def)

text \<open>A pass that stays within the types, whatever its result: no panic, typed writes, typed entries.\<close>

definition sound :: "'w env \<Rightarrow> 'w view \<Rightarrow> string \<Rightarrow> 'w st \<Rightarrow> 'a res \<Rightarrow> 'w st \<Rightarrow> bool" where
  "sound E v ns s r t \<longleftrightarrow> wrote E s t \<and> (\<forall>p. r \<noteq> Panic p) \<and> typedData E (poolEntry v ns (world t))"

lemma sound_after: "wrote E s u \<Longrightarrow> sound E v ns u r t \<Longrightarrow> sound E v ns s r t"
  by (auto simp: sound_def intro: wrote_trans)

text \<open>Typed entries, in a cluster where the ConfigMap can be written.\<close>

definition typedAt :: "'w env \<Rightarrow> 'w view \<Rightarrow> string \<Rightarrow> 'w st \<Rightarrow> bool" where
  "typedAt E v ns s \<longleftrightarrow> watchNamespace s = ns \<and> poolLive v ns (world s) \<and> typedData E (poolEntry v ns (world s))"

section \<open>The entry of a cluster\<close>

lemma sound_addFscEntry:
  assumes laws: "api_laws E v" "atomic_laws E v" "codec_laws E valid"
    and ok: "valid (sr_Name (fs_Secret (fsc_Spec c)))" "om_Name (fsc_Meta c) \<noteq> PoolsKey"
    and cm: "inSync v ns (world s) cm" "typedData E (mget (cm_Data cm))" "cm_Data cm \<noteq> NilMap"
  shows "wpre (addFscEntry E c cm) (sound E v ns s) s"
proof (cases "mget (cm_Data cm) (om_Name (fsc_Meta c)) = None")
  case True
  note typed = inSync_typed [OF cm(1,2)]
  show ?thesis
  proof (cases "kMarshal E (newContent c)")
    case (Inl e)
    with True typed show ?thesis by (simp add: addFscEntry_def wp_ret sound_def)
  next
    case (Inr x)
    let ?n = "om_Name (fsc_Meta c)"
    have "okContent valid (newContent c)" using ok by (simp add: okContent_def newContent_def)
    then have x: "shaped E x" by (rule shaped_enc [OF laws(3) _ Inr]) (simp add: newContent_def)
    have m: "mset (cm_Data cm) ?n x = Some (mput (cm_Data cm) ?n x)" using cm(3) by (simp add: mset_eq_Some)
    have d: "typedData E (mget (cm_Data (cm\<lparr>cm_Data := mput (cm_Data cm) ?n x\<rparr>)))"
      using typedData_mput [OF cm(2) _ x] ok by simp
    show ?thesis
      unfolding addFscEntry_def Let_def if_P [OF True] Inr sum.case m option.case wp_bind
      by (rule wp_typed_update [OF laws(1,2) _ _ typed d])
        (use cm(1) in \<open>auto simp: inSync_def keyOf_ConfigMap wp_ret sound_def\<close>)
  qed
next
  case False
  with cm show ?thesis by (auto simp: addFscEntry_def wp_ret sound_def intro: inSync_typed)
qed

lemma sound_ensure:
  assumes laws: "api_laws E v" "atomic_laws E v" "codec_laws E valid"
    and ok: "valid (sr_Name (fs_Secret (fsc_Spec c)))" "om_Name (fsc_Meta c) \<noteq> PoolsKey" and s: "typedAt E v ns s"
  shows "wpre (ensureScPoolConfigMap E c) (sound E v ns s) s"
proof -
  from s have ns: "watchNamespace s = ns" and live: "poolLive v ns (world s)" "typedData E (poolEntry v ns (world s))"
    by (simp_all add: typedAt_def)
  show ?thesis
    unfolding ensureScPoolConfigMap_def wp_bind [of askNamespace] wp_bind [of "GetCreateConfigmap _ _ _"] wp_askNamespace ns
  proof (rule wp_typed_get [OF laws(1,2) live], goal_cases)
    case (1 e t)
    then show ?case by (simp add: wp_ret sound_def)
  next
    case (2 cm t)
    define cm' where "cm' = (if cm_Data cm = NilMap then cm\<lparr>cm_Data := MkMap []\<rparr> else cm)"
    have g: "mget (cm_Data cm') = mget (cm_Data cm)" "keyOf (OConfigMap cm') = keyOf (OConfigMap cm)" "cm_Data cm' \<noteq> NilMap"
      by (auto simp: cm'_def keyOf_def fun_eq_iff)
    have sync: "inSync v ns (world t) cm'" using 2(2) g by (simp add: inSync_def)
    have cm: "typedData E (mget (cm_Data cm'))" using 2(3) g by simp
    then have none: "mget (cm_Data cm') PoolsKey = None" by (rule typedData_legacy)
    show ?case
      unfolding sum.case Let_def cm'_def [symmetric]
      using none wp_mono [OF sound_addFscEntry [OF laws ok sync cm g(3)] sound_after [OF 2(1)]] by simp
  qed
qed

lemma sound_remove:
  assumes laws: "api_laws E v" "atomic_laws E v" and s: "typedAt E v ns s"
  shows "wpre (removeFscFromConfigMap E n) (\<lambda>r. sound E v ns s (of_sum r)) s"
proof -
  from s have ns: "watchNamespace s = ns" and live: "poolLive v ns (world s)" "typedData E (poolEntry v ns (world s))"
    by (simp_all add: typedAt_def)
  show ?thesis
    unfolding removeFscFromConfigMap_def wp_bind [of askNamespace] wp_bind [of "GetCreateConfigmap _ _ _"] wp_askNamespace ns
  proof (rule wp_typed_get [OF laws live], goal_cases)
    case (1 e t)
    then show ?case by (simp add: wp_ret sound_def)
  next
    case (2 cm t)
    have d: "typedData E (mget (cm_Data (cm\<lparr>cm_Data := mdel (cm_Data cm) n\<rparr>)))"
      using 2(3) by (auto simp: typedData_def split: if_splits)
    show ?case
      unfolding sum.case wp_bind
      by (rule wp_typed_update [OF laws _ _ inSync_typed [OF 2(2,3)] d])
        (use 2 in \<open>auto simp: inSync_def keyOf_ConfigMap wp_ret sound_def intro: wrote_trans\<close>)
  qed
qed

section \<open>The passes of the storage class watcher\<close>

definition soundStep :: "'w env \<Rightarrow> 'w view \<Rightarrow> string \<Rightarrow> 'w st \<Rightarrow> ConfigMap \<Rightarrow> cmdata \<times> unit res \<Rightarrow> 'w st \<Rightarrow> bool" where
  "soundStep E v ns s cm x t \<longleftrightarrow> wrote E s t \<and> (\<forall>p. snd x \<noteq> Panic p) \<and>
     typedData E (poolEntry v ns (world t)) \<and>
     (snd x = Ok () \<longrightarrow> inSync v ns (world t) (cm\<lparr>cm_Data := fst x\<rparr>) \<and> typedData E (mget (fst x)))"

lemma sound_class_update:
  assumes laws: "api_laws E v" "atomic_laws E v" "codec_laws E valid" and cm: "inSync v ns (world s) cm" "typedData E (mget (cm_Data cm))"
    and k: "mget (cm_Data cm) k \<noteq> None" and c: "okContent valid c" "kMarshal E c = Inr x" "ScPoolMap c \<noteq> NilMap"
  shows "wpre (do { r \<leftarrow> updateAs E asConfigMap (OConfigMap (cm\<lparr>cm_Data := mput (cm_Data cm) k x\<rparr>));
     (case r of Inl e \<Rightarrow> ret (mput (cm_Data cm) k x, Err e) | Inr _ \<Rightarrow> ret (mput (cm_Data cm) k x, Ok ())) })
     (soundStep E v ns s cm) s"
proof -
  from k cm(2) have "k \<noteq> PoolsKey" by (auto dest: typedData_legacy)
  with typedData_mput [OF cm(2) _ shaped_enc [OF laws(3) c]]
  have d: "typedData E (mget (cm_Data (cm\<lparr>cm_Data := mput (cm_Data cm) k x\<rparr>)))" by simp
  show ?thesis
    unfolding wp_bind
    by (rule wp_typed_update [OF laws(1,2) _ _ inSync_typed [OF cm] d])
      (use cm(1) d in \<open>auto simp: inSync_def keyOf_ConfigMap wp_ret soundStep_def\<close>)
qed

lemma sound_removeClass:
  assumes laws: "api_laws E v" "atomic_laws E v" "codec_laws E valid" and cm: "inSync v ns (world s) cm" "typedData E (mget (cm_Data cm))"
  shows "wpre (removeStorageClassFromConfigMap E cm k n) (soundStep E v ns s cm) s"
proof (cases "\<exists>y d x. mget (cm_Data cm) k = Some y \<and> kUnmarshal E y = Inr d \<and>
    kMarshal E (d\<lparr>ScPoolMap := mdel (ScPoolMap d) n\<rparr>) = Inr x")
  case True
  then obtain y d x where y: "mget (cm_Data cm) k = Some y" "kUnmarshal E y = Inr d"
    "kMarshal E (d\<lparr>ScPoolMap := mdel (ScPoolMap d) n\<rparr>) = Inr x" by blast
  with cm(2) have "shaped E y" by (simp add: typedData_def)
  with shaped_dec [OF laws(3) y(2)] have "okContent valid (d\<lparr>ScPoolMap := mdel (ScPoolMap d) n\<rparr>)" "mdel (ScPoolMap d) n \<noteq> NilMap"
    by (auto simp: okContent_def split: if_splits)
  with sound_class_update [OF laws cm, of k "d\<lparr>ScPoolMap := mdel (ScPoolMap d) n\<rparr>" x] y show ?thesis
    by (simp add: removeStorageClassFromConfigMap_def Let_def)
next
  case False
  with cm inSync_typed [OF cm] show ?thesis
    by (auto simp: removeStorageClassFromConfigMap_def wp_ret soundStep_def inSync_def split: option.splits sum.splits)
qed

lemma sound_addClass:
  assumes laws: "api_laws E v" "atomic_laws E v" "codec_laws E valid" and cm: "inSync v ns (world s) cm" "typedData E (mget (cm_Data cm))"
    and ok: "valid n" "valid p"
  shows "wpre (addStorageClassToConfigMap E cm k n p) (soundStep E v ns s cm) s"
proof (cases "\<exists>y d. mget (cm_Data cm) k = Some y \<and> kUnmarshal E y = Inr d")
  case True
  then obtain y d where y: "mget (cm_Data cm) k = Some y" "kUnmarshal E y = Inr d" by blast
  with cm(2) have "shaped E y" by (simp add: typedData_def)
  with shaped_dec [OF laws(3) y(2)] have d: "okContent valid d" "ScPoolMap d \<noteq> NilMap" by simp_all
  then have m: "mset (ScPoolMap d) n p = Some (mput (ScPoolMap d) n p)" by (simp add: mset_eq_Some)
  have ok': "okContent valid (d\<lparr>ScPoolMap := mput (ScPoolMap d) n p\<rparr>)"
    using d ok by (auto simp: okContent_def split: if_splits)
  show ?thesis
  proof (cases "kMarshal E (d\<lparr>ScPoolMap := mput (ScPoolMap d) n p\<rparr>)")
    case (Inl e)
    with y m inSync_typed [OF cm] show ?thesis by (simp add: addStorageClassToConfigMap_def wp_ret soundStep_def)
  next
    case (Inr x)
    with sound_class_update [OF laws cm _ ok' Inr, of k] y m show ?thesis
      by (simp add: addStorageClassToConfigMap_def Let_def)
  qed
next
  case False
  with inSync_typed [OF cm] show ?thesis
    by (auto simp: addStorageClassToConfigMap_def wp_ret soundStep_def missingEntryErr_def split: option.splits sum.splits)
qed

lemma sound_entries:
  assumes laws: "api_laws E v" "atomic_laws E v" "codec_laws E valid" and ok: "valid n" "\<And>k p. mget pools k = Some p \<Longrightarrow> valid p"
  shows "inSync v ns (world s) cm \<Longrightarrow> typedData E (mget (cm_Data cm)) \<Longrightarrow>
    wpre (updateEntries E n gone pools cm ks) (sound E v ns s) s"
proof (induction ks arbitrary: cm s)
  case Nil
  then show ?case by (auto simp: wp_ret sound_def intro: inSync_typed)
next
  case (Cons k ks)
  have rest: "wpre (case snd x of
        Ok _ \<Rightarrow> updateEntries E n gone pools (cm\<lparr>cm_Data := fst x\<rparr>) ks
      | Err e \<Rightarrow> ret (Err e) | Panic p \<Rightarrow> ret (Panic p)) (sound E v ns s) u" if "soundStep E v ns s cm x u" for x u
    using that Cons.IH [of u "cm\<lparr>cm_Data := fst x\<rparr>"]
    by (cases "snd x") (auto simp: wp_ret soundStep_def sound_def [of _ _ _ _ "Err _"] elim!: wp_mono intro: sound_after)
  note steps = wp_mono [OF sound_removeClass [OF laws Cons.prems] rest] wp_mono [OF sound_addClass [OF laws Cons.prems ok(1)] rest]
  have stop: "sound E v ns s (Ok ()) s"
    using Cons.prems by (auto simp: sound_def intro: inSync_typed)
  show ?case
    by (auto simp: wp_bind wp_ret stop intro!: steps dest: ok(2) split: option.split)
qed

subsection \<open>The pools of a storage class\<close>

lemma topologyPools_typed:
  assumes P: "\<And>i j. mget P i = Some j \<Longrightarrow> \<exists>ms. j = JObj ms \<and> (\<forall>p. jget ms CsiIBMBlockScPool = Some (JStr p) \<longrightarrow> valid p)"
    and sc: "valid (mgets (sc_Parameters sc) CsiIBMBlockScPool)"
  shows "(\<And>k p. mget m k = Some p \<Longrightarrow> valid p) \<Longrightarrow>
    (case topologyPools sc P cl ids m of Ok m' \<Rightarrow> \<forall>k p. mget m' k = Some p \<longrightarrow> valid p | Err e \<Rightarrow> True | Panic p \<Rightarrow> False)"
proof (induction ids arbitrary: m)
  case (Cons i ids)
  show ?case
  proof (cases "mget cl i")
    case None
    with Cons show ?thesis by simp
  next
    case (Some c)
    have "extractPoolName sc P i = Err missingIdErr \<or> (\<exists>p. extractPoolName sc P i = Ok p \<and> valid p)"
      using P [of i] sc by (cases "mget P i") (auto simp: extractPoolName_def split: option.split json.split)
    then show ?thesis
    proof (elim disjE exE conjE)
      fix p assume p: "extractPoolName sc P i = Ok p" "valid p"
      have "case topologyPools sc P cl ids (mput m (om_Name (fsc_Meta c)) p) of
          Ok m' \<Rightarrow> \<forall>k p. mget m' k = Some p \<longrightarrow> valid p | Err e \<Rightarrow> True | Panic p \<Rightarrow> False"
        by (rule Cons.IH) (use Cons.prems p in \<open>auto split: if_splits\<close>)
      with p Some show ?thesis by simp
    qed (simp add: Some)
  qed
qed simp

lemma wp_regular_typed:
  assumes "valid (mgets (sc_Parameters sc) CsiIBMBlockScPool)"
  shows "wpre (regularLoop E sc addr cs) (\<lambda>r t. \<forall>m k p. r = Inr m \<longrightarrow> mget m k = Some p \<longrightarrow> valid p) s"
proof (induction cs arbitrary: s)
  case (Cons c cs)
  have "wpre (if b then ret (Inr (mput (MkMap []) n (mgets (sc_Parameters sc) CsiIBMBlockScPool))) else regularLoop E sc addr cs)
      (\<lambda>r t. \<forall>m k p. r = Inr m \<longrightarrow> mget m k = Some p \<longrightarrow> valid p) t" for b n t
    using Cons.IH assms by (cases b) (auto simp: wp_ret split: if_splits)
  then show ?case
    unfolding regularLoop.simps wp_bind
    by - (rule wp_sum_any, simp_all only: sum.case wp_ret, simp)
qed (simp add: wp_ret)

definition safePools :: "(string \<Rightarrow> bool) \<Rightarrow> (string, string) gomap res \<Rightarrow> bool" where
  "safePools valid r \<longleftrightarrow> (case r of Ok m \<Rightarrow> \<forall>k p. mget m k = Some p \<longrightarrow> valid p | Err e \<Rightarrow> True | Panic p \<Rightarrow> False)"

lemma safePools_simps [simp]: "safePools valid (Err e)" "safePools valid (Ok m) \<longleftrightarrow> (\<forall>k p. mget m k = Some p \<longrightarrow> valid p)"
  by (simp_all add: safePools_def)

lemma wp_topology_typed:
  assumes sc: "typedClass E valid os sc" "isTopologyClass sc"
    and D: "\<And>D. kUnmarshalAny E (mgets (sec_Data x) TopologySecretDataKey) = Inr D \<Longrightarrow> topologySecret E os sc D"
  shows "wpre (getFscByTopologyStorageClass E sc x) (\<lambda>r t. safePools valid r) s"
proof -
  have pools: "safePools valid (topologyPools sc P cl ids (MkMap []))"
    if "kUnmarshalAny E (mgets (sc_Parameters sc) TopologyStorageClassByMgmtId) = Inr P" for P cl ids
    using topologyPools_typed [of P valid sc "MkMap []" cl ids] sc that
    unfolding typedClass_def safePools_def by (auto split: res.splits)
  have ids: "\<exists>m. clustersByIdLoop D byAddr ids (MkMap []) = Ok m"
    if "kUnmarshalAny E (mgets (sec_Data x) TopologySecretDataKey) = Inr D" for D byAddr ids
    using sc D [OF that] unfolding typedClass_def by (intro clustersByIdLoop_typed) blast
  have any: "wpre (case kUnmarshalAny E (mgets (sc_Parameters sc) TopologyStorageClassByMgmtId) of
      Inl e \<Rightarrow> ret (Err e) | Inr mgmtData \<Rightarrow> ret (topologyPools sc mgmtData cl (mkeys cl) (MkMap [])))
      (\<lambda>r t. safePools valid r) t" for cl t
    using pools by (auto simp: wp_ret split: sum.split)
  show ?thesis
  proof (cases "kUnmarshalAny E (mgets (sec_Data x) TopologySecretDataKey)")
    case (Inl e)
    then show ?thesis by (simp add: getFscByTopologyStorageClass_def mapClustersByMgmtId_def wp_bind wp_ret)
  next
    case (Inr D)
    have "wpre (mapClustersByMgmtId E x) (\<lambda>r t. \<forall>p. r \<noteq> Panic p) s"
      unfolding mapClustersByMgmtId_def Inr sum.case wp_bind
      by (rule wp_sum_any) (use ids [OF Inr] in \<open>auto simp: wp_ret\<close>, metis res.distinct(3))
    then show ?thesis
      unfolding getFscByTopologyStorageClass_def wp_bind
      by (rule wp_mono) (case_tac a, simp_all add: any, simp_all add: wp_ret)
  qed
qed

lemma issues_clusters: "issues (typedWrite E) (getFlashSystemClusterByStorageClass E sc isTop)"
  unfolding getFlashSystemClusterByStorageClass_def getFscByTopologyStorageClass_def getFscByRegularStorageClass_def mapClustersByMgmtId_def
  by (intro issues_intro issues_regularLoop) simp_all

lemma wp_clusters_typed:
  assumes laws: "api_laws E v" and sc: "typedClass E valid (v (world s)) sc"
  shows "wpre (getFlashSystemClusterByStorageClass E sc (isTopologyClass sc)) (\<lambda>r t. safePools valid r) s"
proof (cases "GetStorageClassSecretNamespacedName sc")
  case (Inl e)
  then show ?thesis by (simp add: getFlashSystemClusterByStorageClass_def GetStorageClassSecret_def wp_bind wp_ret)
next
  case (Inr q)
  obtain n ns where q: "q = (n, ns)" by fastforce
  have valid: "valid (mgets (sc_Parameters sc) CsiIBMBlockScPool)" using sc by (simp add: typedClass_def)
  have reg: "wpre (getFscByRegularStorageClass E sc x) (\<lambda>r t. safePools valid (of_sum r)) t" for x t
    unfolding getFscByRegularStorageClass_def wp_bind
    by (rule wp_sum_any) (simp add: wp_ret, simp, rule wp_mono [OF wp_regular_typed [where valid = valid, OF valid]], case_tac a, simp_all)
  show ?thesis
    unfolding getFlashSystemClusterByStorageClass_def GetStorageClassSecret_def Inr q sum.case prod.case wp_bind
  proof (rule wp_getAs_laws [OF laws], goal_cases)
    case (2 x y w)
    then have y: "v (world s) (KSecret, ns, n) = Some (OSecret y)" by (cases x) auto
    show ?case
    proof (cases "isTopologyClass sc")
      case True
      with y Inr q wp_topology_typed [OF sc True] show ?thesis by (simp add: topologySecret_def)
    next
      case False
      show ?thesis using False by (simp add: wp_bind) (rule wp_mono [OF reg], simp add: wp_ret)
    qed
  qed (simp add: wp_ret)
qed

lemma typedClass_frame: "onlyAt (poolKey ns) a b \<Longrightarrow> typedClass E valid a sc \<Longrightarrow> typedClass E valid b sc"
  by (simp add: typedClass_def topologySecret_def onlyAt_def poolKey_def)

subsection \<open>The pass\<close>

lemma sound_class:
  assumes laws: "api_laws E v" "atomic_laws E v" "codec_laws E valid" and ok: "valid (snd rq)" "typedClass E valid (v (world s)) sc"
    and cm: "inSync v ns (world s) cm" "typedData E (mget (cm_Data cm))"
  shows "wpre (ensureConfigMapUpdated E rq sc cm) (sound E v ns s) s"
proof -
  let ?m = "getFlashSystemClusterByStorageClass E sc (isTopologyClass sc)"
  have "wpre ?m (\<lambda>r t. safePools valid r \<and> wrote E s t \<and> v (world t) = v (world s)) s"
    by (intro wp_conj wp_clusters_typed [OF laws(1) ok(2)] wp_issues issues_clusters
        wp_keeps [OF keeps_getFlashSystemClusterByStorageClass [OF laws(1)]])
  then show ?thesis
    unfolding ensureConfigMapUpdated_def Let_def isTopologyClass_def [symmetric] wp_bind
  proof (rule wp_mono, goal_cases)
    case (1 r t)
    then have sync: "inSync v ns (world t) cm" using cm(1) by (auto intro: inSync_frame)
    from 1 inSync_typed [OF sync cm(2)] show ?case
      by (cases r)
        (auto simp: wp_ret sound_def safePools_def [of _ "Panic _"]
          intro!: wp_mono [OF sound_entries [OF laws ok(1) _ sync cm(2)]] intro: sound_after)
  qed
qed

lemma wp_finish:
  assumes "wpre m (sound E v ns u) u" and "wrote E s u"
  shows "wpre m (\<lambda>a. wpre (ret (doneResult a)) (\<lambda>a. wpre (ret (deferConflict a)) (sound E v ns s))) u"
proof (rule wp_mono [OF assms(1)], goal_cases)
  case (1 a t)
  with assms(2) have "wrote E s t" by (auto simp: sound_def intro: wrote_trans)
  with 1 show ?case
    by (cases a) (auto simp: wp_ret sound_def doneResult_def deferConflict_def)
qed

lemma sound_ScReconcile:
  assumes laws: "api_laws E v" "atomic_laws E v" "codec_laws E valid" and ok: "typedOp E valid (v (world s)) (ScPass rq)"
    and s: "typedAt E v ns s"
  shows "wpre (ScReconcile E ns rq) (sound E v ns s) s"
proof -
  from s have live: "poolLive v ns (world s)" "typedData E (poolEntry v ns (world s))" by (simp_all add: typedAt_def)
  have err: "sound E v ns s (deferConflict (Err e) :: Result res) t" if "wrote E s t" "typedData E (poolEntry v ns (world t))" for e t
    using that by (simp add: sound_def deferConflict_def)
  show ?thesis
    unfolding ScReconcile_def reconcileBody_def wp_bind
  proof (rule wp_typed_get [OF laws(1,2) live], goal_cases)
    case (1 e t)
    then show ?case unfolding sum.case wp_ret by (rule err)
  next
    case (2 cm t)
    note cm = 2(3)
    have get: "wrote E s (afterCall (RGet KStorageClass (fst rq) (snd rq)) r w t)" for r w
      using 2(1) by (auto simp: wrote_def)
    show ?case
      unfolding sum.case wp_bind
    proof (rule wp_getAs_laws [OF laws(1)], goal_cases)
      case (1 e r w)
      let ?u = "afterCall (RGet KStorageClass (fst rq) (snd rq)) r w t"
      have sync: "inSync v ns (world ?u) cm" using 2(2) 1(1) by (auto intro: inSync_frame)
      have "wpre (removeFromAll E (snd rq) cm ks) (sound E v ns ?u) ?u" for ks
        unfolding removeFromAll_updateEntries [of _ _ _ _ NilMap]
        by (rule sound_entries [OF laws _ _ sync cm]) (use ok in auto)
      from wp_finish [OF this get] show ?case
        by (cases "IsNotFound e") (simp only: if_P sum.case wp_bind, simp add: wp_ret err get inSync_typed [OF sync cm, simplified])
    next
      case (2 x sc w)
      note sc = 2
      let ?u = "afterCall (RGet KStorageClass (fst rq) (snd rq)) (ROk x) w t"
      have sync: "inSync v ns (world ?u) cm" using \<open>inSync v ns (world t) cm\<close> sc(1) by (auto intro: inSync_frame)
      have "v (world s) (KStorageClass, fst rq, snd rq) = Some (OStorageClass sc)"
        using sc \<open>onlyAt _ _ _\<close> by (cases x; cases rq) (auto simp: onlyAt_def poolKey_def)
      with ok have "typedClass E valid (v (world s)) sc" by simp
      then have "typedClass E valid (v (world ?u)) sc"
        using typedClass_frame [OF \<open>onlyAt _ _ _\<close>] sc(1) by simp
      from sound_class [OF laws _ this sync cm] ok have "wpre (ensureConfigMapUpdated E rq sc cm) (sound E v ns ?u) ?u" by simp
      from wp_finish [OF this get] show ?case unfolding sum.case wp_bind .
    qed
  qed
qed

section \<open>The passes over a cluster\<close>

lemma stable_typedAt: "stable v (\<lambda>t. wrote E s t \<and> typedAt E v ns t)" "stable v (sound E v ns s r)"
proof -
  have w: "wrote E s t" if "undisturbed v u t" "wrote E s u" for u t
  proof (rule wrote_trans [OF that(2)])
    from that(1) obtain xs where xs: "calls t = calls u @ xs" "list_all (writesTo (- {KConfigMap}) \<circ> fst) xs"
      unfolding undisturbed_def by blast
    from xs(2) have "list_all (typedWrite E \<circ> fst) xs" by (auto simp: list_all_iff intro: typedWrite_others)
    with xs(1) show "wrote E u t" unfolding wrote_def by blast
  qed
  show "stable v (\<lambda>t. wrote E s t \<and> typedAt E v ns t)" "stable v (sound E v ns s r)"
    using w by (auto simp: stable_def typedAt_def sound_def undisturbed_pools)
qed

lemma sound_Reconcile:
  assumes laws: "api_laws E v" "atomic_laws E v" "codec_laws E valid" and ok: "typedOp E valid (v (world s)) (FscPass rq)"
    and tmpl: "templateOk E" and s: "typedAt E v ns s"
  shows "wpre (Reconcile E rq) (sound E v ns s) s"
proof -
  let ?I = "\<lambda>t. wrote E s t \<and> typedAt E v ns t"
  have "wpre (Reconcile E rq) (stepped E ?I (sound E v ns s)) s"
  proof (rule wp_Reconcile_frame [OF laws(1) stable_typedAt(1) _ stable_typedAt(2)], goal_cases)
    case (2 c i t)
    then have "valid (sr_Name (fs_Secret (fsc_Spec i)))" "om_Name (fsc_Meta i) \<noteq> PoolsKey" using ok by auto
    from sound_ensure [OF laws this, of ns t] 2(4) show ?case by (auto elim!: wp_mono intro: sound_after)
  next
    case (3 t)
    then have "wpre (removeFscFromConfigMap E (snd rq)) (\<lambda>r. sound E v ns t (of_sum r)) t" using sound_remove [OF laws(1,2)] by blast
    then show ?case by (rule wp_mono) (use 3(2) in \<open>auto intro: sound_after\<close>)
  qed (use s in simp)
  then show ?thesis
    by (rule wp_mono) (use tmpl in \<open>auto simp: stepped_def sound_def typedAt_def\<close>)
qed

section \<open>The passes over a volume\<close>

lemma calm_topologyAddress:
  assumes "pv_CSI pv \<noteq> None"
    and "\<And>D i j. Unmarshal_any (mgets (sec_Data x) TopologySecretDataKey) = Inr D \<Longrightarrow> mget D i = Some j \<Longrightarrow> \<exists>a. mgmtAddressOf j = Ok a"
  shows "topologyAddress pv x \<noteq> Panic p"
proof -
  have "mgmtAddressOf j \<noteq> Panic p" if "Unmarshal_any (mgets (sec_Data x) TopologySecretDataKey) = Inr D" "mget D i = Some j" for D i j
    using assms(2) [OF that] by auto
  with assms(1) show ?thesis by (auto simp: topologyAddress_def Let_def split: sum.splits option.splits)
qed

lemma calm_volume:
  assumes laws: "api_laws E v" and pv: "typedVolume (v (world s)) pv"
  shows "wpre (getPVManagementAddress E pv) (\<lambda>r t. \<forall>p. r \<noteq> Panic p) s"
proof -
  from pv obtain ref where ref: "pv_ClaimRef pv = Some ref" and csi: "pv_CSI pv \<noteq> None" unfolding typedVolume_def by blast
  show ?thesis
    unfolding getPVManagementAddress_def ref option.case wp_bind [of "getAs _ _ _ _ _"]
  proof (rule wp_getAs_laws [OF laws], goal_cases)
    case (2 x pvc w)
    then have "v (world s) (KPvc, ref_Namespace ref, ref_Name ref) = Some (OPvc pvc)" by (cases x) auto
    with pv ref obtain n where n: "pvc_StorageClassName pvc = Some n"
      and topo: "\<And>sc sn sns x D i j. v (world s) (KStorageClass, [], n) = Some (OStorageClass sc) \<Longrightarrow> isTopologyClass sc \<Longrightarrow>
         GetStorageClassSecretNamespacedName sc = Inr (sn, sns) \<Longrightarrow> v (world s) (KSecret, sns, sn) = Some (OSecret x) \<Longrightarrow>
         Unmarshal_any (mgets (sec_Data x) TopologySecretDataKey) = Inr D \<Longrightarrow> mget D i = Some j \<Longrightarrow> \<exists>a. mgmtAddressOf j = Ok a"
      unfolding typedVolume_def by (metis option.inject)
    have w: "v w = v (world s)" by (rule 2(1))
    show ?case
      unfolding sum.case n option.case wp_bind [of "getAs _ _ _ _ _"]
    proof (rule wp_getAs_laws [OF laws], goal_cases)
      case (2 y sc w')
      then have sc: "v (world s) (KStorageClass, [], n) = Some (OStorageClass sc)" using w by (cases y) auto
      have w': "v w' = v (world s)" using 2(1) w by (simp del: split_paired_All)
      show ?case
      proof (cases "GetStorageClassSecretNamespacedName sc")
        case (Inr q)
        obtain sn sns where q: "q = (sn, sns)" by fastforce
        show ?thesis
          unfolding sum.case GetStorageClassSecret_def Inr q prod.case wp_bind
        proof (rule wp_getAs_laws [OF laws], goal_cases)
          case (2 z x w'')
          then have "v (world s) (KSecret, sns, sn) = Some (OSecret x)" using w' by (cases z) auto
          note t = topo [OF sc _ Inr [unfolded q] this]
          have "topologyAddress pv x \<noteq> Panic p" if "isTopologyClass sc" for p
            by (rule calm_topologyAddress [OF csi]) (rule t [OF that])
          then show ?case by (auto simp: wp_ret isTopologyClass_def)
        qed (simp add: wp_ret)
      qed (simp add: GetStorageClassSecret_def wp_bind wp_ret)
    qed (simp add: wp_ret)
  qed (simp add: wp_ret)
qed

lemma sound_PvReconcile:
  assumes laws: "api_laws E v" and ok: "typedOp E valid (v (world s)) (PvPass rq)" and s: "typedAt E v ns s"
  shows "wpre (PvReconcile E rq) (sound E v ns s) s"
proof -
  have label: "wpre (ensureStorageSystemLabel E pv) (\<lambda>r t. \<forall>p. r \<noteq> Panic p) t" if "typedVolume (v (world t)) pv" for pv and t :: "'a st"
    unfolding ensureStorageSystemLabel_def wp_bind [of "getPVManagementAddress _ _"]
  proof (rule wp_mono [OF calm_volume [OF laws that]], goal_cases)
    case (1 r u)
    then show ?case
      by (cases r) (auto simp: wp wp_ret intro!: wp_sum_any split: option.split)
  qed
  have "wpre (PvReconcile E rq) (\<lambda>r t. \<forall>p. r \<noteq> Panic p) s"
    unfolding PvReconcile_def pvBody_def wp_bind
  proof (rule wp_getAs_laws [OF laws], goal_cases)
    case (2 x pv w)
    then have "v (world s) (KPv, rq) = Some (OPv pv)" by (cases x; cases rq) auto
    with ok have "typedVolume (v (world s)) pv" by simp
    then have "typedVolume (v (world (afterCall (RGet KPv (fst rq) (snd rq)) (ROk x) w s))) pv" using 2(1) by simp
    from label [OF this] show ?case
      unfolding sum.case wp_bind
      by (rule wp_mono) (case_tac a, auto simp: wp_ret deferConflict_def)
  qed (simp add: wp_ret deferConflict_def)
  moreover have "wpre (PvReconcile E rq) (\<lambda>r t. wrote E s t \<and> typedAt E v ns t) s"
    by (rule wp_stable [OF stable_typedAt(1) aside_PvReconcile [OF laws]]) (use s in simp_all)
  ultimately show ?thesis
    by (rule wp_mono [OF wp_conj]) (auto simp: sound_def typedAt_def)
qed

text \<open>
  C5: The data of the controllers is typed, and no pass panics. On entries that have the shape the operator writes,
  without the legacy key, JSON parameters of the expected shape, volumes made by the driver and a rules template whose
  rules have labels: no whole pass of a controller panics, whatever the server answers; every ConfigMap a
  pass sends has entries of that shape only, and the entries have that shape after it, also when it fails.
\<close>

theorem passes_type_safe:
  assumes "api_laws E v" "atomic_laws E v" "codec_laws E valid" "templateOk E"
    and "watchNamespace s = ns" "poolLive v ns (world s)" "typedData E (poolEntry v ns (world s))"
    and "typedOp E valid (v (world s)) p"
    and "run_state (passResult E ns p) s = (r, t)"
  shows "(\<forall>m. r \<noteq> Panic m) \<and> typedData E (poolEntry v ns (world t)) \<and>
    (\<exists>xs. calls t = calls s @ xs \<and> list_all (typedWrite E \<circ> fst) xs)"
proof -
  have s: "typedAt E v ns s" using assms(5-7) by (simp add: typedAt_def)
  have "wpre (passResult E ns p) (sound E v ns s) s"
    using assms(8) sound_Reconcile [OF assms(1-3) _ assms(4) s] sound_ScReconcile [OF assms(1-3) _ s] sound_PvReconcile [OF assms(1) _ s]
    by (cases p) (simp_all del: typedOp.simps)
  from wp_runD [OF this assms(9)] show ?thesis unfolding sound_def wrote_def by blast
qed

theorem passes_type_safe_witness:
  "\<exists>t xs. run_state (passResult storeEnv ''ns'' (FscPass (''ns'', ''fs1''))) demoStart = (Ok emptyResult, t) \<and>
     typedData storeEnv (poolEntry storeView ''ns'' (world t)) \<and>
     calls t = calls demoStart @ xs \<and> list_all (typedWrite storeEnv \<circ> fst) xs"
proof -
  obtain t where t: "run_state (Reconcile storeEnv (''ns'', ''fs1'')) demoStart = (Ok emptyResult, t)"
    using demo_Reconcile by (cases "run_state (Reconcile storeEnv (''ns'', ''fs1'')) demoStart") simp
  then have run: "run_state (passResult storeEnv ''ns'' (FscPass (''ns'', ''fs1''))) demoStart = (Ok emptyResult, t)" by simp
  have c: "storeView (world demoStart) (KFsc, ''ns'', ''fs1'') = Some (OFsc demoFsc)"
    "validUtf8 (sr_Name (fs_Secret (fsc_Spec demoFsc)))" "poolLive storeView ''ns'' (world demoStart)" "watchNamespace demoStart = ''ns''"
    "storeView (world demoStart) (poolKey ''ns'') = None"
    by code_simp+
  have "typedOp storeEnv validUtf8 (storeView (world demoStart)) (FscPass (''ns'', ''fs1''))"
    using c(1,2) by (simp add: aliveFsc_def PoolsKey_def)
  moreover have "typedData storeEnv (poolEntry storeView ''ns'' (world demoStart))"
    using c(5) by (simp add: typedData_def poolEntry_def poolCm_def)
  moreover have "templateOk storeEnv" by (simp add: templateOk_def storeEnv_def)
  ultimately show ?thesis
    using passes_type_safe [OF storeEnv_laws storeEnv_atomic storeEnv_codec _ c(4,3) _ _ run] run by blast
qed

end
