(* ===== verification/EdgeSpec.thy ===== *)
theory EdgeSpec
  imports ScController
begin

text \<open>
  Edges of the watchers: the filter on secrets of \<^verbatim>\<open>controllers/util/poolutil.go\<close>, \<^verbatim>\<open>SecretMgmtAddrPredicate\<close>, that is
  which updates of a secret wake the controllers of storage classes and volumes; and when the storage class
  controller panics.
\<close>

text \<open>The address of a management id in a topology secret, when the secret parses.\<close>

definition topologyOf :: "Secret \<Rightarrow> (string, (string, string) gomap) gomap option" where
  "topologyOf s = (case Unmarshal_strmaps (mgets (sec_Data s) TopologySecretDataKey) of Inl e \<Rightarrow> None | Inr m \<Rightarrow> Some m)"

lemma isTopologySecretUpdated_iff:
  "isTopologySecretUpdated a b \<longleftrightarrow>
     (\<exists>m n id. topologyOf a = Some m \<and> topologyOf b = Some n \<and> mget m id \<noteq> None \<and>
        (mget n id = None \<or> addrIn m id \<noteq> addrIn n id))"
  by (auto simp: isTopologySecretUpdated_def topologyOf_def list_ex_iff set_mkeys split: sum.splits)

text \<open>
  Which updates of a secret pass the filter. An update to something that is not a secret panics, whatever the old
  object is. An update of a topology secret passes exactly when both versions parse and some management id of the
  old version has disappeared or changed its address; so an id that only the new version has does
  not pass. An update of another secret passes exactly when both versions have a management address
  and the two differ.
\<close>

theorem SecretMgmtAddrPredicate_update:
  "SecretMgmtAddrPredicate (UpdateEvent old new) =
     (case (asSecret old, asSecret new) of
        (_, None) \<Rightarrow> Panic ''interface conversion''
      | (None, Some b) \<Rightarrow> Ok False
      | (Some a, Some b) \<Rightarrow> Ok
          (if mget (sec_Data a) TopologySecretDataKey \<noteq> None then
             \<exists>m n id. topologyOf a = Some m \<and> topologyOf b = Some n \<and> mget m id \<noteq> None \<and>
               (mget n id = None \<or> addrIn m id \<noteq> addrIn n id)
           else
             \<exists>x y. mget (sec_Data a) SecretManagementAddressKey = Some x \<and>
               mget (sec_Data b) SecretManagementAddressKey = Some y \<and> x \<noteq> y))"
  by (auto simp: isTopologySecretUpdated_iff split: option.splits)

text \<open>A topology secret with one system, and the same secret after a second system has been added.\<close>

definition oneSystem :: Secret where
  \<open>oneSystem = \<lparr>sec_Meta = mkMeta ''topo'' ''ns'', sec_Data = MkMap [(''config'', ''{"id1":{"management_address":"10.0.0.1"}}'')]\<rparr>\<close>

definition twoSystems :: Secret where
  \<open>twoSystems = \<lparr>sec_Meta = mkMeta ''topo'' ''ns'',
     sec_Data = MkMap [(''config'', ''{"id1":{"management_address":"10.0.0.1"},"id2":{"management_address":"10.0.0.2"}}'')]\<rparr>\<close>

theorem SecretMgmtAddrPredicate_update_witness:
  "SecretMgmtAddrPredicate (UpdateEvent (OSecret oneSystem) (OSecret twoSystems)) = Ok False \<and>
   SecretMgmtAddrPredicate (UpdateEvent (OSecret twoSystems) (OSecret oneSystem)) = Ok True \<and>
   (\<exists>m n id. topologyOf twoSystems = Some m \<and> topologyOf oneSystem = Some n \<and> mget m id \<noteq> None \<and>
      (mget n id = None \<or> addrIn m id \<noteq> addrIn n id))"
proof -
  have "SecretMgmtAddrPredicate (UpdateEvent (OSecret oneSystem) (OSecret twoSystems)) = Ok False" by code_simp
  moreover have "SecretMgmtAddrPredicate (UpdateEvent (OSecret twoSystems) (OSecret oneSystem)) = Ok True" by code_simp
  moreover have "mget (sec_Data twoSystems) TopologySecretDataKey \<noteq> None" by code_simp
  ultimately show ?thesis
    using SecretMgmtAddrPredicate_update [of "OSecret twoSystems" "OSecret oneSystem"]
    by (simp only: asSecret.simps prod.case option.case if_True res.inject simp_thms)
qed

text \<open>
  When adding a storage class to an entry panics: exactly when the entry decodes to a content without a map of
  storage classes, whatever the server does. The assignment is not guarded; the entries that the operator
  writes itself always carry a map.
\<close>

theorem addStorageClassToConfigMap_panics:
  "(\<exists>p. snd (fst (run_state (addStorageClassToConfigMap E cm fscName scName pool) s)) = Panic p) \<longleftrightarrow>
     (\<exists>entry c. mget (cm_Data cm) fscName = Some entry \<and> kUnmarshal E entry = Inr c \<and> ScPoolMap c = NilMap)"
proof (cases "\<exists>entry c. mget (cm_Data cm) fscName = Some entry \<and> kUnmarshal E entry = Inr c")
  case True
  then obtain entry c where e: "mget (cm_Data cm) fscName = Some entry" "kUnmarshal E entry = Inr c" by blast
  have upd: "wpre (do { r \<leftarrow> updateAs E asConfigMap x; (case r of Inl e \<Rightarrow> ret (d, Err e) | Inr _ \<Rightarrow> ret (d, Ok ())) })
    (\<lambda>y t. \<forall>p. snd y \<noteq> Panic p) s" for x and d :: cmdata and s
    unfolding wp_bind by (rule wp_sum_any) (simp_all add: wp)
  show ?thesis
  proof (cases "ScPoolMap c")
    case NilMap
    with e show ?thesis by (simp add: addStorageClassToConfigMap_def mset_eq_Some split: option.split)
  next
    case (MkMap xs)
    then obtain m where m: "mset (ScPoolMap c) scName pool = Some m" by (simp add: mset_eq_Some)
    have "wpre (addStorageClassToConfigMap E cm fscName scName pool) (\<lambda>y t. \<forall>p. snd y \<noteq> Panic p) s"
      unfolding addStorageClassToConfigMap_def e option.case sum.case m Let_def
      by (cases "kMarshal E (c\<lparr>ScPoolMap := m\<rparr>)") (simp add: wp, simp only: sum.case upd)
    then have "\<nexists>p. snd (fst (run_state (addStorageClassToConfigMap E cm fscName scName pool) s)) = Panic p"
      by (simp add: wpre_def split: prod.splits)
    with e MkMap show ?thesis by auto
  qed
next
  case False
  then show ?thesis
    by (auto simp: addStorageClassToConfigMap_def split: option.split sum.split)
qed

end
