(* ===== verification/PoolFiles.thy ===== *)
theory PoolFiles
  imports Poolutil Safeio
begin

text \<open>
  Reading the pools ConfigMap from the directory it is mounted at (\<^verbatim>\<open>ReadPoolConfigMapFile\<close> and
  \<^verbatim>\<open>getFileContent\<close> of \<^verbatim>\<open>controllers/util/poolutil.go\<close>), what \<^verbatim>\<open>EnsureUnderBase\<close> guarantees to it, and the
  search for the module root of \<^verbatim>\<open>controllers/util/safeio.go\<close>.
\<close>

section \<open>Definitions\<close>

definition getFileContent :: "'w env \<Rightarrow> string \<Rightarrow> 'w \<Rightarrow> goerr + FlashSystemClusterMapContent" where
  "getFileContent E filePath w =
     (case EnsureUnderBase E FSCConfigmapMountPath filePath w of
        Inl e \<Rightarrow> Inl e
      | Inr safePath \<Rightarrow>
          (case readFile E safePath w of
             Inl e \<Rightarrow> Inl e
           | Inr fileContent \<Rightarrow> Unmarshal_content fileContent))"

text \<open>
  The result is the Go pair of a map and an error, since an error in the middle of the directory comes with
  the files read so far.
\<close>

fun readEntries :: "'w env \<Rightarrow> string \<Rightarrow> (string \<times> bool) list \<Rightarrow> (string, FlashSystemClusterMapContent) gomap \<Rightarrow> 'w
    \<Rightarrow> (string, FlashSystemClusterMapContent) gomap \<times> goerr option" where
  "readEntries E safeBase [] m w = (m, None)"
| "readEntries E safeBase ((name, isDir) # es) m w =
     (if isDir \<or> HasPrefix name ''.'' then readEntries E safeBase es m w
      else (case getFileContent E (Join safeBase name) w of
              Inl e \<Rightarrow> (m, Some e)
            | Inr fsc \<Rightarrow> readEntries E safeBase es (mput m name fsc) w))"

definition ReadPoolConfigMapFile :: "'w env \<Rightarrow> 'w \<Rightarrow> (string, FlashSystemClusterMapContent) gomap \<times> goerr option" where
  "ReadPoolConfigMapFile E w =
     (case EnsureUnderBase E FSCConfigmapMountPath ''.'' w of
        Inl e \<Rightarrow> (NilMap, Some e)
      | Inr safeBase \<Rightarrow>
          (case readDir E safeBase w of
             Inl e \<Rightarrow> (NilMap, Some e)
           | Inr es \<Rightarrow> readEntries E safeBase es (MkMap []) w))"

section \<open>Containment of paths\<close>

lemma intercalate_append:
  "xs \<noteq> [] \<Longrightarrow> ys \<noteq> [] \<Longrightarrow> intercalate c (xs @ ys) = intercalate c xs @ c # intercalate c ys"
proof (induction xs)
  case (Cons x xs)
  then show ?case by (cases "xs = []") (auto simp: intercalate_Cons)
qed simp

lemma last_intercalate: "xs \<noteq> [] \<Longrightarrow> (\<And>x. x \<in> set xs \<Longrightarrow> goodComp x) \<Longrightarrow> intercalate slash xs \<noteq> [] \<and> last (intercalate slash xs) \<noteq> slash"
proof (induction xs)
  case (Cons x xs)
  then show ?case
    by (cases "xs = []") (auto simp: intercalate_Cons goodComp_def dest: last_in_set)
qed simp

lemma HasSuffix_iff: "HasSuffix s p \<longleftrightarrow> suffix p s"
  unfolding HasSuffix_def suffix_def
  by (metis append_eq_conv_conj append_take_drop_id diff_le_self length_append length_drop le_add2 add_diff_cancel_right')

text \<open>The test of the source on strings is the prefix relation on path components.\<close>

lemma prefix_test:
  assumes good: "\<And>x. x \<in> set xs \<Longrightarrow> goodComp x" "\<And>y. y \<in> set ys \<Longrightarrow> goodComp y"
    and b: "b = slash # intercalate slash xs" and r: "r = slash # intercalate slash ys"
  shows "(r = b \<or> HasPrefix r (if HasSuffix b [slash] then b else b @ [slash])) \<longleftrightarrow> prefix xs ys"
proof (cases "xs = []")
  case True
  then show ?thesis by (simp add: b r HasSuffix_iff HasPrefix_iff)
next
  case False
  have sep: "\<And>x. x \<in> set xs \<Longrightarrow> slash \<notin> set x" "\<And>y. y \<in> set ys \<Longrightarrow> slash \<notin> set y"
    using good by (auto simp: goodComp_def)
  have noslash: "\<not> HasSuffix b [slash]"
    using last_intercalate [OF False good(1)] by (auto simp: b HasSuffix_iff suffix_def Cons_eq_append_conv)
  show ?thesis
  proof
    assume "r = b \<or> HasPrefix r (if HasSuffix b [slash] then b else b @ [slash])"
    then consider "intercalate slash ys = intercalate slash xs" | "prefix (intercalate slash xs @ [slash]) (intercalate slash ys)"
      using noslash by (auto simp: b r HasPrefix_iff)
    then show "prefix xs ys"
    proof cases
      case 1
      have "ys \<noteq> []" using 1 last_intercalate [OF False good(1)] by auto
      with 1 sep False show ?thesis by (metis Split_intercalate prefix_order.refl)
    next
      case 2
      then have "ys \<noteq> []" by auto
      from intercalate_append_slash [OF False this sep 2] show ?thesis by auto
    qed
  next
    assume "prefix xs ys"
    then obtain zs where "ys = xs @ zs" by (auto simp: prefix_def)
    with False noslash show "r = b \<or> HasPrefix r (if HasSuffix b [slash] then b else b @ [slash])"
      by (cases "zs = []") (auto simp: b r HasPrefix_iff intercalate_append)
  qed
qed

lemma IsAbs_Clean_iff [simp]: "IsAbs (Clean p) \<longleftrightarrow> IsAbs p"
proof (cases "IsAbs p")
  case False
  have "hd (intercalate slash xs) \<noteq> slash \<and> intercalate slash xs \<noteq> []" if "xs \<noteq> []" "\<forall>x \<in> set xs. goodComp x" for xs
    using that by (cases xs rule: remdups_adj.cases) (auto simp: goodComp_def dest: hd_in_set)
  then have "cleanComps p \<noteq> [] \<Longrightarrow> \<not> IsAbs (intercalate slash (cleanComps p))"
    using cleanComps_good by (fastforce simp: IsAbs_def HasPrefix_iff prefix_def)
  with False show ?thesis by (auto simp: Clean_def IsAbs_def [of "''.''"] HasPrefix_def slash_def)
qed (rule IsAbs_Clean [THEN eqTrueI, THEN trans], auto)

lemma IsAbs_append: "IsAbs d \<Longrightarrow> IsAbs (d @ x)"
  by (auto simp: IsAbs_def HasPrefix_iff prefix_def)

lemma not_IsAbs_Nil [simp]: "\<not> IsAbs []"
  by (simp add: IsAbs_def HasPrefix_def)

text \<open>\<^verbatim>\<open>os.Getwd\<close> returns an absolute path.\<close>

definition absWd :: "goerr + string \<Rightarrow> bool" where
  "absWd wd = (case wd of Inl e \<Rightarrow> True | Inr d \<Rightarrow> IsAbs d)"

lemma Abs_form:
  assumes "Abs wd p = Inr a" and "absWd wd"
  shows "\<exists>q. IsAbs q \<and> a = Clean q"
proof (cases "IsAbs p")
  case True
  with assms(1) show ?thesis by (auto simp: Abs_def)
next
  case False
  with assms obtain d where "IsAbs d" "a = Join d p"
    by (auto simp: Abs_def absWd_def split: sum.splits)
  moreover from this have "d \<noteq> []" by auto
  ultimately show ?thesis
    by (cases "p = []") (auto simp: Join_def intro: IsAbs_append)
qed

lemma Abs_Clean: "IsAbs p \<Longrightarrow> Abs wd (Clean p) = Inr (Clean p)"
  by (simp add: Abs_def Clean_idem)

text \<open>
  The reference: the base and the candidate are made absolute, and the candidate is accepted when the
  components of the base are a prefix of its components.
\<close>

definition candidateOf :: "'w env \<Rightarrow> string \<Rightarrow> string \<Rightarrow> 'w \<Rightarrow> string" where
  "candidateOf E base p w =
     (let c = (if IsAbs p then Clean p else Join base (Clean p))
      in case evalSymlinks E c w of Inl _ \<Rightarrow> c | Inr r \<Rightarrow> r)"

definition underBase :: "'w env \<Rightarrow> string \<Rightarrow> string \<Rightarrow> 'w \<Rightarrow> goerr + string" where
  "underBase E base p w =
     (case Abs (getwd E w) (Clean base) of
        Inl e \<Rightarrow> Inl e
      | Inr b \<Rightarrow>
          (case Abs (getwd E w) (Clean (candidateOf E base p w)) of
             Inl e \<Rightarrow> Inl e
           | Inr r \<Rightarrow> if prefix (comps b) (comps r) then Inr r else Inl underBaseErr))"

lemma EnsureUnderBase_eq:
  assumes "absWd (getwd E w)"
  shows "EnsureUnderBase E base p w = underBase E base p w"
proof -
  have absolute: "(if IsAbs (Clean x) then Inr (Clean x) else Abs (getwd E w) (Clean x)) = Abs (getwd E w) (Clean x)" for x
    by (simp add: Abs_Clean)
  have test: "(r = b \<or> HasPrefix r (if HasSuffix b [slash] then b else b @ [slash])) \<longleftrightarrow> prefix (comps b) (comps r)"
    if "Abs (getwd E w) x = Inr b" "Abs (getwd E w) y = Inr r" for x y b r
  proof -
    note forms = Abs_form [OF that(1) assms] Abs_form [OF that(2) assms]
    obtain b' r' where q: "IsAbs b'" "b = Clean b'" "IsAbs r'" "r = Clean r'"
      using forms by blast
    then have "b = slash # intercalate slash (cleanComps b')" "r = slash # intercalate slash (cleanComps r')"
      by (simp_all add: Clean_def)
    from prefix_test [OF cleanComps_good cleanComps_good this] q show ?thesis
      by (simp only: comps_Clean)
  qed
  have cand: "(case evalSymlinks E (if IsAbs (Clean p) then Clean p else Join base (Clean p)) w of
      Inl _ \<Rightarrow> if IsAbs (Clean p) then Clean p else Join base (Clean p) | Inr r \<Rightarrow> r) = candidateOf E base p w"
    by (simp add: candidateOf_def Let_def)
  have "EnsureUnderBase E base p w =
     (case Abs (getwd E w) (Clean base) of
        Inl e \<Rightarrow> Inl e
      | Inr b \<Rightarrow>
          (case Abs (getwd E w) (Clean (candidateOf E base p w)) of
             Inl e \<Rightarrow> Inl e
           | Inr r \<Rightarrow> if r = b \<or> HasPrefix r (if HasSuffix b [slash] then b else b @ [slash]) then Inr r else Inl underBaseErr))"
    unfolding EnsureUnderBase_def Let_def absolute cand ..
  also have "\<dots> = underBase E base p w"
    unfolding underBase_def
    by (cases "Abs (getwd E w) (Clean base)"; cases "Abs (getwd E w) (Clean (candidateOf E base p w))";
        simp only: test sum.case)
  finally show ?thesis .
qed

text \<open>
  C31: The path check decides containment of directories, not of strings: provided that the working
  directory is an absolute path, it accepts a path exactly when the components of the base directory
  are a prefix of the components of the path, with symbolic links resolved where they can
  be, and returns that path.
\<close>

theorem EnsureUnderBase_components:
  assumes "absWd (getwd E w)"
  shows "EnsureUnderBase E base p w = underBase E base p w"
  by (rule EnsureUnderBase_eq [OF assms])

text \<open>An accepted path is absolute, cleaned, below the base, and does not climb.\<close>

lemma EnsureUnderBase_Inr:
  assumes "absWd (getwd E w)" and "IsAbs base" and "EnsureUnderBase E base p w = Inr r"
  shows "prefix (cleanComps base) (comps r)" "IsAbs r" "''..'' \<notin> set (comps r)"
proof -
  from assms(3) have u: "underBase E base p w = Inr r"
    using EnsureUnderBase_eq [OF assms(1)] by simp
  with assms(2) show "prefix (cleanComps base) (comps r)"
    by (auto simp: underBase_def Abs_Clean comps_Clean split: sum.splits if_splits)
  from u have "Abs (getwd E w) (Clean (candidateOf E base p w)) = Inr r"
    by (auto simp: underBase_def split: sum.splits if_splits)
  from Abs_form [OF this assms(1)] obtain q where "IsAbs q" "r = Clean q" by blast
  then show "IsAbs r" "''..'' \<notin> set (comps r)"
    by (simp_all add: comps_Clean cleanComps_rooted)
qed

section \<open>Reading the mounted ConfigMap\<close>

definition inMount :: "string \<Rightarrow> bool" where
  "inMount q \<longleftrightarrow> IsAbs q \<and> prefix (comps FSCConfigmapMountPath) (comps q) \<and> ''..'' \<notin> set (comps q)"

lemma mount_path: "IsAbs FSCConfigmapMountPath" "cleanComps FSCConfigmapMountPath = comps FSCConfigmapMountPath"
  by code_simp+

lemma EnsureUnderBase_readFile [simp]: "EnsureUnderBase (E\<lparr>readFile := f\<rparr>) base p w = EnsureUnderBase E base p w"
proof -
  have "getwd (E\<lparr>readFile := f\<rparr>) = getwd E" "evalSymlinks (E\<lparr>readFile := f\<rparr>) = evalSymlinks E"
    by simp_all
  then show ?thesis by (simp only: EnsureUnderBase_def)
qed

lemma getFileContent_confined:
  assumes "absWd (getwd E w)" and "\<And>q. inMount q \<Longrightarrow> f q w = readFile E q w"
  shows "getFileContent (E\<lparr>readFile := f\<rparr>) p w = getFileContent E p w"
proof (cases "EnsureUnderBase E FSCConfigmapMountPath p w")
  case (Inr r)
  from EnsureUnderBase_Inr [OF assms(1) mount_path(1) Inr] have "inMount r"
    by (simp add: inMount_def mount_path(2))
  with Inr assms(2) show ?thesis by (simp add: getFileContent_def)
qed (simp add: getFileContent_def)


text \<open>The files of the mount that are read: regular files whose names do not begin with a dot.\<close>

definition poolFile :: "(string \<times> bool) list \<Rightarrow> string \<Rightarrow> bool" where
  "poolFile es n \<longleftrightarrow> (n, False) \<in> set es \<and> \<not> HasPrefix n ''.''"

lemma readEntries_all:
  assumes "\<And>n. poolFile es n \<Longrightarrow> getFileContent E (Join b n) w = Inr (d n)"
  shows "\<exists>m'. readEntries E b es m w = (m', None) \<and> (\<forall>n. mget m' n = (if poolFile es n then Some (d n) else mget m n))"
  using assms
proof (induction es arbitrary: m)
  case Nil
  then show ?case by (simp add: poolFile_def)
next
  case (Cons e es)
  obtain n k where e: "e = (n, k)" by fastforce
  have rest: "poolFile (e # es) x \<longleftrightarrow> x = n \<and> \<not> k \<and> \<not> HasPrefix n ''.'' \<or> poolFile es x" for x
    by (auto simp: poolFile_def e)
  have IH: "\<exists>m'. readEntries E b es m0 w = (m', None) \<and> (\<forall>n. mget m' n = (if poolFile es n then Some (d n) else mget m0 n))" for m0
    using Cons rest by blast
  show ?case
  proof (cases "k \<or> HasPrefix n ''.''")
    case True
    with IH [of m] rest show ?thesis by (auto simp: e)
  next
    case False
    with Cons.prems rest have "getFileContent E (Join b n) w = Inr (d n)" by blast
    with False IH [of "mput m n (d n)"] rest show ?thesis by (auto simp: e)
  qed
qed

text \<open>
  C33: What the operator writes into the pools ConfigMap is what a reader of the mounted files gets: when
  every visible file of the mount holds the encoding of a content, reading succeeds, every such
  file is in the resulting map with the same secret and the same pools, and nothing else is.
\<close>

theorem ReadPoolConfigMapFile_roundtrip:
  assumes "EnsureUnderBase E FSCConfigmapMountPath ''.'' w = Inr b" and "readDir E b w = Inr es"
    and "\<And>n. poolFile es n \<Longrightarrow> EnsureUnderBase E FSCConfigmapMountPath (Join b n) w = Inr (p n)"
    and "\<And>n. poolFile es n \<Longrightarrow> readFile E (p n) w = Inr (Marshal_content (c n))"
    and "\<And>n. poolFile es n \<Longrightarrow> okContent validUtf8 (c n)"
  shows "\<exists>m. ReadPoolConfigMapFile E w = (m, None) \<and>
    (\<forall>n. if poolFile es n then \<exists>c'. mget m n = Some c' \<and> contentEq (c n) c' else mget m n = None)"
proof -
  define d where "d n = (case Unmarshal_content (Marshal_content (c n)) of Inr x \<Rightarrow> x | Inl e \<Rightarrow> c n)" for n
  have d: "Unmarshal_content (Marshal_content (c n)) = Inr (d n) \<and> contentEq (c n) (d n)" if "poolFile es n" for n
    using json.round [OF assms(5) [OF that]] by (fastforce simp: d_def)
  have "getFileContent E (Join b n) w = Inr (d n)" if "poolFile es n" for n
    using d assms(3,4) that by (simp add: getFileContent_def)
  from readEntries_all [OF this, of es "MkMap []"] d show ?thesis
    by (auto simp: ReadPoolConfigMapFile_def assms(1,2))
qed

section \<open>Concrete runs\<close>

text \<open>A mounted ConfigMap: the entries are links into a hidden directory, as the kubelet makes them.\<close>

definition mountEnv :: "store env" where
  "mountEnv = storeEnv\<lparr>
     readDir := (\<lambda>p w. Inr [(''..data'', True), (''.hidden'', False), (''fs1'', False)]),
     evalSymlinks := (\<lambda>p w. Inr (if p = ''/config/fs1'' then ''/config/..data/fs1'' else p)),
     readFile := (\<lambda>p w. if p = ''/config/..data/fs1'' then Inr (Marshal_content demoContent) else Inl errNotExist)\<rparr>"

theorem EnsureUnderBase_components_witness:
  "EnsureUnderBase mountEnv ''/config'' ''a/../../etc/passwd'' (world demoStart) = Inl underBaseErr \<and>
   EnsureUnderBase mountEnv ''/config'' ''/config-2/x'' (world demoStart) = Inl underBaseErr \<and>
   EnsureUnderBase mountEnv ''/config'' ''./fs1'' (world demoStart) = Inr ''/config/..data/fs1''"
proof -
  have "absWd (getwd mountEnv (world demoStart))" by code_simp
  note ref = EnsureUnderBase_components [OF this]
  have "underBase mountEnv ''/config'' ''a/../../etc/passwd'' (world demoStart) = Inl underBaseErr"
    and "underBase mountEnv ''/config'' ''/config-2/x'' (world demoStart) = Inl underBaseErr"
    and "underBase mountEnv ''/config'' ''./fs1'' (world demoStart) = Inr ''/config/..data/fs1''"
    by code_simp+
  then show ?thesis by (simp add: ref)
qed


theorem ReadPoolConfigMapFile_roundtrip_witness:
  "\<exists>m c. ReadPoolConfigMapFile mountEnv (world demoStart) = (m, None) \<and> mget m ''fs1'' = Some c \<and>
     contentEq demoContent c \<and> mget m ''.hidden'' = None"
proof -
  let ?es = "[(''..data'', True), (''.hidden'', False), (''fs1'', False)]"
  have one: "n = ''fs1''" if "poolFile ?es n" for n
    using that by (auto simp: poolFile_def HasPrefix_def)
  have here: "poolFile ?es ''fs1''" "\<not> poolFile ?es ''.hidden''"
    by (simp_all add: poolFile_def HasPrefix_def)
  have base: "EnsureUnderBase mountEnv FSCConfigmapMountPath ''.'' (world demoStart) = Inr ''/config''" by code_simp
  have dir: "readDir mountEnv ''/config'' (world demoStart) = Inr ?es" by (simp add: mountEnv_def)
  have link: "EnsureUnderBase mountEnv FSCConfigmapMountPath (Join ''/config'' n) (world demoStart) = Inr ''/config/..data/fs1''"
    if "poolFile ?es n" for n
    unfolding one [OF that] by code_simp
  have valid: "okContent validUtf8 demoContent"
    by (auto simp: okContent_def demoContent_def validUtf8.simps split: if_splits)
  have read: "readFile mountEnv ''/config/..data/fs1'' (world demoStart) = Inr (Marshal_content demoContent)"
    by (simp add: mountEnv_def)
  from ReadPoolConfigMapFile_roundtrip [OF base dir link read valid] here show ?thesis by metis
qed

section \<open>The module root is the nearest ancestor\<close>

lemma Dir_fix: "Dir d = d \<Longrightarrow> (Dir ^^ n) d = d"
  by (induction n) simp_all

lemma findRootFrom_nearest:
  "case findRootFrom E w dir of
     Inr r \<Rightarrow> \<exists>n. r = (Dir ^^ n) dir \<and> fileExists E (Join r ''go.mod'') w \<and>
       (\<forall>m < n. \<not> fileExists E (Join ((Dir ^^ m) dir) ''go.mod'') w)
   | Inl e \<Rightarrow> e = errNotExist \<and> (\<forall>n. \<not> fileExists E (Join ((Dir ^^ n) dir) ''go.mod'') w)"
proof (induction E w dir rule: findRootFrom.induct)
  case (1 E w dir)
  have shift: "(Dir ^^ n) (Dir dir) = (Dir ^^ Suc n) dir" for n
    by (simp add: funpow_swap1)
  consider (here) "fileExists E (Join dir ''go.mod'') w"
    | (top) "\<not> fileExists E (Join dir ''go.mod'') w" "Dir dir = dir"
    | (up) "\<not> fileExists E (Join dir ''go.mod'') w" "Dir dir \<noteq> dir" by blast
  then show ?case
  proof cases
    case here
    then show ?thesis by (subst findRootFrom.simps) (auto intro: exI [of _ 0])
  next
    case top
    then show ?thesis by (subst findRootFrom.simps) (simp add: Dir_fix)
  next
    case up
    note IH = 1 [OF up(1) refl up(2)]
    have step: "findRootFrom E w dir = findRootFrom E w (Dir dir)"
      using up by (subst findRootFrom.simps) simp
    show ?thesis
    proof (cases "findRootFrom E w (Dir dir)")
      case (Inl e)
      have "\<not> fileExists E (Join ((Dir ^^ n) dir) ''go.mod'') w" for n
        using IH Inl up(1) by (cases n) (simp_all only: sum.case shift funpow_0 simp_thms)
      with IH Inl show ?thesis by (simp add: step)
    next
      case (Inr r)
      with IH obtain n where n: "r = (Dir ^^ Suc n) dir" "fileExists E (Join r ''go.mod'') w"
        and less: "\<forall>m < n. \<not> fileExists E (Join ((Dir ^^ Suc m) dir) ''go.mod'') w"
        by (auto simp only: sum.case shift)
      have "\<not> fileExists E (Join ((Dir ^^ m) dir) ''go.mod'') w" if "m < Suc n" for m
        using less up(1) that by (cases m) (simp_all only: funpow_0 Suc_less_eq simp_thms)
      with n Inr show ?thesis by (auto simp only: step sum.case)
    qed
  qed
qed

text \<open>
  C34: The search for the module root ends on every file system, and finds the nearest: the result is the
  first directory on the way from the working directory to the root that holds a go.mod, and the
  error for a missing file if there is none on the way or, unchanged, the error of a failed
  lookup of the working directory.
\<close>

theorem FindModuleRoot_nearest:
  "fst (run_state (FindModuleRoot E) s) = r \<Longrightarrow>
   (case getwd E (world s) of
      Inl e \<Rightarrow> r = Inl e
    | Inr dir \<Rightarrow>
        (case r of
           Inr d \<Rightarrow> \<exists>n. d = (Dir ^^ n) dir \<and> fileExists E (Join d ''go.mod'') (world s) \<and>
             (\<forall>m < n. \<not> fileExists E (Join ((Dir ^^ m) dir) ''go.mod'') (world s))
         | Inl e \<Rightarrow> e = errNotExist \<and> (\<forall>n. \<not> fileExists E (Join ((Dir ^^ n) dir) ''go.mod'') (world s))))"
proof (cases "getwd E (world s)")
  case (Inr dir)
  moreover assume "fst (run_state (FindModuleRoot E) s) = r"
  ultimately have "r = findRootFrom E (world s) dir"
    by (simp add: FindModuleRoot_def askWorld_def)
  with Inr findRootFrom_nearest [where E = E and w = "world s" and dir = dir] show ?thesis by simp
qed (auto simp: FindModuleRoot_def askWorld_def)

theorem FindModuleRoot_nearest_witness:
  "fst (run_state (FindModuleRoot (storeEnv\<lparr>getwd := \<lambda>w. Inr ''/repo/a/b'', fileExists := \<lambda>p w. p = ''/repo/go.mod''\<rparr>)) demoStart)
     = Inr ''/repo'' \<and> (\<exists>n. ''/repo'' = (Dir ^^ n) ''/repo/a/b'')"
proof -
  let ?E = "storeEnv\<lparr>getwd := \<lambda>w. Inr ''/repo/a/b'', fileExists := \<lambda>p w. p = ''/repo/go.mod''\<rparr>"
  have run: "fst (run_state (FindModuleRoot ?E) demoStart) = Inr ''/repo''" by code_simp
  from FindModuleRoot_nearest [OF run] have "\<exists>n. ''/repo'' = (Dir ^^ n) ''/repo/a/b''" by auto
  with run show ?thesis by simp
qed

end
