(* ===== verification/OdfConsole.thy ===== *)
theory OdfConsole
  imports FscController "HOL-Library.Word"
begin

text \<open>
  The console plugin: \<^verbatim>\<open>console/console.go\<close> and \<^verbatim>\<open>controllers/clusterversion_controller.go\<close>. The functions
  \<^verbatim>\<open>controllerutil.CreateOrUpdate\<close> and \<^verbatim>\<open>controllerutil.SetControllerReference\<close> of controller-runtime are
  arguments of the definitions that call them. Go's \<^verbatim>\<open>int\<close> has 64 bits.
\<close>

section \<open>The objects: \<open>console/console.go\<close>\<close>

definition MainBasePath :: string where "MainBasePath = ''/''"
definition CompatibilityBasePath :: string where "CompatibilityBasePath = ''/compatibility/''"

definition safeIntToInt32 :: "64 word \<Rightarrow> 32 word res" where
  "safeIntToInt32 val =
     (if sint val < - (2 ^ 31) \<or> sint val > 2 ^ 31 - 1 then Panic ''safeIntToInt32 - integer overflow''
      else Ok (ucast val))"

definition GetDeployment :: "string \<Rightarrow> Deployment" where
  "GetDeployment ns =
     \<lparr>dep_Meta = mkMeta ''ibm-odf-console'' ns,
      dep_Spec = \<lparr>ds_Replicas = None, ds_MatchLabels = NilMap, ds_TemplateLabels = NilMap, ds_Containers = [],
        ds_ServiceAccountName = [], ds_Volumes = [], ds_Rest = []\<rparr>\<rparr>"

definition GetService :: "64 word \<Rightarrow> string \<Rightarrow> Service res" where
  "GetService port ns =
     (case safeIntToInt32 port of
        Panic p \<Rightarrow> Panic p
      | Err e \<Rightarrow> Err e
      | Ok targetPort \<Rightarrow>
          (case safeIntToInt32 port of
             Panic p \<Rightarrow> Panic p
           | Err e \<Rightarrow> Err e
           | Ok servicePort \<Rightarrow> Ok
               \<lparr>svc_Meta = (mkMeta ''ibm-odf-console-service'' ns)
                  \<lparr>om_Annotations := MkMap [(''service.alpha.openshift.io/serving-cert-secret-name'',
                      ''ibm-odf-console-serving-cert'')],
                   om_Labels := MkMap [(''app'', ''ibm-odf-console'')]\<rparr>,
                svc_Spec = \<lparr>svs_Type = ''ClusterIP'',
                  svs_Ports = [\<lparr>sp_Name = ''https'', sp_Protocol = ''TCP'', sp_AppProtocol = None,
                    sp_Port = sint servicePort,
                    sp_TargetPort = \<lparr>ios_Type = IntT, ios_IntVal = sint targetPort, ios_StrVal = []\<rparr>,
                    sp_NodePort = 0\<rparr>],
                  svs_Selector = MkMap [(''app'', ''ibm-odf-console'')], svs_Rest = []\<rparr>\<rparr>))"

definition GetConsolePluginCR :: "64 word \<Rightarrow> string \<Rightarrow> string \<Rightarrow> ConsolePlugin res" where
  "GetConsolePluginCR consolePort basePath serviceNamespace =
     (case safeIntToInt32 consolePort of
        Panic p \<Rightarrow> Panic p
      | Err e \<Rightarrow> Err e
      | Ok port \<Rightarrow> Ok
          \<lparr>cpl_Meta = mkMeta ''ibm-storage-odf-plugin'' [], cpl_DisplayName = ''IBM Plugin'',
           cpl_ServiceName = ''ibm-odf-console-service'', cpl_ServiceNamespace = serviceNamespace,
           cpl_ServicePort = sint port, cpl_BasePath = basePath, cpl_BackendType = ''Service'',
           cpl_LoadType = []\<rparr>)"

definition RemoveConsole :: "'w env \<Rightarrow> string \<Rightarrow> ('w, goerr + unit) oper" where
  "RemoveConsole E ns = do {
     r \<leftarrow> getAs E asConsolePlugin KConsolePlugin ns ''ibm-storage-odf-plugin'';
     (case r of
        Inl e \<Rightarrow> if IsNotFound e then ret (Inr ()) else ret (Inl e)
      | Inr consolePlugin \<Rightarrow> do {
          d \<leftarrow> deleteObj E (OConsolePlugin consolePlugin);
          (case d of Inl e \<Rightarrow> ret (Inl e) | Inr _ \<Rightarrow> ret (Inr ()))
        })
   }"

definition GetBasePath :: "string \<Rightarrow> string" where
  "GetBasePath clusterVersion = MainBasePath"

text \<open>The package has its own \<^verbatim>\<open>IsContain\<close>, with a test for the empty slice first.\<close>

fun containLoop :: "string list \<Rightarrow> string \<Rightarrow> bool" where
  "containLoop [] item = False"
| "containLoop (eachItem # items) item = (if eachItem = item then True else containLoop items item)"

definition consoleIsContain :: "string list \<Rightarrow> string \<Rightarrow> bool" where
  "consoleIsContain items item = (if length items = 0 then False else containLoop items item)"

definition ibmConsoleName :: string where "ibmConsoleName = ''ibm-storage-odf-plugin''"

definition EnableIBMConsoleByDefault :: "'w env \<Rightarrow> ('w, goerr + unit) oper" where
  "EnableIBMConsoleByDefault E = do {
     r \<leftarrow> getAs E asConsole KConsole [] ''cluster'';
     (case r of
        Inl e \<Rightarrow> ret (Inl e)
      | Inr consoleCluster \<Rightarrow>
          (let consolePlugins = con_Plugins consoleCluster in
           if \<not> consoleIsContain consolePlugins ibmConsoleName then do {
             u \<leftarrow> updateAs E asConsole (OConsole (consoleCluster\<lparr>con_Plugins := consolePlugins @ [ibmConsoleName]\<rparr>));
             (case u of Inl e \<Rightarrow> ret (Inl e) | Inr _ \<Rightarrow> ret (Inr ()))
           } else ret (Inr ())))
   }"

section \<open>The controller: \<open>controllers/clusterversion_controller.go\<close>\<close>

text \<open>
  \<open>upsert x f\<close> is \<^verbatim>\<open>CreateOrUpdate\<close> with the object \<open>x\<close> and the mutate function \<open>f\<close>, which writes through the
  pointer \<open>x\<close> was passed by: it is called with the object the pointer then holds, and its result is what the
  pointer holds after it.
\<close>

type_synonym 'w upsert = "kobj \<Rightarrow> (kobj \<Rightarrow> goerr + kobj) \<Rightarrow> ('w, goerr + unit) oper"
type_synonym setref = "Deployment \<Rightarrow> Service \<Rightarrow> goerr + Service"

definition ownService :: "setref \<Rightarrow> Deployment \<Rightarrow> kobj \<Rightarrow> goerr + kobj" where
  "ownService setRef d x =
     (case asService x of
        None \<Rightarrow> Inr x
      | Some s \<Rightarrow> (case setRef d s of Inl e \<Rightarrow> Inl e | Inr s' \<Rightarrow> Inr (OService s')))"

text \<open>\<^verbatim>\<open>err != nil && !errors.IsAlreadyExists(err)\<close>\<close>

definition unlessExists :: "goerr + unit \<Rightarrow> goerr option" where
  "unlessExists r = (case r of Inl e \<Rightarrow> if IsAlreadyExists e then None else Some e | Inr _ \<Rightarrow> None)"

definition ensureConsolePlugin :: "'w env \<Rightarrow> 'w upsert \<Rightarrow> setref \<Rightarrow> 64 word \<Rightarrow> string \<Rightarrow> ('w, unit res) oper" where
  "ensureConsolePlugin E upsert setRef consolePort clusterVersion = do {
     s \<leftarrow> State_Monad.get;
     (let basePath = GetBasePath clusterVersion;
          ns = watchNamespace s;
          ibmConsoleDeployment = GetDeployment ns
      in do {
        r \<leftarrow> getAs E asDeployment KDeployment (om_Namespace (dep_Meta ibmConsoleDeployment))
               (om_Name (dep_Meta ibmConsoleDeployment));
        (case r of
           Inl e \<Rightarrow> ret (Err e)
         | Inr ibmConsoleDeployment \<Rightarrow>
             (case GetService consolePort ns of
                Panic p \<Rightarrow> ret (Panic p)
              | Err e \<Rightarrow> ret (Err e)
              | Ok ibmConsoleService \<Rightarrow> do {
                  a \<leftarrow> upsert (OService ibmConsoleService) (ownService setRef ibmConsoleDeployment);
                  (case unlessExists a of
                     Some e \<Rightarrow> ret (Err e)
                   | None \<Rightarrow>
                       (case GetConsolePluginCR consolePort basePath ns of
                          Panic p \<Rightarrow> ret (Panic p)
                        | Err e \<Rightarrow> ret (Err e)
                        | Ok ibmConsolePlugin \<Rightarrow> do {
                            b \<leftarrow> upsert (OConsolePlugin ibmConsolePlugin) Inr;
                            (case unlessExists b of Some e \<Rightarrow> ret (Err e) | None \<Rightarrow> ret (Ok ()))
                          }))
                }))
      })
   }"

definition CvReconcile :: "'w env \<Rightarrow> 'w upsert \<Rightarrow> setref \<Rightarrow> 64 word \<Rightarrow> request \<Rightarrow> ('w, Result res) oper" where
  "CvReconcile E upsert setRef consolePort rq = do {
     r \<leftarrow> getAs E asClusterVersion KClusterVersion (fst rq) (snd rq);
     (case r of
        Inl e \<Rightarrow> ret (Err e)
      | Inr inst \<Rightarrow> do {
          x \<leftarrow> ensureConsolePlugin E upsert setRef consolePort (cv_DesiredVersion inst);
          (case x of Err e \<Rightarrow> ret (Err e) | Panic p \<Rightarrow> ret (Panic p) | Ok _ \<Rightarrow> ret (Ok emptyResult))
        })
   }"

text \<open>The function \<^verbatim>\<open>SetupWithManager\<close> gives to the manager, which runs it when the manager starts.\<close>

definition consoleRunnable :: "'w env \<Rightarrow> 'w upsert \<Rightarrow> setref \<Rightarrow> 64 word \<Rightarrow> ('w, unit res) oper" where
  "consoleRunnable E upsert setRef consolePort = do {
     r \<leftarrow> DetermineOpenShiftVersion E;
     (case r of
        Inl e \<Rightarrow> ret (Err e)
      | Inr clusterVersion \<Rightarrow> ensureConsolePlugin E upsert setRef consolePort clusterVersion)
   }"

section \<open>Ports\<close>

lemma sint_ucast_down:
  fixes v :: "64 word"
  assumes "- (2 ^ 31) \<le> sint v" "sint v \<le> 2 ^ 31 - 1"
  shows "sint (ucast v :: 32 word) = sint v"
proof -
  have "sint (ucast v :: 32 word) = signed_take_bit 31 (sint v)"
    by transfer (simp add: signed_take_bit_take_bit)
  with assms show ?thesis by (simp add: signed_take_bit_int_eq_self)
qed

text \<open>
  C40: A port is never truncated on its way into the service and the plugin: the conversion of a 64-bit
  integer to 32 bits panics exactly when the value is outside the 32-bit range, and otherwise keeps
  the value.
\<close>

theorem safeIntToInt32_exact:
  "(case safeIntToInt32 v of
      Ok w \<Rightarrow> sint w = sint v \<and> sint v \<in> {- (2 ^ 31) ..< 2 ^ 31}
    | Panic p \<Rightarrow> sint v \<notin> {- (2 ^ 31) ..< 2 ^ 31}
    | Err e \<Rightarrow> False)"
  by (auto simp: safeIntToInt32_def sint_ucast_down)

section \<open>The plugin list of the console\<close>

lemma consoleIsContain_iff: "consoleIsContain xs x \<longleftrightarrow> x \<in> set xs"
proof -
  have "containLoop xs x \<longleftrightarrow> x \<in> set xs" by (induction xs) auto
  then show ?thesis by (simp add: consoleIsContain_def)
qed

interpretation plugins: slice_set consoleIsContain
  by unfold_locales (rule consoleIsContain_iff)

definition pluginList :: "(objkey \<Rightarrow> kobj option) \<Rightarrow> string list" where
  "pluginList a = (case a (KConsole, [], ''cluster'') of Some (OConsole c) \<Rightarrow> con_Plugins c | _ \<Rightarrow> [])"

definition consoleKept :: "(objkey \<Rightarrow> kobj option) \<Rightarrow> bool" where
  "consoleKept a = (case a (KConsole, [], ''cluster'') of Some x \<Rightarrow> deletionOf x = None | None \<Rightarrow> True)"

lemma wp_EnableIBMConsoleByDefault:
  assumes "api_laws E v" and "consoleKept (v (world s))"
    and "\<And>e t. Q (Inl e) t"
    and "\<And>t xs. onlyAt (KConsole, [], ''cluster'') (v (world s)) (v (world t)) \<Longrightarrow>
       xs = pluginList (v (world s)) \<Longrightarrow>
       pluginList (v (world t)) = (if consoleIsContain xs ibmConsoleName then xs else xs @ [ibmConsoleName]) \<Longrightarrow> 
       Q (Inr ()) t"
  shows "wpre (EnableIBMConsoleByDefault E) Q s"
  unfolding EnableIBMConsoleByDefault_def wp_bind
proof (rule wp_getAs_laws [OF assms(1)], goal_cases)
  case (1 e r w)
  show ?case by (simp add: wp assms(3))
next
  case (2 x c w)
  then have x: "x = OConsole c" and here: "pluginList (v (world s)) = con_Plugins c" "om_DeletionTimestamp (con_Meta c) = None"
    using assms(2) by (auto simp: pluginList_def consoleKept_def deletionOf_def)
  show ?case
  proof (cases "consoleIsContain (con_Plugins c) ibmConsoleName")
    case True
    with 2 here show ?thesis by (simp add: wp) (rule assms(4), auto)
  next
    case False
    have key: "keyOf (OConsole (c\<lparr>con_Plugins := ps\<rparr>)) = (KConsole, [], ''cluster'')" for ps
      using 2(3) x by (simp add: keyOf_def)
    show ?thesis
      unfolding Let_def using False
      apply (simp add: wp)
      apply (rule wp_updateAs_laws [OF assms(1)])
       apply (simp add: wp assms(3))
      apply (simp add: wp)
      apply (rule assms(4))
        apply (use 2 x here in \<open>auto simp: key onlyAt_def pluginList_def agrees_def released_def deletionOf_def split: if_splits\<close>)
      done
  qed
qed

text \<open>
  C30: When the start-up of the operator has enabled the console plugin, the plugin is in the list of
  enabled plugins, the plugins that were enabled before are still there in their order, a list without
  duplicates has none, and no other object of the cluster has changed.
\<close>

theorem EnableIBMConsoleByDefault_correct:
  assumes "api_laws E v" and "consoleKept (v (world s))"
    and "run_state (EnableIBMConsoleByDefault E) s = (Inr (), t)"
  shows "onlyAt (KConsole, [], ''cluster'') (v (world s)) (v (world t)) \<and>
    ibmConsoleName \<in> set (pluginList (v (world t))) \<and>
    prefix (pluginList (v (world s))) (pluginList (v (world t))) \<and>
    set (pluginList (v (world t))) \<subseteq> insert ibmConsoleName (set (pluginList (v (world s)))) \<and>
    (distinct (pluginList (v (world s))) \<longrightarrow> distinct (pluginList (v (world t))))"
proof -
  let ?ok = "\<lambda>r t. r = Inr () \<longrightarrow> onlyAt (KConsole, [], ''cluster'') (v (world s)) (v (world t)) \<and>
    pluginList (v (world t)) = (let xs = pluginList (v (world s)) in
      if consoleIsContain xs ibmConsoleName then xs else xs @ [ibmConsoleName])"
  have "wpre (EnableIBMConsoleByDefault E) ?ok s"
    by (rule wp_EnableIBMConsoleByDefault [OF assms(1,2)]) (auto simp: Let_def)
  from wp_runD [OF this assms(3)]
  have "onlyAt (KConsole, [], ''cluster'') (v (world s)) (v (world t))"
    and new: "pluginList (v (world t)) = (if consoleIsContain (pluginList (v (world s))) ibmConsoleName
      then pluginList (v (world s)) else pluginList (v (world s)) @ [ibmConsoleName])"
    by (simp_all add: Let_def)
  moreover note plugins.ensure_has [of "pluginList (v (world s))" ibmConsoleName, folded new]
    plugins.ensure_distinct [of "pluginList (v (world s))" ibmConsoleName, folded new]
  ultimately show ?thesis
    by (auto simp: new plugins.has_iff split: if_splits)
qed

section \<open>The documented behaviour of the library functions\<close>

text \<open>What the server keeps of a service and of a plugin that is written to it.\<close>

fun stored :: "kobj \<Rightarrow> kobj \<Rightarrow> bool" where
  "stored (OService a) (OService b) \<longleftrightarrow> map sp_Port (svs_Ports (svc_Spec a)) = map sp_Port (svs_Ports (svc_Spec b)) \<and>
     sameEntries (svs_Selector (svc_Spec a)) (svs_Selector (svc_Spec b)) \<and>
     om_OwnerReferences (svc_Meta a) = om_OwnerReferences (svc_Meta b)"
| "stored (OConsolePlugin a) (OConsolePlugin b) \<longleftrightarrow> b = a\<lparr>cpl_Meta := cpl_Meta b\<rparr>"
| "stored a b \<longleftrightarrow> kindOf a = kindOf b"

definition liveAt :: "(objkey \<Rightarrow> kobj option) \<Rightarrow> objkey \<Rightarrow> bool" where
  "liveAt a k = (case a k of Some x \<Rightarrow> deletionOf x = None | None \<Rightarrow> True)"

text \<open>
  \<^verbatim>\<open>CreateOrUpdate\<close> touches one object. When it succeeds the server holds the result of the mutate function,
  applied to the object the server had, or to its argument if there was none. The error \<^verbatim>\<open>AlreadyExists\<close> is one of
  the mutate function, or the refusal to create an object that is there.
\<close>

definition upserted :: "'w view \<Rightarrow> kobj \<Rightarrow> (kobj \<Rightarrow> goerr + kobj) \<Rightarrow> 'w st \<Rightarrow> goerr + unit \<Rightarrow> 'w st \<Rightarrow> bool" where
  "upserted v x f s r t \<longleftrightarrow> onlyAt (keyOf x) (v (world s)) (v (world t)) \<and> watchNamespace t = watchNamespace s \<and>
     (case r of
        Inr _ \<Rightarrow> \<exists>y z. f (case v (world s) (keyOf x) of Some old \<Rightarrow> old | None \<Rightarrow> x) = Inr y \<and>
          v (world t) (keyOf x) = Some z \<and> stored y z
      | Inl e \<Rightarrow> IsAlreadyExists e \<longrightarrow> (\<exists>y. f y = Inl e) \<or> v (world t) = v (world s) \<and> v (world s) (keyOf x) \<noteq> None)"

definition upsert_laws :: "'w view \<Rightarrow> 'w upsert \<Rightarrow> bool" where
  "upsert_laws v upsert \<longleftrightarrow>
     (\<forall>x f s. liveAt (v (world s)) (keyOf x) \<longrightarrow> wpre (upsert x f) (upserted v x f s) s)"

definition ownedBy :: "Deployment \<Rightarrow> Service \<Rightarrow> bool" where
  "ownedBy d s = (case om_OwnerReferences (svc_Meta s) of
     None \<Rightarrow> False | Some os \<Rightarrow> list_ex (\<lambda>o'. or_UID o' = om_UID (dep_Meta d)) os)"

text \<open>\<^verbatim>\<open>SetControllerReference\<close> adds an owner reference and changes nothing else; its error, an object owned by another controller, is not an API error.\<close>

definition setref_laws :: "setref \<Rightarrow> bool" where
  "setref_laws setRef \<longleftrightarrow> (\<forall>d s e. setRef d s = Inl e \<longrightarrow> \<not> IsAlreadyExists e) \<and> (\<forall>d s s'. setRef d s = Inr s' \<longrightarrow> ownedBy d s' \<and>
     svc_Spec s' = svc_Spec s \<and> s'\<lparr>svc_Meta := (svc_Meta s')\<lparr>om_OwnerReferences := om_OwnerReferences (svc_Meta s)\<rparr>\<rparr> = s)"

section \<open>What the controller guarantees\<close>

definition serviceKey :: "string \<Rightarrow> objkey" where
  "serviceKey ns = (KService, ns, ''ibm-odf-console-service'')"

definition pluginKey :: objkey where
  "pluginKey = (KConsolePlugin, [], ''ibm-storage-odf-plugin'')"

lemma keyOf_console:
  "GetService p ns = Ok svc \<Longrightarrow> keyOf (OService svc) = serviceKey ns"
  "GetConsolePluginCR p b ns = Ok pl \<Longrightarrow> keyOf (OConsolePlugin pl) = pluginKey"
  by (auto simp: GetService_def GetConsolePluginCR_def keyOf_def serviceKey_def pluginKey_def split: res.splits)

definition samePorts :: "Service \<Rightarrow> Service \<Rightarrow> bool" where
  "samePorts a b \<longleftrightarrow> map sp_Port (svs_Ports (svc_Spec a)) = map sp_Port (svs_Ports (svc_Spec b)) \<and>
     sameEntries (svs_Selector (svc_Spec a)) (svs_Selector (svc_Spec b))"

text \<open>
  The service after a pass: the one the source describes, owned by the deployment, if there was none; else the
  old one. The plugin after a pass: the one the source describes if there was none; else the old one.
\<close>

definition serviceThere :: "Service \<Rightarrow> Deployment \<Rightarrow> kobj option \<Rightarrow> kobj option \<Rightarrow> bool" where
  "serviceThere svc d old new \<longleftrightarrow> (\<exists>z. new = Some (OService z) \<and>
     (case old of None \<Rightarrow> samePorts svc z \<and> ownedBy d z | Some x \<Rightarrow> (\<exists>y. x = OService y \<and> samePorts y z)))"

definition pluginThere :: "ConsolePlugin \<Rightarrow> kobj option \<Rightarrow> kobj option \<Rightarrow> bool" where
  "pluginThere pl old new \<longleftrightarrow> (\<exists>z. new = Some (OConsolePlugin z) \<and>
     (case old of None \<Rightarrow> z = pl\<lparr>cpl_Meta := cpl_Meta z\<rparr> | Some x \<Rightarrow> (\<exists>y. x = OConsolePlugin y \<and> z = y\<lparr>cpl_Meta := cpl_Meta z\<rparr>)))"

lemma kindOf_eq:
  "kindOf x = KService \<longleftrightarrow> (\<exists>y. x = OService y)" "kindOf x = KConsolePlugin \<longleftrightarrow> (\<exists>z. x = OConsolePlugin z)"
  by (cases x; auto)+

lemma stored_eq:
  "stored (OService a) z \<longleftrightarrow> (\<exists>b. z = OService b \<and> samePorts a b \<and>
     om_OwnerReferences (svc_Meta a) = om_OwnerReferences (svc_Meta b))"
  "stored (OConsolePlugin p) z \<longleftrightarrow> (\<exists>q. z = OConsolePlugin q \<and> q = p\<lparr>cpl_Meta := cpl_Meta q\<rparr>)"
  by (cases z; auto simp: samePorts_def)+

lemma upserted_service:
  assumes laws: "api_laws E v" "setref_laws setRef"
    and svc: "GetService p ns = Ok svc"
    and up: "upserted v (OService svc) (ownService setRef d) s r t" and r: "unlessExists r = None"
  shows "serviceThere svc d (v (world s) (serviceKey ns)) (v (world t) (serviceKey ns))"
proof -
  note key = keyOf_console(1) [OF svc]
  have old: "\<exists>y. x = OService y" if "v (world s) (serviceKey ns) = Some x" for x
    using api_laws_key [OF laws(1) that] by (simp add: keyOf_def serviceKey_def kindOf_eq)
  show ?thesis
  proof (cases r)
    case (Inl e)
    with r have "IsAlreadyExists e" by (simp add: unlessExists_def split: if_splits)
    moreover from this laws(2) have "ownService setRef d y \<noteq> Inl e" for y
      by (auto simp: ownService_def setref_laws_def split: option.splits sum.splits)
    ultimately have "v (world t) = v (world s)" "v (world s) (serviceKey ns) \<noteq> None"
      using up key Inl by (auto simp: upserted_def)
    with old show ?thesis by (auto simp: serviceThere_def samePorts_def)
  next
    case (Inr u)
    with up key obtain y z where y: "ownService setRef d (case v (world s) (serviceKey ns) of Some old \<Rightarrow> old | None \<Rightarrow> OService svc) = Inr y"
      and z: "v (world t) (serviceKey ns) = Some z" "stored y z"
      by (auto simp: upserted_def)
    obtain a where a: "(case v (world s) (serviceKey ns) of Some old \<Rightarrow> old | None \<Rightarrow> OService svc) = OService a"
      using old by (cases "v (world s) (serviceKey ns)") auto
    with y obtain a' where a': "setRef d a = Inr a'" "y = OService a'"
      by (auto simp: ownService_def split: sum.splits)
    with laws(2) have own: "ownedBy d a'" "svc_Spec a' = svc_Spec a" by (auto simp: setref_laws_def)
    from z a' obtain b where b: "z = OService b" "samePorts a' b" "om_OwnerReferences (svc_Meta a') = om_OwnerReferences (svc_Meta b)"
      by (auto simp: stored_eq)
    with own have "samePorts a b" "ownedBy d b" by (simp_all add: samePorts_def ownedBy_def)
    with a b z old show ?thesis by (auto simp: serviceThere_def split: option.splits)
  qed
qed

lemma upserted_plugin:
  assumes laws: "api_laws E v"
    and pl: "GetConsolePluginCR p b ns = Ok pl"
    and up: "upserted v (OConsolePlugin pl) Inr s r t" and r: "unlessExists r = None"
  shows "pluginThere pl (v (world s) pluginKey) (v (world t) pluginKey)"
proof -
  note key = keyOf_console(2) [OF pl]
  have old: "\<exists>y. x = OConsolePlugin y" if "v (world s) pluginKey = Some x" for x
    using api_laws_key [OF laws(1) that] by (simp add: keyOf_def pluginKey_def kindOf_eq)
  show ?thesis
  proof (cases r)
    case (Inl e)
    with r up key have "v (world t) = v (world s)" "v (world s) pluginKey \<noteq> None"
      by (auto simp: upserted_def unlessExists_def split: if_splits)
    with old show ?thesis by (auto simp: pluginThere_def)
  next
    case (Inr u)
    with up key obtain z where "v (world t) pluginKey = Some z"
      "stored (case v (world s) pluginKey of Some old \<Rightarrow> old | None \<Rightarrow> OConsolePlugin pl) z"
      by (auto simp: upserted_def)
    with old show ?thesis
      by (cases "v (world s) pluginKey") (auto simp: pluginThere_def stored_eq)
  qed
qed

definition consolePost :: "'w view \<Rightarrow> 64 word \<Rightarrow> 'w st \<Rightarrow> 'w st \<Rightarrow> bool" where
  "consolePost v port s t \<longleftrightarrow> (\<exists>d svc pl. let ns = watchNamespace s in
     v (world s) (KDeployment, ns, ''ibm-odf-console'') = Some (ODeployment d) \<and>
     GetService port ns = Ok svc \<and> GetConsolePluginCR port MainBasePath ns = Ok pl \<and>
     serviceThere svc d (v (world s) (serviceKey ns)) (v (world t) (serviceKey ns)) \<and>
     pluginThere pl (v (world s) pluginKey) (v (world t) pluginKey) \<and>
     (\<forall>k. k \<noteq> serviceKey ns \<longrightarrow> k \<noteq> pluginKey \<longrightarrow> v (world t) k = v (world s) k))"

lemma wp_upsert:
  assumes "upsert_laws v upsert" "liveAt (v (world s)) (keyOf x)"
    and "\<And>r t. upserted v x f s r t \<Longrightarrow> Q r t"
  shows "wpre (upsert x f) Q s"
  using assms unfolding upsert_laws_def by (blast intro: wp_mono)

lemma upserted_other: "upserted v x f s r t \<Longrightarrow> k \<noteq> keyOf x \<Longrightarrow> v (world t) k = v (world s) k"
  by (cases k) (simp add: upserted_def onlyAt_def)

lemma serviceKey_pluginKey [simp]: "serviceKey ns \<noteq> pluginKey" "pluginKey \<noteq> serviceKey ns"
  by (simp_all add: serviceKey_def pluginKey_def)

text \<open>The two calls of \<^verbatim>\<open>CreateOrUpdate\<close>, the second after a state in which the service is in place.\<close>

lemma wp_plugin_step:
  assumes laws: "api_laws E v" "upsert_laws v upsert"
    and live: "liveAt (v (world s)) pluginKey" and pl: "GetConsolePluginCR p b ns = Ok pl"
    and Q: "\<And>t. pluginThere pl (v (world s) pluginKey) (v (world t) pluginKey) \<Longrightarrow>
      (\<And>k. k \<noteq> pluginKey \<Longrightarrow> v (world t) k = v (world s) k) \<Longrightarrow> Q (Ok ()) t"
    and Q': "\<And>e t. Q (Err e) t"
  shows "wpre (do { b \<leftarrow> upsert (OConsolePlugin pl) Inr;
    (case unlessExists b of Some e \<Rightarrow> ret (Err e) | None \<Rightarrow> ret (Ok ())) }) Q s"
  unfolding wp_bind
proof (rule wp_upsert [OF laws(2)])
  show "liveAt (v (world s)) (keyOf (OConsolePlugin pl))"
    using live keyOf_console(2) [OF pl] by simp
next
  fix r t
  assume up: "upserted v (OConsolePlugin pl) Inr s r t"
  have "v (world t) k = v (world s) k" if "k \<noteq> pluginKey" for k
    by (rule upserted_other [OF up that [folded keyOf_console(2) [OF pl]]])
  with Q Q' upserted_plugin [OF laws(1) pl up]
  show "wpre (case unlessExists r of Some e \<Rightarrow> ret (Err e) | None \<Rightarrow> ret (Ok ())) Q t"
    by (auto simp: wp split: option.splits)
qed

lemma wp_service_step:
  assumes laws: "api_laws E v" "upsert_laws v upsert" "setref_laws setRef"
    and live: "liveAt (v (world s)) (serviceKey ns)" and svc: "GetService p ns = Ok svc"
    and Q: "\<And>t. serviceThere svc d (v (world s) (serviceKey ns)) (v (world t) (serviceKey ns)) \<Longrightarrow>
      (\<And>k. k \<noteq> serviceKey ns \<Longrightarrow> v (world t) k = v (world s) k) \<Longrightarrow> wpre m Q t"
    and Q': "\<And>e t. Q (Err e) t"
  shows "wpre (do { a \<leftarrow> upsert (OService svc) (ownService setRef d);
    (case unlessExists a of Some e \<Rightarrow> ret (Err e) | None \<Rightarrow> m) }) Q s"
  unfolding wp_bind
proof (rule wp_upsert [OF laws(2)])
  show "liveAt (v (world s)) (keyOf (OService svc))"
    using live keyOf_console(1) [OF svc] by simp
next
  fix r t
  assume up: "upserted v (OService svc) (ownService setRef d) s r t"
  have "v (world t) k = v (world s) k" if "k \<noteq> serviceKey ns" for k
    by (rule upserted_other [OF up that [folded keyOf_console(1) [OF svc]]])
  with Q Q' upserted_service [OF laws(1,3) svc up]
  show "wpre (case unlessExists r of Some e \<Rightarrow> ret (Err e) | None \<Rightarrow> m) Q t"
    by (auto simp: wp split: option.splits)
qed

lemma wp_ensureConsolePlugin:
  assumes laws: "api_laws E v" "upsert_laws v upsert" "setref_laws setRef"
    and live: "liveAt (v (world s)) (serviceKey (watchNamespace s))" "liveAt (v (world s)) pluginKey"
  shows "wpre (ensureConsolePlugin E upsert setRef port version) (\<lambda>r t. r = Ok () \<longrightarrow> consolePost v port s t) s"
  unfolding ensureConsolePlugin_def Let_def wp_bind [of State_Monad.get] wp_get wp_bind [of "getAs _ _ _ _ _"]
proof (rule wp_getAs_laws [OF laws(1)], goal_cases)
  case (1 e r w)
  show ?case by (simp add: wp)
next
  case (2 x d w)
  let ?ns = "watchNamespace s"
  have dep: "v (world s) (KDeployment, ?ns, ''ibm-odf-console'') = Some (ODeployment d)"
    using 2 by (simp add: GetDeployment_def)
  show ?case
  proof (cases "safeIntToInt32 port")
    case (Ok q)
    then obtain svc pl where ok: "GetService port ?ns = Ok svc" "GetConsolePluginCR port MainBasePath ?ns = Ok pl"
      by (simp add: GetService_def GetConsolePluginCR_def)
    show ?thesis
      unfolding sum.case GetBasePath_def ok res.case
    proof (rule wp_service_step [OF laws _ ok(1)], goal_cases)
      case 1
      show ?case using live(1) 2(1) by simp
    next
      case (2 t)
      have same: "v (world t) pluginKey = v (world s) pluginKey"
        using 2(2) [of pluginKey] \<open>v w = v (world s)\<close> by simp
      show ?case
        by (rule wp_plugin_step [OF laws(1,2) _ ok(2)])
          (use live(2) \<open>v w = v (world s)\<close> 2 dep ok same in \<open>auto simp: consolePost_def Let_def liveAt_def\<close>)
    qed simp
  qed (auto simp: GetService_def wp split: res.splits)
qed


section \<open>Concrete runs\<close>

text \<open>Functions with the documented behaviour of the two library functions, over the sample server.\<close>

definition sampleUpsert :: "store upsert" where
  "sampleUpsert x f = do {
     r \<leftarrow> call storeEnv (RGet (kindOf x) (om_Namespace (metaOf x)) (om_Name (metaOf x)));
     (case r of
        ROk old \<Rightarrow>
          (case f old of
             Inl e \<Rightarrow> ret (Inl e)
           | Inr y \<Rightarrow> if keyOf y \<noteq> keyOf x then ret (Inl (FmtError ''MutateFn cannot mutate object name''))
                      else do { u \<leftarrow> call storeEnv (RUpdate y); ret (decodeDone u) })
      | RErr e \<Rightarrow>
          (case f x of
             Inl e' \<Rightarrow> ret (Inl e')
           | Inr y \<Rightarrow> if keyOf y \<noteq> keyOf x then ret (Inl (FmtError ''MutateFn cannot mutate object name''))
                      else do { u \<leftarrow> call storeEnv (RCreate y); ret (decodeDone u) })
      | RItems _ \<Rightarrow> ret (Inl decodeErr))
   }"

definition sampleSetRef :: setref where
  "sampleSetRef d s = Inr (s\<lparr>svc_Meta := (svc_Meta s)\<lparr>om_OwnerReferences :=
     Some [\<lparr>or_APIVersion = ''apps/v1'', or_Kind = ''Deployment'', or_Name = om_Name (dep_Meta d), or_UID = om_UID (dep_Meta d)\<rparr>]\<rparr>\<rparr>)"

lemma sampleSetRef_laws: "setref_laws sampleSetRef"
  by (simp add: setref_laws_def sampleSetRef_def ownedBy_def)

lemma stored_stamp: "stored y (stamp n d (serialise y))" "stored y (stamp n d (withStatusOf (serialise y) z))"
  by (cases y; cases z; simp add: stamp_def withStatusOf_def)+

lemma sampleUpsert_laws: "upsert_laws storeView sampleUpsert"
  unfolding upsert_laws_def
proof (intro allI impI)
  fix x f and s :: "store st"
  assume live: "liveAt (storeView (world s)) (keyOf x)"
  show "wpre (sampleUpsert x f) (upserted storeView x f s) s"
    using live
    by (auto simp: sampleUpsert_def wp wp_call storeEnv_def upserted_def storeView_def keyOf_def [symmetric] statusErr_def
      decodeDone_def onlyAt_def liveAt_def released_def tick_def Let_def stored_stamp split: sum.splits option.splits)
qed

definition demoConsole :: "store st" where
  "demoConsole = demoState
     [OClusterVersion \<lparr>cv_Meta = mkMeta ''version'' [], cv_DesiredVersion = ''4.14''\<rparr>,
      ODeployment ((GetDeployment ''ns'')\<lparr>dep_Meta := (mkMeta ''ibm-odf-console'' ''ns'')\<lparr>om_UID := ''u9''\<rparr>\<rparr>),
      OConsole \<lparr>con_Meta = (mkMeta ''cluster'' [])\<lparr>om_ResourceVersion := ''6''\<rparr>, con_Plugins = [''monitoring-plugin'']\<rparr>]"


theorem EnableIBMConsoleByDefault_correct_witness:
  "pluginList (storeView (world (snd (run_state (EnableIBMConsoleByDefault storeEnv) demoConsole)))) =
     [''monitoring-plugin'', ibmConsoleName] \<and>
   onlyAt (KConsole, [], ''cluster'') (storeView (world demoConsole))
     (storeView (world (snd (run_state (EnableIBMConsoleByDefault storeEnv) demoConsole))))"
proof
  have run: "fst (run_state (EnableIBMConsoleByDefault storeEnv) demoConsole) = Inr ()"
    by code_simp
  show "pluginList (storeView (world (snd (run_state (EnableIBMConsoleByDefault storeEnv) demoConsole)))) =
     [''monitoring-plugin'', ibmConsoleName]"
    by code_simp
  have "consoleKept (storeView (world demoConsole))" by code_simp
  from EnableIBMConsoleByDefault_correct [OF storeEnv_laws this]
  show "onlyAt (KConsole, [], ''cluster'') (storeView (world demoConsole))
     (storeView (world (snd (run_state (EnableIBMConsoleByDefault storeEnv) demoConsole))))"
    using run by (metis prod.collapse)
qed

end
