(* ===== verification/Flags.thy ===== *)
theory Flags
  imports Gostd "HOL-Library.Word"
begin

text \<open>
  The command line: the parser of Go's \<^verbatim>\<open>flag\<close> package, at the flags that \<^verbatim>\<open>main.go\<close> defines. The packages it uses
  define further flags, for logging and for the client configuration; of those the parser has to know the names,
  whether they are boolean, and which values they accept.
\<close>

section \<open>Values of flags\<close>

text \<open>\<^verbatim>\<open>strconv.ParseBool\<close>\<close>

definition ParseBool :: "string \<Rightarrow> bool option" where
  "ParseBool s =
     (if s \<in> {''1'', ''t'', ''T'', ''TRUE'', ''true'', ''True''} then Some True
      else if s \<in> {''0'', ''f'', ''F'', ''FALSE'', ''false'', ''False''} then Some False
      else None)"

text \<open>\<^verbatim>\<open>strconv.ParseInt(s, 0, 64)\<close>: the base is given by the prefix, underscores may separate digits.\<close>

definition lowered :: "char \<Rightarrow> int" where
  "lowered c = (let n = of_char c in if 65 \<le> n \<and> n \<le> 90 then n + 32 else n)"

definition digitOf :: "char \<Rightarrow> int option" where
  "digitOf c =
     (let n = lowered c in
      if 48 \<le> n \<and> n \<le> 57 then Some (n - 48)
      else if 97 \<le> n \<and> n \<le> 122 then Some (n - 97 + 10)
      else None)"

fun digitsLoop :: "int \<Rightarrow> int \<Rightarrow> string \<Rightarrow> int option" where
  "digitsLoop base n [] = Some n"
| "digitsLoop base n (c # s) =
     (if c = CHR ''_'' then digitsLoop base n s
      else (case digitOf c of
              None \<Rightarrow> None
            | Some d \<Rightarrow> if base \<le> d then None else digitsLoop base (base * n + d) s))"

text \<open>What precedes a character: the beginning, a digit or a prefix, an underscore, or something else.\<close>

datatype seen = AtStart | Digit | Underscore | Other

fun underscoresFrom :: "bool \<Rightarrow> seen \<Rightarrow> string \<Rightarrow> bool" where
  "underscoresFrom hex saw [] \<longleftrightarrow> saw \<noteq> Underscore"
| "underscoresFrom hex saw (c # s) \<longleftrightarrow>
     (let n = lowered c in
      if 48 \<le> n \<and> n \<le> 57 \<or> hex \<and> 97 \<le> n \<and> n \<le> 102 then underscoresFrom hex Digit s
      else if c = CHR ''_'' then saw = Digit \<and> underscoresFrom hex Underscore s
      else saw \<noteq> Underscore \<and> underscoresFrom hex Other s)"

definition basePrefix :: "string \<Rightarrow> int option" where
  "basePrefix s =
     (case s of
        c # d # _ \<Rightarrow>
          if c = CHR ''0'' then
            (if lowered d = 98 then Some 2 else if lowered d = 111 then Some 8 else if lowered d = 120 then Some 16 else None)
          else None
      | _ \<Rightarrow> None)"

definition underscoreOK :: "string \<Rightarrow> bool" where
  "underscoreOK s =
     (case basePrefix s of
        Some b \<Rightarrow> underscoresFrom (b = 16) Digit (drop 2 s)
      | None \<Rightarrow> underscoresFrom False AtStart s)"

definition ParseUint :: "string \<Rightarrow> int option" where
  "ParseUint s =
     (if s = [] then None
      else
        (let (base, t) =
           (if hd s = CHR ''0'' then
              (case basePrefix s of
                 Some b \<Rightarrow> if 3 \<le> length s then (b, drop 2 s) else (8, tl s)
               | None \<Rightarrow> (8, tl s))
            else (10, s)) in
         case digitsLoop base 0 t of
           None \<Rightarrow> None
         | Some n \<Rightarrow> if 2 ^ 64 \<le> n \<or> CHR ''_'' \<in> set t \<and> \<not> underscoreOK s then None else Some n))"

definition ParseInt :: "string \<Rightarrow> int option" where
  "ParseInt s =
     (if s = [] then None
      else
        (let neg = (hd s = CHR ''-'');
             t = (if hd s = CHR ''+'' \<or> hd s = CHR ''-'' then tl s else s) in
         case ParseUint t of
           None \<Rightarrow> None
         | Some n \<Rightarrow>
             if \<not> neg \<and> 2 ^ 63 \<le> n \<or> neg \<and> 2 ^ 63 < n then None
             else Some (if neg then - n else n)))"

section \<open>The flags of the program\<close>

record flags =
  metricsAddr :: string
  enableLeaderElection :: bool
  probeAddr :: string
  consolePort :: "64 word"

definition defaultFlags :: flags where
  "defaultFlags = \<lparr>metricsAddr = '':8080'', enableLeaderElection = False, probeAddr = '':8081'', consolePort = 9003\<rparr>"

text \<open>A flag of another package: whether it is boolean, and the values its \<^verbatim>\<open>Set\<close> accepts.\<close>

type_synonym flagset = "string \<Rightarrow> (bool \<times> (string \<Rightarrow> bool)) option"

text \<open>\<^verbatim>\<open>Value.Set\<close> of the flag of a name, and whether the flag is boolean.\<close>

definition setFlag :: "flagset \<Rightarrow> string \<Rightarrow> (bool \<times> (string \<Rightarrow> flags \<Rightarrow> flags option)) option" where
  "setFlag others name =
     (if name = ''metrics-bind-address'' then Some (False, \<lambda>v F. Some (F\<lparr>metricsAddr := v\<rparr>))
      else if name = ''health-probe-bind-address'' then Some (False, \<lambda>v F. Some (F\<lparr>probeAddr := v\<rparr>))
      else if name = ''leader-elect'' then
        Some (True, \<lambda>v F. map_option (\<lambda>b. F\<lparr>enableLeaderElection := b\<rparr>) (ParseBool v))
      else if name = ''console-port'' then
        Some (False, \<lambda>v F. map_option (\<lambda>i. F\<lparr>consolePort := word_of_int i\<rparr>) (ParseInt v))
      else map_option (\<lambda>(b, ok). (b, \<lambda>v F. if ok v then Some F else None)) (others name))"

section \<open>Parsing\<close>

text \<open>One argument: more to parse, the flags are over, or the process exits (0 for help, 2 for an error).\<close>

datatype flagStep = More flags "string list" | Over | ExitCode int

definition splitFlag :: "string \<Rightarrow> string \<times> string option" where
  "splitFlag s =
     (let name = takeWhile (\<lambda>c. c \<noteq> CHR ''='') (tl s) in
      (hd s # name, if Suc (length name) = length s then None else Some (drop (length name + 2) s)))"

definition parseOne :: "flagset \<Rightarrow> flags \<Rightarrow> string list \<Rightarrow> flagStep" where
  "parseOne others F args =
     (case args of
        [] \<Rightarrow> Over
      | s # rest \<Rightarrow>
          if length s < 2 \<or> hd s \<noteq> CHR ''-'' then Over
          else if s = ''--'' then Over
          else
            (let t = (if s ! 1 = CHR ''-'' then drop 2 s else tl s) in
             if t = [] \<or> hd t = CHR ''-'' \<or> hd t = CHR ''='' then ExitCode 2
             else
               (let (name, value) = splitFlag t in
                case setFlag others name of
                  None \<Rightarrow> ExitCode (if name = ''help'' \<or> name = ''h'' then 0 else 2)
                | Some (isBool, set') \<Rightarrow>
                    (let (value', rest') =
                       (case value of
                          Some v \<Rightarrow> (Some v, rest)
                        | None \<Rightarrow>
                            if isBool then (Some ''true'', rest)
                            else (case rest of [] \<Rightarrow> (None, []) | v # vs \<Rightarrow> (Some v, vs))) in
                     case value' of
                       None \<Rightarrow> ExitCode 2
                     | Some v \<Rightarrow> (case set' v F of None \<Rightarrow> ExitCode 2 | Some F' \<Rightarrow> More F' rest')))))"

lemma parseOne_shorter: "parseOne others F args = More F' rest \<Longrightarrow> length rest < length args"
  by (auto simp: parseOne_def Let_def split: list.splits if_splits option.splits prod.splits)

text \<open>\<^verbatim>\<open>flag.Parse\<close>, with the policy to exit on an error.\<close>

function parseFlags :: "flagset \<Rightarrow> flags \<Rightarrow> string list \<Rightarrow> int + flags" where
  "parseFlags others F args =
     (case parseOne others F args of
        More F' rest \<Rightarrow> parseFlags others F' rest
      | Over \<Rightarrow> Inr F
      | ExitCode n \<Rightarrow> Inl n)"
  by pat_completeness auto
termination
  by (relation "measure (\<lambda>(others, F, args). length args)") (auto dest: parseOne_shorter)

declare parseFlags.simps [simp del]

section \<open>Numbers on the command line\<close>

definition showInt :: "int \<Rightarrow> string" where
  "showInt i = (if i < 0 then ''-'' @ natBase 10 (nat (- i)) else natBase 10 (nat i))"

lemma digit_facts:
  assumes "n < 10"
  shows "digitOf (digit n) = Some (int n)" "digit n \<noteq> CHR ''_''" "digit n \<noteq> CHR ''-''" "digit n \<noteq> CHR ''+''"
    "digit n = CHR ''0'' \<longleftrightarrow> n = 0" "digit n \<noteq> CHR ''=''"
proof -
  have "list_all (\<lambda>n. digitOf (digit n) = Some (int n) \<and> digit n \<noteq> CHR ''_'' \<and> digit n \<noteq> CHR ''-'' \<and> digit n \<noteq> CHR ''+'' \<and>
    (digit n = CHR ''0'' \<longleftrightarrow> n = 0) \<and> digit n \<noteq> CHR ''='') [0..<10]" by code_simp
  with assms show "digitOf (digit n) = Some (int n)" "digit n \<noteq> CHR ''_''" "digit n \<noteq> CHR ''-''" "digit n \<noteq> CHR ''+''"
    "digit n = CHR ''0'' \<longleftrightarrow> n = 0" "digit n \<noteq> CHR ''=''"
    unfolding list_all_iff by simp_all
qed

lemma digitsLoop_snoc:
  "digitsLoop b m s = Some n \<Longrightarrow> c \<noteq> CHR ''_'' \<Longrightarrow> digitOf c = Some d \<Longrightarrow> d < b \<Longrightarrow>
   digitsLoop b m (s @ [c]) = Some (b * n + d)"
proof (induction s arbitrary: m)
  case (Cons x s)
  show ?case
  proof (cases "x = CHR ''_''")
    case True
    with Cons show ?thesis by simp
  next
    case False
    with Cons.prems(1) obtain e where "digitOf x = Some e" "e < b" "digitsLoop b (b * m + e) s = Some n"
      by (simp split: option.splits if_splits)
    with Cons.IH [OF this(3) Cons.prems(2-4)] False show ?thesis by simp
  qed
qed simp

lemma natBase_digits:
  "natBase 10 n \<noteq> [] \<and> set (natBase 10 n) \<subseteq> digit ` {..<10} \<and> digitsLoop 10 0 (natBase 10 n) = Some (int n) \<and>
   (hd (natBase 10 n) = CHR ''0'' \<longrightarrow> n = 0)"
proof (induction n rule: less_induct)
  case (less n)
  show ?case
  proof (cases "n < 10")
    case True
    then show ?thesis by (simp add: natBase.simps [of 10 n] digit_facts)
  next
    case False
    then have m: "n div 10 < n" "n mod 10 < 10" by simp_all
    note IH = less [OF m(1)]
    have "digitsLoop 10 0 (natBase 10 (n div 10) @ [digit (n mod 10)]) = Some (10 * int (n div 10) + int (n mod 10))"
      using IH m(2) by (intro digitsLoop_snoc) (simp_all add: digit_facts)
    moreover have "10 * int (n div 10) + int (n mod 10) = int n" by presburger
    ultimately show ?thesis using False IH m(2) by (auto simp: natBase.simps [of 10 n])
  qed
qed

lemma natBase_chars: "c \<in> set (natBase 10 n) \<Longrightarrow> c \<noteq> CHR ''_'' \<and> c \<noteq> CHR ''-'' \<and> c \<noteq> CHR ''+'' \<and> c \<noteq> CHR ''=''"
proof -
  assume "c \<in> set (natBase 10 n)"
  with natBase_digits [of n] obtain d where "d < 10" "c = digit d" by auto
  then show ?thesis by (simp add: digit_facts)
qed

lemma ParseUint_natBase: "int n < 2 ^ 64 \<Longrightarrow> ParseUint (natBase 10 n) = Some (int n)"
proof (cases "n = 0")
  case True
  then show ?thesis by (simp add: natBase.simps ParseUint_def digit_def basePrefix_def)
next
  case False
  assume "int n < 2 ^ 64"
  with False natBase_digits [of n] natBase_chars [of "CHR ''_''" n] show ?thesis
    by (auto simp: ParseUint_def)
qed

lemma ParseInt_showInt:
  assumes "- (2 ^ 63) \<le> i" "i < 2 ^ 63"
  shows "ParseInt (showInt i) = Some i"
proof (cases "i < 0")
  case True
  with assms have "ParseUint (natBase 10 (nat (- i))) = Some (- i)" using ParseUint_natBase [of "nat (- i)"] by simp
  with True assms show ?thesis by (simp add: ParseInt_def showInt_def)
next
  case False
  have "hd (natBase 10 (nat i)) \<in> set (natBase 10 (nat i))" using natBase_digits [of "nat i"] by simp
  then have "hd (natBase 10 (nat i)) \<noteq> CHR ''-''" "hd (natBase 10 (nat i)) \<noteq> CHR ''+''" by (auto dest: natBase_chars)
  moreover from False assms have "ParseUint (natBase 10 (nat i)) = Some i" using ParseUint_natBase [of "nat i"] by simp
  ultimately show ?thesis using False assms natBase_digits [of "nat i"] by (simp add: ParseInt_def showInt_def)
qed

section \<open>The port of the console\<close>

lemma splitFlag_port: "splitFlag (''console-port='' @ v) = (''console-port'', Some v)" "splitFlag ''console-port'' = (''console-port'', None)"
  by (simp_all add: splitFlag_def)

lemma parseOne_port:
  assumes "dash = ''-'' \<or> dash = ''--''"
  shows "parseOne others F ((dash @ ''console-port='' @ v) # rest) =
      (case ParseInt v of None \<Rightarrow> ExitCode 2 | Some i \<Rightarrow> More (F\<lparr>consolePort := word_of_int i\<rparr>) rest)"
    and "parseOne others F ((dash @ ''console-port'') # v # rest) =
      (case ParseInt v of None \<Rightarrow> ExitCode 2 | Some i \<Rightarrow> More (F\<lparr>consolePort := word_of_int i\<rparr>) rest)"
    and "parseOne others F [dash @ ''console-port''] = ExitCode 2"
  using assms splitFlag_port(1) [of v] splitFlag_port(2) by (auto simp: parseOne_def setFlag_def split: option.split)

lemma parseFlags_More: "parseOne others F args = More F' rest \<Longrightarrow> parseFlags others F args = parseFlags others F' rest"
  by (simp add: parseFlags.simps [of others F args])

lemma parseFlags_Exit: "parseOne others F args = ExitCode n \<Longrightarrow> parseFlags others F args = Inl n"
  by (simp add: parseFlags.simps [of others F args])

text \<open>
  C39: Which port the command line gives to the console. Any port of 64 bits, printed in decimal, is the port that is
  set, in one argument or in two, with one dash or two, and parsing goes on with the rest, so that the last of several
  wins; a text that is no number, and a missing one, end the process with code 2; without arguments the
  flags have their defaults.
\<close>

theorem console_port_flag:
  assumes "dash = ''-'' \<or> dash = ''--''"
  shows "(- (2 ^ 63) \<le> i \<and> i < 2 ^ 63 \<longrightarrow>
      parseFlags others F ((dash @ ''console-port='' @ showInt i) # rest) = parseFlags others (F\<lparr>consolePort := word_of_int i\<rparr>) rest \<and>
      parseFlags others F ((dash @ ''console-port'') # showInt i # rest) = parseFlags others (F\<lparr>consolePort := word_of_int i\<rparr>) rest) \<and>
    (ParseInt v = None \<longrightarrow> parseFlags others F ((dash @ ''console-port='' @ v) # rest) = Inl 2 \<and>
      parseFlags others F ((dash @ ''console-port'') # v # rest) = Inl 2) \<and>
    parseFlags others F [dash @ ''console-port''] = Inl 2 \<and> parseFlags others F [] = Inr F"
proof (intro conjI impI)
  show "parseFlags others F [dash @ ''console-port''] = Inl 2"
    by (rule parseFlags_Exit) (rule parseOne_port [OF assms])
  show "parseFlags others F [] = Inr F" by (simp add: parseFlags.simps [of _ _ "[]"] parseOne_def)
qed (use ParseInt_showInt [of i] in \<open>auto intro!: parseFlags_More parseFlags_Exit simp: parseOne_port [OF assms] simp del: append.simps append_Cons\<close>)

theorem console_port_flag_witness:
  "parseFlags (\<lambda>_. None) defaultFlags [''--console-port=9443''] = Inr (defaultFlags\<lparr>consolePort := 9443\<rparr>) \<and>
   parseFlags (\<lambda>_. None) defaultFlags [''-console-port'', ''port''] = Inl 2"
proof
  have n: "showInt 9443 = ''9443''" by (simp add: showInt_def natBase.simps [of 10] digit_def)
  have over: "parseFlags others F [] = Inr F" for others F
    by (rule console_port_flag [OF disjI1 [OF refl], THEN conjunct2, THEN conjunct2, THEN conjunct2])
  have "parseFlags (\<lambda>_. None) defaultFlags [''--'' @ ''console-port='' @ showInt 9443] =
      parseFlags (\<lambda>_. None) (defaultFlags\<lparr>consolePort := word_of_int 9443\<rparr>) []"
    by (rule console_port_flag [OF disjI2 [OF refl], THEN conjunct1, THEN mp, THEN conjunct1]) simp
  then show "parseFlags (\<lambda>_. None) defaultFlags [''--console-port=9443''] = Inr (defaultFlags\<lparr>consolePort := 9443\<rparr>)"
    unfolding n over by simp
  have "ParseInt ''port'' = None" by code_simp
  then have "parseFlags (\<lambda>_. None) defaultFlags [''-'' @ ''console-port'', ''port''] = Inl 2"
    by (rule console_port_flag [OF disjI1 [OF refl], THEN conjunct2, THEN conjunct1, THEN mp, THEN conjunct2])
  then show "parseFlags (\<lambda>_. None) defaultFlags [''-console-port'', ''port''] = Inl 2" by simp
qed

end
