(* ===== verification/Manager.thy ===== *)
theory Manager
  imports PvController OdfConsole Flags
begin

text \<open>
  How the parts are put together: the watches each controller registers (the four \<^verbatim>\<open>SetupWithManager\<close>
  functions), the discovery of the CSI resource (\<^verbatim>\<open>controllers/driver.go\<close>), and the start of the process
  (\<^verbatim>\<open>main.go\<close>). The manager of controller-runtime and the discovery client are a parameter.
\<close>

section \<open>Watches\<close>

text \<open>
  What a controller registers: for the objects of a kind, how an event becomes reconcile requests, and
  which events pass. A watch without predicates lets every event pass.
\<close>

datatype 'w handler =
    EnqueueForObject
  | EnqueueForOwner kind
  | EnqueueMap "kobj \<Rightarrow> ('w, request list res) oper"

record 'w watch =
  w_Kind :: kind
  w_Handler :: "'w handler"
  w_Pred :: "event \<Rightarrow> bool res"

record 'w controller =
  ctl_Watches :: "'w watch list"
  ctl_Reconcile :: "request \<Rightarrow> ('w, Result res) oper"
  ctl_MaxConcurrent :: int

definition always :: "event \<Rightarrow> bool res" where "always ev = Ok True"

definition total :: "(kobj \<Rightarrow> ('w, request list) oper) \<Rightarrow> 'w handler" where
  "total f = EnqueueMap (\<lambda>x. do { rs \<leftarrow> f x; ret (Ok rs) })"

definition watchOf :: "kind \<Rightarrow> 'w handler \<Rightarrow> (event \<Rightarrow> bool res) \<Rightarrow> 'w watch" where
  "watchOf k h p = \<lparr>w_Kind = k, w_Handler = h, w_Pred = p\<rparr>"

definition fscController :: "'w env \<Rightarrow> 'w controller" where
  "fscController E =
     \<lparr>ctl_Watches =
        [watchOf KFsc EnqueueForObject always,
         watchOf KDeployment (EnqueueForOwner KFsc) always,
         watchOf KService (EnqueueForOwner KFsc) always,
         watchOf KServiceMonitor (EnqueueForOwner KFsc) always,
         watchOf KSecret (total (SecretToClusterMapFunc E)) always,
         watchOf KStorageClass (EnqueueMap (DefaultStorageClassToClusterMapperFunc E)) (Ok \<circ> RunDeletePredicate),
         watchOf KConfigMap (total (ConfigMapToClusterMapFunc E)) (Ok \<circ> RunDeletePredicate),
         watchOf KCsiCR (total (CSIToClusterMapFunc E)) (Ok \<circ> RunDeletePredicate)],
      ctl_Reconcile = Reconcile E, ctl_MaxConcurrent = 1\<rparr>"

definition scController :: "'w env \<Rightarrow> string \<Rightarrow> 'w controller" where
  "scController E ns =
     \<lparr>ctl_Watches =
        [watchOf KStorageClass EnqueueForObject (Ok \<circ> scPredicate),
         watchOf KFsc (total (fscStorageClassMap E)) (Ok \<circ> IgnoreUpdateAndGenericPredicate),
         watchOf KConfigMap (total (ConfigMapToStorageClassMapFunc E)) (Ok \<circ> RunDeletePredicate),
         watchOf KSecret (total (secretStorageClassMap E)) SecretMgmtAddrPredicate],
      ctl_Reconcile = ScReconcile E ns, ctl_MaxConcurrent = 1\<rparr>"

definition pvController :: "'w env \<Rightarrow> 'w controller" where
  "pvController E =
     \<lparr>ctl_Watches =
        [watchOf KPv EnqueueForObject (Ok \<circ> pvPredicate),
         watchOf KFsc (total (pvMap E)) (Ok \<circ> IgnoreUpdateAndGenericPredicate),
         watchOf KSecret (total (pvMap E)) SecretMgmtAddrPredicate],
      ctl_Reconcile = PvReconcile E, ctl_MaxConcurrent = 1\<rparr>"

text \<open>The cluster version controller sets no options; the default of the library is one worker.\<close>

definition cvController :: "'w env \<Rightarrow> 'w upsert \<Rightarrow> setref \<Rightarrow> 64 word \<Rightarrow> 'w controller" where
  "cvController E upsert setRef port =
     \<lparr>ctl_Watches = [watchOf KClusterVersion EnqueueForObject always],
      ctl_Reconcile = CvReconcile E upsert setRef port, ctl_MaxConcurrent = 1\<rparr>"

section \<open>Discovery of the CSI resource\<close>

record APIResource =
  ar_Name :: string
  ar_Kind :: string

record GroupVersionResource =
  gvr_Group :: string
  gvr_Version :: string
  gvr_Resource :: string

text \<open>How a function the manager runs ends: it returns, it returns an error, or the process exits or panics.\<close>

datatype outcome = RunOk | RunErr goerr | RunExit int | RunPanic string

text \<open>The options \<^verbatim>\<open>main\<close> gives to the manager.\<close>

record managerOptions =
  mo_MetricsBindAddress :: string
  mo_WebhookPort :: int
  mo_HealthProbeBindAddress :: string
  mo_LeaderElection :: bool
  mo_LeaderElectionID :: string

record 'w manager =
  newDiscovery :: "goerr + unit"
  serverResources :: "string \<Rightarrow> goerr + APIResource list"
  newDynamic :: "goerr + unit"
  newManager :: "managerOptions \<Rightarrow> ('w, goerr + unit) oper"
  completeCtl :: "'w controller \<Rightarrow> ('w, goerr + unit) oper"
  addRunnable :: "('w, outcome) oper \<Rightarrow> ('w, goerr + unit) oper"
  addCheck :: "string \<Rightarrow> ('w, goerr + unit) oper"
  start :: "('w, outcome) oper"
  addToScheme :: "string \<Rightarrow> goerr + unit"
  builderAddToScheme :: "string \<times> string \<Rightarrow> string list \<Rightarrow> goerr + unit"
  otherFlags :: flagset

fun findResource :: "GroupVersionKind \<Rightarrow> APIResource list \<Rightarrow> APIResource option" where
  "findResource gvk [] = None"
| "findResource gvk (r # rs) =
     (if ar_Kind r = gvk_Kind gvk \<and> CHR ''/'' \<notin> set (ar_Name r) then Some r else findResource gvk rs)"

definition GetIBMBlockCSIDynamicClient :: "'w manager \<Rightarrow> goerr + GroupVersionResource" where
  "GetIBMBlockCSIDynamicClient M =
     (let gvk = getFlashSystemCSIOperatorResource in
      case newDiscovery M of
        Inl e \<Rightarrow> Inl (FmtError (''unable to create discovery client, err:'' @ errText e))
      | Inr _ \<Rightarrow>
          (case serverResources M (gvk_Group gvk @ ''/'' @ gvk_Version gvk) of
             Inl e \<Rightarrow> Inl (FmtError (''failed to get resource list, err:'' @ errText e))
           | Inr resList \<Rightarrow>
               (case findResource gvk resList of
                  None \<Rightarrow> Inl (FmtError ''unable to find the resource'')
                | Some res \<Rightarrow>
                    (case newDynamic M of
                       Inl e \<Rightarrow> Inl (FmtError (''unalble to create dynamic client:'' @ errText e))
                     | Inr _ \<Rightarrow> Inr \<lparr>gvr_Group = gvk_Group gvk, gvr_Version = gvk_Version gvk, gvr_Resource = ar_Name res\<rparr>))))"

section \<open>Setting up the controllers\<close>

text \<open>The field \<^verbatim>\<open>ExporterImage\<close> the source sets here is not read anywhere.\<close>

definition FscSetupWithManager :: "'w env \<Rightarrow> 'w manager \<Rightarrow> ('w, goerr + unit) oper" where
  "FscSetupWithManager E M =
     (case GetWatchNamespace E of
        Inl e \<Rightarrow> ret (Inl e)
      | Inr ns \<Rightarrow> do {
          State_Monad.update (\<lambda>s. s\<lparr>watchNamespace := ns\<rparr>);
          (case GetExporterImage E of
             Inl e \<Rightarrow> ret (Inl e)
           | Inr exporterImage \<Rightarrow> completeCtl M (fscController E))
        })"

definition ScSetupWithManager :: "'w env \<Rightarrow> 'w manager \<Rightarrow> string \<Rightarrow> ('w, goerr + unit) oper" where
  "ScSetupWithManager E M ns = completeCtl M (scController E ns)"

definition PvSetupWithManager :: "'w env \<Rightarrow> 'w manager \<Rightarrow> ('w, goerr + unit) oper" where
  "PvSetupWithManager E M = completeCtl M (pvController E)"

fun outcomeOf :: "unit res \<Rightarrow> outcome" where
  "outcomeOf (Ok _) = RunOk"
| "outcomeOf (Err e) = RunErr e"
| "outcomeOf (Panic p) = RunPanic p"

definition CvSetupWithManager :: "'w env \<Rightarrow> 'w manager \<Rightarrow> 'w upsert \<Rightarrow> setref \<Rightarrow> 64 word \<Rightarrow> ('w, goerr + unit) oper" where
  "CvSetupWithManager E M upsert setRef port = do {
     err \<leftarrow> addRunnable M (do { r \<leftarrow> consoleRunnable E upsert setRef port; ret (outcomeOf r) });
     (case err of Inl e \<Rightarrow> ret (Inl e) | Inr _ \<Rightarrow> completeCtl M (cvController E upsert setRef port))
   }"

section \<open>The start of the process: \<open>main.go\<close>\<close>

text \<open>The function \<^verbatim>\<open>main\<close> gives to the manager: an error ends the process.\<close>

definition enableRunnable :: "'w env \<Rightarrow> ('w, outcome) oper" where
  "enableRunnable E = do {
     r \<leftarrow> EnableIBMConsoleByDefault E;
     (case r of Inl e \<Rightarrow> ret (RunExit 1) | Inr _ \<Rightarrow> ret RunOk)
   }"

text \<open>\<^verbatim>\<open>if err != nil { log; os.Exit(1) }\<close> after a step, and then the rest.\<close>

definition orExit :: "('w, goerr + unit) oper \<Rightarrow> ('w, outcome) oper \<Rightarrow> ('w, outcome) oper" where
  "orExit m k = do { r \<leftarrow> m; (case r of Inl e \<Rightarrow> ret (RunExit 1) | Inr _ \<Rightarrow> k) }"

definition optionsOf :: "flags \<Rightarrow> managerOptions" where
  "optionsOf F = \<lparr>mo_MetricsBindAddress = metricsAddr F, mo_WebhookPort = 9443, mo_HealthProbeBindAddress = probeAddr F,
     mo_LeaderElection = enableLeaderElection F, mo_LeaderElectionID = ''07346adf.ibm.com''\<rparr>"

text \<open>After the flags: \<^verbatim>\<open>RunOk\<close> is the return of \<^verbatim>\<open>main\<close>, exit code 0. The console plugin is removed last, and an error of that is only logged.\<close>

definition mainStart :: "'w env \<Rightarrow> 'w manager \<Rightarrow> string \<Rightarrow> ('w, outcome) oper" where
  "mainStart E M ns = do {
     r \<leftarrow> start M;
     (case r of
        RunErr e \<Rightarrow> ret (RunExit 1)
      | RunOk \<Rightarrow> do { x \<leftarrow> RemoveConsole E ns; ret RunOk }
      | RunExit n \<Rightarrow> ret (RunExit n)
      | RunPanic p \<Rightarrow> ret (RunPanic p))
   }"

definition main :: "'w env \<Rightarrow> 'w manager \<Rightarrow> 'w upsert \<Rightarrow> setref \<Rightarrow> flags \<Rightarrow> ('w, outcome) oper" where
  "main E M upsert setRef F =
     (case GetWatchNamespace E of
        Inl e \<Rightarrow> ret (RunExit 1)
      | Inr ns \<Rightarrow>
          orExit (newManager M (optionsOf F))
          (case GetIBMBlockCSIDynamicClient M of
             Inl e \<Rightarrow> ret (RunExit 1)
           | Inr dynamicClient \<Rightarrow> do {
               State_Monad.update (\<lambda>s. s\<lparr>IsCSICRCreated := False\<rparr>);
               orExit (FscSetupWithManager E M)
               (orExit (ScSetupWithManager E M ns)
               (orExit (CvSetupWithManager E M upsert setRef (consolePort F))
               (orExit (PvSetupWithManager E M)
               (orExit (addRunnable M (enableRunnable E))
               (orExit (addCheck M ''healthz'')
               (orExit (addCheck M ''readyz'')
               (mainStart E M ns)))))))
             }))"

text \<open>
  The process: the initialisation of the packages registers the types of six API groups in the scheme
  (\<^verbatim>\<open>utilruntime.Must\<close> panics on an error), then the flags are parsed, where a bad command line ends the process, and
  \<^verbatim>\<open>main\<close> goes on. The types of the operator's own group come from the \<^verbatim>\<open>init\<close> of \<^verbatim>\<open>api/v1alpha1\<close>.
\<close>

definition GroupVersion :: "string \<times> string" where
  "GroupVersion = (''odf.ibm.com'', ''v1alpha1'')"

definition registeredTypes :: "string list" where
  "registeredTypes = [''FlashSystemCluster'', ''FlashSystemClusterList'']"

definition AddToScheme :: "'w manager \<Rightarrow> goerr + unit" where
  "AddToScheme M = builderAddToScheme M GroupVersion registeredTypes"

definition initScheme :: "'w manager \<Rightarrow> (goerr + unit) list" where
  "initScheme M = [addToScheme M ''clientgoscheme'', addToScheme M ''monitoringv1'', AddToScheme M,
     addToScheme M ''consolev1'', addToScheme M ''configv1'', addToScheme M ''operatorv1'']"

fun mustAll :: "(goerr + unit) list \<Rightarrow> goerr option" where
  "mustAll [] = None"
| "mustAll (Inl e # rs) = Some e"
| "mustAll (Inr _ # rs) = mustAll rs"

definition process :: "'w env \<Rightarrow> 'w manager \<Rightarrow> 'w upsert \<Rightarrow> setref \<Rightarrow> string list \<Rightarrow> ('w, outcome) oper" where
  "process E M upsert setRef args =
     (case mustAll (initScheme M) of
        Some e \<Rightarrow> ret (RunPanic (errText e))
      | None \<Rightarrow>
          (case parseFlags (otherFlags M) defaultFlags args of
             Inl n \<Rightarrow> ret (RunExit n)
           | Inr F \<Rightarrow> main E M upsert setRef F))"

section \<open>What a start guarantees\<close>

definition isResource :: "APIResource \<Rightarrow> bool" where
  "isResource r \<longleftrightarrow> ar_Kind r = ''IBMBlockCSI'' \<and> CHR ''/'' \<notin> set (ar_Name r)"

lemma findResource_first:
  "case findResource getFlashSystemCSIOperatorResource rs of
     Some r \<Rightarrow> \<exists>us vs. rs = us @ r # vs \<and> isResource r \<and> \<not> list_ex isResource us
   | None \<Rightarrow> \<not> list_ex isResource rs"
proof (induction rs)
  case (Cons r rs)
  show ?case
  proof (cases "isResource r")
    case True
    then have "findResource getFlashSystemCSIOperatorResource (r # rs) = Some r"
      by (simp add: isResource_def getFlashSystemCSIOperatorResource_def)
    with True show ?thesis by (auto intro: exI [of _ "[] :: APIResource list"])
  next
    case False
    then have "findResource getFlashSystemCSIOperatorResource (r # rs) = findResource getFlashSystemCSIOperatorResource rs"
      by (auto simp: isResource_def getFlashSystemCSIOperatorResource_def)
    moreover have "\<exists>us' vs. r # rs = us' @ x # vs \<and> isResource x \<and> \<not> list_ex isResource us'"
      if "rs = us @ x # vs" "isResource x" "\<not> list_ex isResource us" for us x vs
      using that False by (intro exI [of _ "r # us"] exI [of _ vs]) simp
    ultimately show ?thesis
      using Cons False by (auto split: option.splits simp del: findResource.simps)
  qed
qed simp

text \<open>
  The discovery of the CSI resource yields a client for the first resource of the list that has the
  kind of the CSI driver's custom resource and is not a subresource; it is an error if there is none.
\<close>

theorem GetIBMBlockCSIDynamicClient_first:
  assumes "newDiscovery M = Inr ()" "newDynamic M = Inr ()" "serverResources M ''csi.ibm.com/v1'' = Inr rs"
  shows "(case GetIBMBlockCSIDynamicClient M of
      Inr g \<Rightarrow> \<exists>us r vs. rs = us @ r # vs \<and> isResource r \<and> \<not> list_ex isResource us \<and>
        g = \<lparr>gvr_Group = ''csi.ibm.com'', gvr_Version = ''v1'', gvr_Resource = ar_Name r\<rparr>
    | Inl e \<Rightarrow> \<not> list_ex isResource rs)"
proof -
  let ?gvk = getFlashSystemCSIOperatorResource
  have gvk: "gvk_Group ?gvk = ''csi.ibm.com''" "gvk_Version ?gvk = ''v1''"
    by (simp_all add: getFlashSystemCSIOperatorResource_def)
  from assms show ?thesis
    using findResource_first [of rs]
    by (auto simp: GetIBMBlockCSIDynamicClient_def gvk Let_def split: option.splits)
qed

text \<open>
  The manager does not write the operator's own variables: the package variable is not exported and the
  reconciler's field is written by the operator alone.
\<close>

definition keepsOwn :: "('w, 'a) oper \<Rightarrow> bool" where
  "keepsOwn m \<longleftrightarrow> (\<forall>s. watchNamespace (snd (run_state m s)) = watchNamespace s \<and>
     IsCSICRCreated (snd (run_state m s)) = IsCSICRCreated s)"

definition manager_laws :: "'w manager \<Rightarrow> bool" where
  "manager_laws M \<longleftrightarrow> (\<forall>opts. keepsOwn (newManager M opts)) \<and> (\<forall>c. keepsOwn (completeCtl M c)) \<and>
     (\<forall>r. keepsOwn (addRunnable M r)) \<and> (\<forall>n. keepsOwn (addCheck M n))"

lemma wp_orExit:
  assumes "keepsOwn m" and "\<And>t. Q (RunExit 1) t"
    and "\<And>t. watchNamespace t = watchNamespace s \<Longrightarrow> IsCSICRCreated t = IsCSICRCreated s \<Longrightarrow> wpre k Q t"
  shows "wpre (orExit m k) Q s"
proof -
  obtain r t where run: "run_state m s = (r, t)" by fastforce
  with assms(1) have "watchNamespace t = watchNamespace s" "IsCSICRCreated t = IsCSICRCreated s"
    by (metis keepsOwn_def snd_conv)+
  with assms(2,3) run show ?thesis
    by (cases r) (auto simp: orExit_def wpre_def)
qed

lemma keepsOwn_bind: "keepsOwn m \<Longrightarrow> (\<And>a. keepsOwn (f a)) \<Longrightarrow> keepsOwn (State_Monad.bind m f)"
  by (simp add: keepsOwn_def split: prod.splits) (metis snd_conv)

lemma keepsOwn_ret: "keepsOwn (ret x)"
  by (simp add: keepsOwn_def)

lemma keepsOwn_setup:
  assumes "manager_laws M"
  shows "keepsOwn (ScSetupWithManager E M ns)" "keepsOwn (PvSetupWithManager E M)" "keepsOwn (CvSetupWithManager E M up sr port)"
    "keepsOwn (newManager M opts)" "keepsOwn (addRunnable M r)" "keepsOwn (addCheck M n)"
  using assms
  by (auto simp: manager_laws_def ScSetupWithManager_def PvSetupWithManager_def CvSetupWithManager_def
      intro!: keepsOwn_bind keepsOwn_ret split: sum.split)

text \<open>The set-up of the FlashSystemCluster controller is the one step that writes the package variable.\<close>

lemma wp_FscSetup:
  assumes laws: "manager_laws M" and ns: "lookupEnv E WatchNamespaceEnvVar = Some ns"
    and Exit: "\<And>t. Q (RunExit 1) t"
    and Next: "\<And>t img. watchNamespace t = ns \<Longrightarrow> IsCSICRCreated t = IsCSICRCreated s \<Longrightarrow>
      lookupEnv E ExporterImageEnvVar = Some img \<Longrightarrow> wpre k Q t"
  shows "wpre (orExit (FscSetupWithManager E M) k) Q s"
proof (cases "lookupEnv E ExporterImageEnvVar")
  case None
  with ns Exit show ?thesis
    by (simp add: orExit_def FscSetupWithManager_def GetWatchNamespace_def GetExporterImage_def wp)
next
  case (Some img)
  have "wpre (orExit (completeCtl M (fscController E)) k) Q (s\<lparr>watchNamespace := ns\<rparr>)"
    by (rule wp_orExit) (use laws Exit Next [OF _ _ Some] in \<open>auto simp: manager_laws_def\<close>)
  with Some ns show ?thesis
    by (simp add: orExit_def FscSetupWithManager_def GetWatchNamespace_def GetExporterImage_def wp)
qed

definition startedWell :: "'w env \<Rightarrow> 'w manager \<Rightarrow> 'w st \<Rightarrow> bool" where
  "startedWell E M t \<longleftrightarrow> (\<exists>ns img s' u. lookupEnv E WatchNamespaceEnvVar = Some ns \<and>
     lookupEnv E ExporterImageEnvVar = Some img \<and> watchNamespace s' = ns \<and> \<not> IsCSICRCreated s' \<and>
     run_state (start M) s' = (RunOk, u) \<and> t = snd (run_state (RemoveConsole E ns) u))"

lemma wp_mainStart:
  assumes "lookupEnv E WatchNamespaceEnvVar = Some ns" "lookupEnv E ExporterImageEnvVar = Some img"
    and "watchNamespace s = ns" "\<not> IsCSICRCreated s"
  shows "wpre (mainStart E M ns) (\<lambda>r t. r = RunOk \<longrightarrow> startedWell E M t) s"
proof -
  obtain r u where run: "run_state (start M) s = (r, u)" by fastforce
  show ?thesis
  proof (cases r)
    case RunOk
    with run assms have "startedWell E M (snd (run_state (RemoveConsole E ns) u))"
      unfolding startedWell_def by blast
    with run RunOk show ?thesis
      by (auto simp: mainStart_def wpre_def split: prod.splits)
  qed (simp_all add: mainStart_def wpre_def run)
qed

lemma main_started:
  assumes "manager_laws M" and "run_state (main E M upsert setRef F) s = (RunOk, t)"
  shows "startedWell E M t"
proof -
  let ?Q = "\<lambda>r t. r = RunOk \<longrightarrow> startedWell E M t"
  have "wpre (main E M upsert setRef F) ?Q s"
  proof (cases "lookupEnv E WatchNamespaceEnvVar")
    case None
    then show ?thesis by (simp add: main_def GetWatchNamespace_def wp)
  next
    case ns: (Some ns)
    note steps = keepsOwn_setup [OF assms(1)]
    have rest: "wpre (orExit (FscSetupWithManager E M)
        (orExit (ScSetupWithManager E M ns)
        (orExit (CvSetupWithManager E M upsert setRef (consolePort F))
        (orExit (PvSetupWithManager E M)
        (orExit (addRunnable M (enableRunnable E))
        (orExit (addCheck M ''healthz'')
        (orExit (addCheck M ''readyz'') (mainStart E M ns)))))))) ?Q u" if "\<not> IsCSICRCreated u" for u
      by (rule wp_FscSetup [OF assms(1) ns], simp, (rule wp_orExit, rule steps, simp)+)
        (rule wp_mainStart [OF ns], insert that, simp_all)
    show ?thesis
      unfolding main_def GetWatchNamespace_def ns option.case sum.case
      by (rule wp_orExit [OF steps(4)]) (simp_all add: wp rest split: sum.split)
  qed
  from wp_runD [OF this assms(2)] show ?thesis by simp
qed


section \<open>The watches bring a lost object back\<close>

text \<open>What a deleted object wakes: the requests of every map function that watches its kind and lets the event pass.\<close>

definition woken :: "kobj \<Rightarrow> 'w st \<Rightarrow> 'w watch \<Rightarrow> request list" where
  "woken x s y =
     (if w_Kind y = kindOf x \<and> w_Pred y (DeleteEvent x) = Ok True then
        (case w_Handler y of
           EnqueueMap f \<Rightarrow> (case fst (run_state (f x) s) of Ok rs \<Rightarrow> rs | _ \<Rightarrow> [])
         | _ \<Rightarrow> [])
      else [])"

definition wakes :: "'w controller \<Rightarrow> kobj \<Rightarrow> 'w st \<Rightarrow> request set" where
  "wakes c x s = set (concat (map (woken x s) (ctl_Watches c)))"

lemma woken_simps [simp]:
  "woken x s (watchOf k (total f) p) = (if k = kindOf x \<and> p (DeleteEvent x) = Ok True then fst (run_state (f x) s) else [])"
  "woken x s (watchOf k EnqueueForObject p) = []" "woken x s (watchOf k (EnqueueForOwner o') p) = []"
  "k \<noteq> kindOf x \<Longrightarrow> woken x s (watchOf k h p) = []"
  by (auto simp: woken_def watchOf_def total_def split: prod.splits)

lemma listed_all:
  assumes "api_laws E v" "fst (api E (RList k None []) (world s)) = RItems xs"
    and "\<And>x. kindOf x = k \<Longrightarrow> proj x \<noteq> None"
  obtains ys where "fst (run_state (listAs E proj k None []) s) = Inr ys"
    "\<And>y. y \<in> set ys \<longleftrightarrow> (\<exists>x. proj x = Some y \<and> kindOf x = k \<and> v (world s) (keyOf x) = Some x)"
proof -
  obtain w where a: "api E (RList k None []) (world s) = (RItems xs, w)"
    using assms(2) by (metis prod.collapse)
  from api_lawsD(2) [OF assms(1) a]
  have xs: "x \<in> set xs \<longleftrightarrow> kindOf x = k \<and> v (world s) (keyOf x) = Some x" for x
    by (simp add: selects_def)
  then have "list_all (\<lambda>x. proj x \<noteq> None) xs"
    using assms(3) by (simp add: list_all_iff)
  moreover have "y \<in> set (map (the \<circ> proj) xs) \<longleftrightarrow>
      (\<exists>x. proj x = Some y \<and> kindOf x = k \<and> v (world s) (keyOf x) = Some x)" for y
    using xs assms(3) by (force simp: image_iff)
  moreover from calculation(1) have "fst (run_state (listAs E proj k None []) s) = Inr (map (the \<circ> proj) xs)"
    by (simp add: listAs_def call_def a decodeItems_def)
  ultimately show thesis by (intro that)
qed

text \<open>
  C36: A deleted pools ConfigMap is rebuilt: its deletion wakes the FlashSystemCluster controller for
  every cluster there is and the storage class watcher for every storage class of the block CSI driver,
  and for nothing else, as long as the server answers their list requests.
\<close>

theorem pools_deleted_wakes:
  assumes "api_laws E v" and "om_Name (cm_Meta cm) = PoolConfigmapName"
    and "fst (api E (RList KFsc None []) (world s)) = RItems xs"
    and "fst (api E (RList KStorageClass None []) (world s)) = RItems ys"
  shows "wakes (fscController E) (OConfigMap cm) s =
      {reqOf (fsc_Meta c) | c. v (world s) (keyOf (OFsc c)) = Some (OFsc c)} \<and>
    wakes (scController E ns) (OConfigMap cm) s =
      {reqOf (sc_Meta d) | d. v (world s) (keyOf (OStorageClass d)) = Some (OStorageClass d) \<and>
         sc_Provisioner d = CsiIBMBlockDriver}"
proof
  obtain cs where cs: "fst (run_state (listAs E asFsc KFsc None []) s) = Inr cs"
    "\<And>c. c \<in> set cs \<longleftrightarrow> (\<exists>x. asFsc x = Some c \<and> kindOf x = KFsc \<and> v (world s) (keyOf x) = Some x)"
    by (rule listed_all [OF assms(1,3), where proj = asFsc]) (auto elim: kindOf.elims)
  then have "fst (run_state (ConfigMapToClusterMapFunc E (OConfigMap cm)) s) = map (\<lambda>c. reqOf (fsc_Meta c)) cs"
    using assms(2) by (auto simp: ConfigMapToClusterMapFunc_def split: prod.splits)
  then have "wakes (fscController E) (OConfigMap cm) s = (\<lambda>c. reqOf (fsc_Meta c)) ` set cs"
    by (simp add: wakes_def fscController_def)
  with cs(2) show "wakes (fscController E) (OConfigMap cm) s =
      {reqOf (fsc_Meta c) | c. v (world s) (keyOf (OFsc c)) = Some (OFsc c)}" by auto
next
  obtain ds where ds: "fst (run_state (listAs E asStorageClass KStorageClass None []) s) = Inr ds"
    "\<And>d. d \<in> set ds \<longleftrightarrow> (\<exists>x. asStorageClass x = Some d \<and> kindOf x = KStorageClass \<and> v (world s) (keyOf x) = Some x)"
    by (rule listed_all [OF assms(1,4), where proj = asStorageClass]) (auto elim: kindOf.elims)
  then have "fst (run_state (ConfigMapToStorageClassMapFunc E (OConfigMap cm)) s) = blockClassRequests ds"
    using assms(2) by (auto simp: ConfigMapToStorageClassMapFunc_def split: prod.splits)
  then have "wakes (scController E ns) (OConfigMap cm) s = set (blockClassRequests ds)"
    by (simp add: wakes_def scController_def)
  with ds(2) show "wakes (scController E ns) (OConfigMap cm) s =
      {reqOf (sc_Meta d) | d. v (world s) (keyOf (OStorageClass d)) = Some (OStorageClass d) \<and>
         sc_Provisioner d = CsiIBMBlockDriver}" by (auto simp: blockClassRequests_def)
qed

lemma defaultPoolRequests_cases:
  "case defaultPoolRequests n cs of
     Ok rs \<Rightarrow> (\<forall>c \<in> set cs. fs_DefaultPool (fsc_Spec c) \<noteq> None) \<and>
       set rs = {reqOf (fsc_Meta c) | c. c \<in> set cs \<and> map_option scc_StorageClassName (fs_DefaultPool (fsc_Spec c)) = Some n}
   | Err e \<Rightarrow> False
   | Panic p \<Rightarrow> \<exists>c \<in> set cs. fs_DefaultPool (fsc_Spec c) = None"
proof (induction cs)
  case (Cons c cs)
  then show ?case
    by (cases "defaultPoolRequests n cs"; cases "fs_DefaultPool (fsc_Spec c)") auto
qed simp

text \<open>
  C37: The deletion of a storage class wakes exactly the clusters that name it as their default class. The
  mapper relies on every cluster of the system having a default pool, which the resource
  makes optional: it panics if, and only if, one of them has none.
\<close>

theorem default_class_mapper:
  assumes "api_laws E v" and "fst (api E (RList KFsc None []) (world s)) = RItems xs"
  shows "(case fst (run_state (DefaultStorageClassToClusterMapperFunc E x) s) of
      Ok rs \<Rightarrow> (\<forall>c. v (world s) (keyOf (OFsc c)) = Some (OFsc c) \<longrightarrow> fs_DefaultPool (fsc_Spec c) \<noteq> None) \<and>
        set rs = {reqOf (fsc_Meta c) | c. v (world s) (keyOf (OFsc c)) = Some (OFsc c) \<and>
          map_option scc_StorageClassName (fs_DefaultPool (fsc_Spec c)) = Some (om_Name (metaOf x))}
    | Err e \<Rightarrow> False
    | Panic p \<Rightarrow> \<exists>c. v (world s) (keyOf (OFsc c)) = Some (OFsc c) \<and> fs_DefaultPool (fsc_Spec c) = None)"
proof -
  obtain cs where cs: "fst (run_state (listAs E asFsc KFsc None []) s) = Inr cs"
    "\<And>c. c \<in> set cs \<longleftrightarrow> (\<exists>x. asFsc x = Some c \<and> kindOf x = KFsc \<and> v (world s) (keyOf x) = Some x)"
    by (rule listed_all [OF assms, where proj = asFsc]) (auto elim: kindOf.elims)
  then have "fst (run_state (DefaultStorageClassToClusterMapperFunc E x) s) = defaultPoolRequests (om_Name (metaOf x)) cs"
    by (auto simp: DefaultStorageClassToClusterMapperFunc_def split: prod.splits)
  with defaultPoolRequests_cases [where n = "om_Name (metaOf x)" and cs = cs] cs(2) show ?thesis
    by (auto split: res.splits)
qed

text \<open>
  A change of a secret wakes exactly the clusters whose specification names it, by name and namespace.
\<close>

theorem secret_mapper:
  assumes "api_laws E v" and "fst (api E (RList KFsc None []) (world s)) = RItems xs"
  shows "set (fst (run_state (SecretToClusterMapFunc E x) s)) =
    {reqOf (fsc_Meta c) | c. v (world s) (keyOf (OFsc c)) = Some (OFsc c) \<and>
       fs_Secret (fsc_Spec c) = \<lparr>sr_Name = om_Name (metaOf x), sr_Namespace = om_Namespace (metaOf x)\<rparr>}"
proof -
  obtain cs where cs: "fst (run_state (listAs E asFsc KFsc None []) s) = Inr cs"
    "\<And>c. c \<in> set cs \<longleftrightarrow> (\<exists>x. asFsc x = Some c \<and> kindOf x = KFsc \<and> v (world s) (keyOf x) = Some x)"
    by (rule listed_all [OF assms, where proj = asFsc]) (auto elim: kindOf.elims)
  have same: "sr_Name r = n \<and> sr_Namespace r = m \<longleftrightarrow> r = \<lparr>sr_Name = n, sr_Namespace = m\<rparr>" for r :: SecretReference and n m
    by (cases r) auto
  from cs(1) have "fst (run_state (SecretToClusterMapFunc E x) s) = map (\<lambda>c. reqOf (fsc_Meta c))
      (filter (\<lambda>c. fs_Secret (fsc_Spec c) = \<lparr>sr_Name = om_Name (metaOf x), sr_Namespace = om_Namespace (metaOf x)\<rparr>) cs)"
    by (auto simp: SecretToClusterMapFunc_def same split: prod.splits)
  with cs(2) show ?thesis by auto
qed

section \<open>Concrete runs\<close>

definition sampleManager :: "store manager" where
  "sampleManager = \<lparr>newDiscovery = Inr (),
     serverResources = (\<lambda>gv. Inr [\<lparr>ar_Name = ''ibmblockcsis/status'', ar_Kind = ''IBMBlockCSI''\<rparr>,
       \<lparr>ar_Name = ''ibmblockcsis'', ar_Kind = ''IBMBlockCSI''\<rparr>]),
     newDynamic = Inr (), newManager = (\<lambda>opts. ret (Inr ())), completeCtl = (\<lambda>c. ret (Inr ())), addRunnable = (\<lambda>r. ret (Inr ())),
     addCheck = (\<lambda>n. ret (Inr ())), start = enableRunnable storeEnv, addToScheme = (\<lambda>n. Inr ()),
     builderAddToScheme = (\<lambda>gv ts. Inr ()), otherFlags = (\<lambda>n. None)\<rparr>"

definition sampleEnv :: "store env" where
  "sampleEnv = storeEnv\<lparr>lookupEnv := \<lambda>_. Some ''ns''\<rparr>"

theorem GetIBMBlockCSIDynamicClient_first_witness:
  "\<exists>g us r vs. GetIBMBlockCSIDynamicClient sampleManager = Inr g \<and>
     [\<lparr>ar_Name = ''ibmblockcsis/status'', ar_Kind = ''IBMBlockCSI''\<rparr>, \<lparr>ar_Name = ''ibmblockcsis'', ar_Kind = ''IBMBlockCSI''\<rparr>] = us @ r # vs \<and>
     gvr_Resource g = ar_Name r"
proof -
  have "newDiscovery sampleManager = Inr ()" "newDynamic sampleManager = Inr ()"
    "serverResources sampleManager ''csi.ibm.com/v1'' = Inr [\<lparr>ar_Name = ''ibmblockcsis/status'', ar_Kind = ''IBMBlockCSI''\<rparr>,
       \<lparr>ar_Name = ''ibmblockcsis'', ar_Kind = ''IBMBlockCSI''\<rparr>]"
    by (simp_all add: sampleManager_def)
  from GetIBMBlockCSIDynamicClient_first [OF this] show ?thesis
    by (auto simp: isResource_def split: sum.splits) blast
qed


lemma demo_lists:
  "fst (api storeEnv (RList KFsc None []) (world (demoState demoWorld))) = RItems [OFsc demoFsc]"
  "fst (api storeEnv (RList KStorageClass None []) (world (demoState demoWorld))) = RItems [OStorageClass demoSc]"
  by code_simp+

theorem pools_deleted_wakes_witness:
  "(''ns'', ''fs1'') \<in> wakes (fscController storeEnv) (OConfigMap demoPools) (demoState demoWorld) \<and>
   ([], ''sc1'') \<in> wakes (scController storeEnv ''ns'') (OConfigMap demoPools) (demoState demoWorld)"
proof -
  have facts: "om_Name (cm_Meta demoPools) = PoolConfigmapName"
    "storeView (world (demoState demoWorld)) (keyOf (OFsc demoFsc)) = Some (OFsc demoFsc)"
    "storeView (world (demoState demoWorld)) (keyOf (OStorageClass demoSc)) = Some (OStorageClass demoSc)"
    "sc_Provisioner demoSc = CsiIBMBlockDriver" "reqOf (fsc_Meta demoFsc) = (''ns'', ''fs1'')" "reqOf (sc_Meta demoSc) = ([], ''sc1'')"
    by code_simp+
  note eqs = pools_deleted_wakes [OF storeEnv_laws facts(1) demo_lists, of "''ns''"]
  have "reqOf (fsc_Meta demoFsc) \<in> wakes (fscController storeEnv) (OConfigMap demoPools) (demoState demoWorld)"
    unfolding eqs [THEN conjunct1] using facts(2) by blast
  moreover have "reqOf (sc_Meta demoSc) \<in> wakes (scController storeEnv ''ns'') (OConfigMap demoPools) (demoState demoWorld)"
    unfolding eqs [THEN conjunct2] using facts(3,4) by blast
  ultimately show ?thesis by (simp only: facts(5,6) simp_thms)
qed

theorem default_class_mapper_witness:
  "\<exists>rs. fst (run_state (DefaultStorageClassToClusterMapperFunc storeEnv (OStorageClass demoSc)) (demoState demoWorld)) = Ok rs \<and>
     (''ns'', ''fs1'') \<in> set rs"
proof -
  have run: "fst (run_state (DefaultStorageClassToClusterMapperFunc storeEnv (OStorageClass demoSc)) (demoState demoWorld)) = Ok [(''ns'', ''fs1'')]"
    by code_simp
  have facts: "storeView (world (demoState demoWorld)) (keyOf (OFsc demoFsc)) = Some (OFsc demoFsc)"
    "map_option scc_StorageClassName (fs_DefaultPool (fsc_Spec demoFsc)) = Some (om_Name (metaOf (OStorageClass demoSc)))"
    "reqOf (fsc_Meta demoFsc) = (''ns'', ''fs1'')"
    by code_simp+
  note eq = default_class_mapper [OF storeEnv_laws demo_lists(1), of "OStorageClass demoSc", unfolded run res.case, THEN conjunct2]
  have "reqOf (fsc_Meta demoFsc) \<in> set [(''ns'', ''fs1'')]"
    unfolding eq using facts(1,2) by blast
  with run show ?thesis by (simp add: facts(3))
qed

theorem secret_mapper_witness:
  "(''ns'', ''fs1'') \<in> set (fst (run_state (SecretToClusterMapFunc storeEnv (OSecret demoSecret)) (demoState demoWorld)))"
proof -
  have facts: "storeView (world (demoState demoWorld)) (keyOf (OFsc demoFsc)) = Some (OFsc demoFsc)"
    "fs_Secret (fsc_Spec demoFsc) = \<lparr>sr_Name = om_Name (metaOf (OSecret demoSecret)), sr_Namespace = om_Namespace (metaOf (OSecret demoSecret))\<rparr>"
    "reqOf (fsc_Meta demoFsc) = (''ns'', ''fs1'')"
    by code_simp+
  have "reqOf (fsc_Meta demoFsc) \<in> set (fst (run_state (SecretToClusterMapFunc storeEnv (OSecret demoSecret)) (demoState demoWorld)))"
    unfolding secret_mapper [OF storeEnv_laws demo_lists(1)] using facts(1,2) by blast
  then show ?thesis by (simp only: facts(3))
qed

end
