(* ===== verification/Revisions.thy ===== *)
theory Revisions
  imports FscEstablish ScController
begin

text \<open>
  The pools ConfigMap under concurrent writers. Here other clients (the other controller, the exporter, a
  user) may write it between any two calls of a pass, and reads may come from a stale cache. The world
  has a log of the revisions the ConfigMap has had; \<open>rev_laws\<close> is what the API server documents about
  it: resource versions are unique, a read answers some revision, and an update is accepted only as
  the successor of the revision whose version it carries.
\<close>

section \<open>A server with other writers\<close>

text \<open>
  The update \<open>x\<close> was accepted and answered \<open>c\<close> while the log grew from \<open>a\<close> to \<open>b\<close>: others may have written
  before, then \<open>c\<close> follows the revision \<open>z\<close> with the version of \<open>x\<close>, or is \<open>z\<close> itself when \<open>x\<close> changes nothing.
\<close>

definition follows :: "ConfigMap list \<Rightarrow> ConfigMap list \<Rightarrow> ConfigMap \<Rightarrow> ConfigMap \<Rightarrow> bool" where
  "follows b ls z c \<longleftrightarrow> c = z \<and> prefix (ls @ [z]) b \<or> prefix (ls @ [z, c]) b"

definition replaced :: "ConfigMap list \<Rightarrow> ConfigMap list \<Rightarrow> ConfigMap \<Rightarrow> ConfigMap \<Rightarrow> bool" where
  "replaced a b x c \<longleftrightarrow> sameEntries (cm_Data c) (cm_Data x) \<and>
     (\<exists>ls z. prefix a (ls @ [z]) \<and> cmVersion z = cmVersion x \<and> follows b ls z c)"

fun logged :: "string \<Rightarrow> req \<Rightarrow> resp \<Rightarrow> ConfigMap list \<Rightarrow> ConfigMap list \<Rightarrow> bool" where
  "logged ns (RGet k n m) (ROk x) a b \<longleftrightarrow> keyOf x = (k, n, m) \<and>
     (keyOf x = poolKey ns \<longrightarrow> (\<exists>c \<in> set b. x = OConfigMap c))"
| "logged ns (RCreate x) (ROk y) a b \<longleftrightarrow> keyOf y = keyOf x \<and>
     (keyOf x = poolKey ns \<longrightarrow> (\<exists>c \<in> set b. y = OConfigMap c))"
| "logged ns (RUpdate x) (ROk y) a b \<longleftrightarrow> keyOf y = keyOf x \<and>
     (\<forall>x'. x = OConfigMap x' \<longrightarrow> keyOf x = poolKey ns \<longrightarrow> (\<exists>c. y = OConfigMap c \<and> replaced a b x' c))"
| "logged ns q r a b \<longleftrightarrow> True"

definition rev_laws :: "'w env \<Rightarrow> string \<Rightarrow> ('w \<Rightarrow> bool) \<Rightarrow> ('w \<Rightarrow> ConfigMap list) \<Rightarrow> bool" where
  "rev_laws E ns ok log \<longleftrightarrow>
     (\<forall>w. ok w \<longrightarrow> distinct (map cmVersion (log w))) \<and>
     (\<forall>q w. ok w \<longrightarrow> (case api E q w of (r, w') \<Rightarrow> ok w' \<and> prefix (log w) (log w') \<and> logged ns q r (log w) (log w'))) \<and>
     (\<forall>w. ok w \<longrightarrow> ok (snd (timeNow E w)) \<and> prefix (log w) (log (snd (timeNow E w))))"

lemma rev_lawsD:
  assumes "rev_laws E ns ok log" and "ok w"
  shows "distinct (map cmVersion (log w))"
    and "api E q w = (r, w') \<Longrightarrow> ok w' \<and> prefix (log w) (log w') \<and> logged ns q r (log w) (log w')"
    and "timeNow E w = (t, w') \<Longrightarrow> ok w' \<and> prefix (log w) (log w')"
proof -
  note laws = assms(1) [unfolded rev_laws_def]
  from laws assms(2) show "distinct (map cmVersion (log w))" by blast
  from laws assms(2) show "api E q w = (r, w') \<Longrightarrow> ok w' \<and> prefix (log w) (log w') \<and> logged ns q r (log w) (log w')"
    by (metis (mono_tags, lifting) case_prod_conv)
  from laws assms(2) show "timeNow E w = (t, w') \<Longrightarrow> ok w' \<and> prefix (log w) (log w')" by (metis snd_conv)
qed

section \<open>Passes that lose no update\<close>

text \<open>
  \<open>owned ns P b\<close> of an accepted update of the ConfigMap: its answer follows, in the log \<open>b\<close>, the revision it
  was computed from, and the two differ by \<open>P\<close>. \<open>grown\<close> says so of every update between two states.
\<close>

definition owned :: "string \<Rightarrow> (ConfigMap \<Rightarrow> ConfigMap \<Rightarrow> bool) \<Rightarrow> ConfigMap list \<Rightarrow> req \<times> resp \<Rightarrow> bool" where
  "owned ns P b x \<longleftrightarrow>
     (\<forall>u c. x = (RUpdate (OConfigMap u), ROk (OConfigMap c)) \<longrightarrow> keyOf (OConfigMap u) = poolKey ns \<longrightarrow>
        (\<exists>ls z. cmVersion z = cmVersion u \<and> follows b ls z c \<and> P z c))"

definition grown :: "('w \<Rightarrow> bool) \<Rightarrow> ('w \<Rightarrow> ConfigMap list) \<Rightarrow> string \<Rightarrow> (ConfigMap \<Rightarrow> ConfigMap \<Rightarrow> bool) \<Rightarrow> 'w st \<Rightarrow> 'w st \<Rightarrow> bool" where
  "grown ok log ns P s t \<longleftrightarrow> ok (world t) \<and> watchNamespace t = watchNamespace s \<and> prefix (log (world s)) (log (world t)) \<and>
     (\<exists>xs. calls t = calls s @ xs \<and> list_all (owned ns P (log (world t))) xs)"

lemma follows_mono: "follows b ls z c \<Longrightarrow> prefix b b' \<Longrightarrow> follows b' ls z c"
  unfolding follows_def by (meson prefix_order.trans)

lemma owned_mono: "owned ns P b x \<Longrightarrow> prefix b b' \<Longrightarrow> owned ns P b' x"
  unfolding owned_def using follows_mono by blast

lemma grown_refl [simp]: "grown ok log ns P s s \<longleftrightarrow> ok (world s)"
  by (simp add: grown_def)

lemma grown_trans:
  assumes "grown ok log ns P s t" and "grown ok log ns P t u"
  shows "grown ok log ns P s u"
proof -
  from assms obtain xs ys where "calls t = calls s @ xs" "list_all (owned ns P (log (world t))) xs"
    "calls u = calls t @ ys" "list_all (owned ns P (log (world u))) ys" unfolding grown_def by blast
  moreover have "prefix (log (world t)) (log (world u))" using assms by (simp add: grown_def)
  ultimately have "calls u = calls s @ xs @ ys \<and> list_all (owned ns P (log (world u))) (xs @ ys)"
    by (auto simp: list_all_iff intro: owned_mono)
  with assms show ?thesis unfolding grown_def by (metis prefix_order.trans)
qed

text \<open>Every run of \<open>m\<close> from a state of the server is such a growth.\<close>

named_theorems careful_intro

definition careful :: "('w \<Rightarrow> bool) \<Rightarrow> ('w \<Rightarrow> ConfigMap list) \<Rightarrow> string \<Rightarrow> (ConfigMap \<Rightarrow> ConfigMap \<Rightarrow> bool) \<Rightarrow> ('w, 'a) oper \<Rightarrow> bool" where
  "careful ok log ns P m \<longleftrightarrow> (\<forall>s. ok (world s) \<longrightarrow> watchNamespace s = ns \<longrightarrow> wpre m (\<lambda>_. grown ok log ns P s) s)"

lemma carefulD: "careful ok log ns P m \<Longrightarrow> ok (world s) \<Longrightarrow> watchNamespace s = ns \<Longrightarrow> wpre m (\<lambda>_. grown ok log ns P s) s"
  by (simp add: careful_def)

lemma careful_ret [careful_intro]: "careful ok log ns P (ret x)"
  by (simp add: careful_def wp)

lemma wp_grown_after:
  assumes "grown ok log ns P r s" and "wpre m (\<lambda>_. grown ok log ns P s) s"
  shows "wpre m (\<lambda>_. grown ok log ns P r) s"
  by (rule wp_mono [OF assms(2)]) (rule grown_trans [OF assms(1)])

lemma wp_grown:
  assumes "grown ok log ns P r s" and "watchNamespace r = ns" and "careful ok log ns P m"
  shows "wpre m (\<lambda>_. grown ok log ns P r) s"
proof -
  from assms have "ok (world s)" "watchNamespace s = ns" by (simp_all add: grown_def)
  from wp_grown_after [OF assms(1) carefulD [OF assms(3) this]] show ?thesis .
qed

lemma careful_bind [careful_intro]:
  assumes "careful ok log ns P m" and "\<And>a. careful ok log ns P (f a)"
  shows "careful ok log ns P (State_Monad.bind m f)"
  unfolding careful_def wp_bind
  by (intro allI impI) (erule (1) wp_mono [OF carefulD [OF assms(1)]], erule (1) wp_grown, rule assms(2))

lemma careful_call:
  assumes laws: "rev_laws E ns ok log" and q: "\<And>x. q = RUpdate (OConfigMap x) \<Longrightarrow> keyOf (OConfigMap x) \<noteq> poolKey ns"
  shows "careful ok log ns P (call E q)"
  unfolding careful_def wp_call
proof (intro allI impI)
  fix s :: "'a st"
  assume s: "ok (world s)" "watchNamespace s = ns"
  obtain r w where r: "api E q (world s) = (r, w)" by fastforce
  have "owned ns P (log w) (q, r)" using q by (auto simp: owned_def)
  with rev_lawsD(2) [OF laws s(1) r]
  show "case api E q (world s) of (r, w) \<Rightarrow> grown ok log ns P s (afterCall q r w s)"
    by (simp add: grown_def r)
qed

lemma careful_client:
  assumes "rev_laws E ns ok log"
  shows "careful ok log ns P (getAs E proj k n m)" "careful ok log ns P (listAs E proj k nso ls)"
    "careful ok log ns P (createAs E proj x)" "careful ok log ns P (statusUpdateAs E proj x)" "careful ok log ns P (deleteObj E x)"
    "kindOf x \<noteq> KConfigMap \<Longrightarrow> careful ok log ns P (updateAs E proj x)"
  unfolding client_ops by (intro careful_intro careful_call [OF assms]; auto)+

lemma careful_now [careful_intro]: "rev_laws E ns ok log \<Longrightarrow> careful ok log ns P (now E)"
  by (auto simp: careful_def wp_now grown_def dest: rev_lawsD(3) split: prod.splits)

lemma careful_ask [careful_intro]: "careful ok log ns P (askWorld f)" "careful ok log ns P askNamespace" "careful ok log ns P State_Monad.get"
  by (simp_all add: careful_def wp wpre_def askNamespace_def askWorld_def)

lemma careful_flag [careful_intro]: "careful ok log ns P (State_Monad.update (\<lambda>s. s\<lparr>IsCSICRCreated := True\<rparr>))"
  by (simp add: careful_def wpre_def State_Monad.update_def grown_def)

lemma careful_cases [careful_intro]:
  "careful ok log ns P m \<Longrightarrow> careful ok log ns P n \<Longrightarrow> careful ok log ns P (if b then m else n)"
  "(\<And>e. careful ok log ns P (f e)) \<Longrightarrow> (\<And>x. careful ok log ns P (g x)) \<Longrightarrow> careful ok log ns P (case r of Inl e \<Rightarrow> f e | Inr x \<Rightarrow> g x)"
  "careful ok log ns P f0 \<Longrightarrow> (\<And>x. careful ok log ns P (g0 x)) \<Longrightarrow> careful ok log ns P (case r0 of None \<Rightarrow> f0 | Some x \<Rightarrow> g0 x)"
  "(\<And>x. careful ok log ns P (f' x)) \<Longrightarrow> (\<And>e. careful ok log ns P (g' e)) \<Longrightarrow> (\<And>p. careful ok log ns P (h p)) \<Longrightarrow>
   careful ok log ns P (case r' of Ok x \<Rightarrow> f' x | Err e \<Rightarrow> g' e | Panic p \<Rightarrow> h p)"
  "(\<And>x y. careful ok log ns P (j x y)) \<Longrightarrow> careful ok log ns P (case pr of (x, y) \<Rightarrow> j x y)"
  by (simp_all split: sum.splits option.splits res.splits prod.splits)

lemma careful_forErr [careful_intro]: "(\<And>x. careful ok log ns P (f x)) \<Longrightarrow> careful ok log ns P (forErr f xs)"
  by (induction xs) (auto intro!: careful_intro)

end
