(* ===== verification/SampleWriters.thy ===== *)
theory SampleWriters
  imports Revisions
begin

text \<open>
  A server that satisfies \<^const>\<open>rev_laws\<close>: the store of \<^const>\<open>storeApi\<close> with a log of the revisions of the pools
  ConfigMap, and with another client that overwrites its data before each request it is told to. The
  runs under concurrent writers use it.
\<close>

record cstore =
  base :: store
  revs :: "ConfigMap list"
  others :: "(string, string) gomap list"

definition samplePools :: "kobj list \<Rightarrow> ConfigMap option" where
  "samplePools xs = (case lookupObj xs (poolKey ''ns'') of Some (OConfigMap c) \<Rightarrow> Some c | _ \<Rightarrow> None)"

text \<open>The store becomes \<open>b\<close>; a revision that is new goes to the log.\<close>

definition into :: "store \<Rightarrow> cstore \<Rightarrow> cstore" where
  "into b w = w\<lparr>base := b, revs :=
     (case samplePools (objs b) of
        Some c \<Rightarrow> if revs w \<noteq> [] \<and> last (revs w) = c then revs w else revs w @ [c]
      | None \<Rightarrow> revs w)\<rparr>"

fun interfere :: "cstore \<Rightarrow> cstore" where
  "interfere w =
     (case others w of
        [] \<Rightarrow> w
      | d # ds \<Rightarrow>
          (case samplePools (objs (base w)) of
             None \<Rightarrow> w\<lparr>others := ds\<rparr>
           | Some c \<Rightarrow> into (snd (storeApi (RUpdate (OConfigMap (c\<lparr>cm_Data := d\<rparr>))) (base w))) (w\<lparr>others := ds\<rparr>)))"

definition concApi :: "req \<Rightarrow> cstore \<Rightarrow> resp \<times> cstore" where
  "concApi q w = (case storeApi q (base (interfere w)) of (r, b) \<Rightarrow> (r, into b (interfere w)))"

definition concEnv :: "cstore env" where
  "concEnv = \<lparr>api = concApi, timeNow = (\<lambda>w. (int (clock (base w)), w)), lookupEnv = (\<lambda>_. None),
     readFile = (\<lambda>p w. Inr p), readDir = (\<lambda>p w. Inr []), evalSymlinks = (\<lambda>p w. Inr p),
     fileExists = (\<lambda>p w. False), getwd = (\<lambda>w. Inr ''/''), yamlRule = yamlRule storeEnv, yamlCR = yamlCR storeEnv,
     kMarshal = (\<lambda>c. Inr (Marshal_content c)), kUnmarshal = Unmarshal_content, kUnmarshalAny = Unmarshal_any\<rparr>"

section \<open>Its invariant\<close>

definition concOk :: "cstore \<Rightarrow> bool" where
  "concOk w \<longleftrightarrow> distinct (map cmVersion (revs w)) \<and> (\<forall>c \<in> set (revs w). \<exists>i < clock (base w). cmVersion c = natBase 10 i) \<and>
     (\<forall>c. samplePools (objs (base w)) = Some c \<longrightarrow> revs w \<noteq> [] \<and> last (revs w) = c \<and> om_DeletionTimestamp (cm_Meta c) = None)"

lemma samplePools_eq: "samplePools xs = Some c \<longleftrightarrow> lookupObj xs (poolKey ''ns'') = Some (OConfigMap c)"
  by (auto simp: samplePools_def split: option.splits kobj.splits)

lemma lookup_pools: "lookupObj xs (poolKey ''ns'') = Some x \<longleftrightarrow> (\<exists>c. x = OConfigMap c \<and> samplePools xs = Some c)"
  by (cases x) (auto simp: samplePools_eq keyOf_def poolKey_def dest: lookupObj_Some)

text \<open>A request leaves the ConfigMap as it was, removes it, or stores a revision with the time as its version.\<close>

definition newRevision :: "store \<Rightarrow> store \<Rightarrow> bool" where
  "newRevision b b' \<longleftrightarrow> clock b \<le> clock b' \<and>
     (samplePools (objs b') = None \<or> samplePools (objs b') = samplePools (objs b) \<or>
      (\<exists>c. samplePools (objs b') = Some c \<and> cmVersion c = natBase 10 (clock b) \<and> clock b' = Suc (clock b) \<and>
         om_DeletionTimestamp (cm_Meta c) = None))"

lemma pools_cong: "lookupObj xs (poolKey ''ns'') = lookupObj ys (poolKey ''ns'') \<Longrightarrow> samplePools xs = samplePools ys"
  by (simp add: samplePools_def)

lemma stamped_version: "stamp n d x = OConfigMap c \<Longrightarrow> cmVersion c = natBase 10 n \<and> om_DeletionTimestamp (cm_Meta c) = d"
  by (cases x) (auto simp: stamp_def cmVersion_def)

lemma newRevision_storeApi:
  assumes "storeApi q b = (r, b')" and "\<And>c. samplePools (objs b) = Some c \<Longrightarrow> om_DeletionTimestamp (cm_Meta c) = None"
  shows "newRevision b b'"
proof -
  have stored: "newRevision b (tick (stamp (clock b) d x # xs) b)"
    if "keyOf x = poolKey ''ns'' \<Longrightarrow> d = None" "keyOf x \<noteq> poolKey ''ns'' \<Longrightarrow> lookupObj xs (poolKey ''ns'') = lookupObj (objs b) (poolKey ''ns'')"
    for d x xs
  proof (cases "keyOf x = poolKey ''ns''")
    case True
    obtain c where "stamp (clock b) d x = OConfigMap c"
      using True by (cases x) (auto simp: stamp_def keyOf_def poolKey_def)
    moreover from this True have "keyOf (OConfigMap c) = poolKey ''ns''" by (metis keyOf_stored(1))
    ultimately show ?thesis using True that(1)
      by (auto simp: newRevision_def tick_def samplePools_def dest: stamped_version)
  next
    case False
    with that(2) show ?thesis by (auto simp: newRevision_def tick_def intro: pools_cong)
  qed
  have live: "deletionOf z = None" if "lookupObj (objs b) (keyOf x) = Some z" "keyOf x = poolKey ''ns''" for x z
    using that assms(2) by (auto simp: lookup_pools deletionOf_def)
  have dropped: "newRevision b (tick (dropObj k (objs b)) b)" for k
    by (cases "k = poolKey ''ns''") (auto simp: newRevision_def tick_def samplePools_def)
  have same: "newRevision b b" by (simp add: newRevision_def)
  show ?thesis
  proof (cases q)
    case (RCreate x)
    with assms(1) same show ?thesis
      by (auto simp: Let_def intro!: stored split: option.splits)
  next
    case (RUpdate x)
    with assms(1) same dropped [of "keyOf x"] show ?thesis
      by (auto simp: Let_def intro!: stored live split: option.splits if_splits)
  next
    case (RStatusUpdate x)
    with assms(1) same show ?thesis
      by (auto simp: Let_def intro!: stored live dest: lookupObj_Some split: option.splits if_splits)
  next
    case (RDelete x)
    with assms(1) same dropped [of "keyOf x"] show ?thesis by (auto split: option.splits)
  qed (use assms(1) same in auto)
qed

lemma concOk_into:
  assumes w: "concOk w" and new: "newRevision (base w) b"
  shows "concOk (into b w) \<and> prefix (revs w) (revs (into b w))"
proof (cases "samplePools (objs b)")
  case None
  with w new show ?thesis by (auto simp: concOk_def into_def newRevision_def) (meson less_le_trans)
next
  case (Some c)
  show ?thesis
  proof (cases "samplePools (objs (base w)) = Some c")
    case True
    with Some w new show ?thesis by (auto simp: concOk_def into_def newRevision_def) (meson less_le_trans)
  next
    case False
    with Some new have c: "cmVersion c = natBase 10 (clock (base w))" "clock b = Suc (clock (base w))"
      "om_DeletionTimestamp (cm_Meta c) = None" by (auto simp: newRevision_def)
    have older: "cmVersion d \<noteq> cmVersion c" if "d \<in> set (revs w)" for d
      using w that c(1) by (auto simp: concOk_def natBase_inject)
    then have "\<not> (revs w \<noteq> [] \<and> last (revs w) = c)" by (metis last_in_set)
    then have "revs (into b w) = revs w @ [c]" "base (into b w) = b" using Some by (auto simp: into_def)
    with w c older Some show ?thesis
      by (auto simp: concOk_def less_Suc_eq image_iff)
  qed
qed

lemma concOk_interfere:
  assumes "concOk w"
  shows "concOk (interfere w) \<and> prefix (revs w) (revs (interfere w))"
proof -
  have skip: "concOk (w\<lparr>others := ds\<rparr>)" for ds using assms by (simp add: concOk_def)
  have "newRevision (base w) (snd (storeApi q (base w)))" for q
    by (rule newRevision_storeApi [OF prod.collapse [symmetric]]) (use assms in \<open>auto simp: concOk_def\<close>)
  then have "concOk (into (snd (storeApi q (base w))) (w\<lparr>others := ds\<rparr>)) \<and>
      prefix (revs w) (revs (into (snd (storeApi q (base w))) (w\<lparr>others := ds\<rparr>)))" for q ds
    using concOk_into [OF skip] by simp
  with assms skip show ?thesis
    by (simp del: storeApi.simps split: list.split option.split)
qed

declare interfere.simps [simp del]

lemma into_pools: "samplePools (objs b) = Some c \<Longrightarrow> c \<in> set (revs (into b w))"
  by (auto simp: into_def dest: last_in_set)

lemma storeApi_logged:
  assumes w: "concOk w" and r: "storeApi q (base w) = (r, b)" and a: "prefix a (revs w)"
  shows "logged ''ns'' q r a (revs (into b w))"
proof (cases r)
  case (ROk y)
  have b: "concOk (into b w) \<and> prefix (revs w) (revs (into b w))"
    by (rule concOk_into [OF w newRevision_storeApi [OF r]]) (use w in \<open>auto simp: concOk_def\<close>)
  show ?thesis
  proof (cases q)
    case (RGet k n m)
    with r ROk have y: "lookupObj (objs b) (k, n, m) = Some y" "b = base w"
      by (auto simp: statusErr_def split: option.splits)
    then have key: "keyOf y = (k, n, m)" by (auto dest: lookupObj_Some)
    with y(1) have "lookupObj (objs b) (keyOf y) = Some y" by simp
    with key RGet ROk show ?thesis by (auto simp: lookup_pools into_pools)
  next
    case (RCreate x)
    with r ROk have y: "y = stamp (clock (base w)) None (serialise x)" "b = tick (y # objs (base w)) (base w)"
      by (auto simp: statusErr_def Let_def split: option.splits)
    then have "lookupObj (objs b) (keyOf x) = Some y" by (simp add: tick_def)
    with y RCreate ROk show ?thesis by (auto simp: lookup_pools into_pools)
  next
    case (RUpdate x)
    with r ROk obtain z where z: "lookupObj (objs (base w)) (keyOf x) = Some z" "versionOf z = versionOf x"
      "y = stamp (clock (base w)) (deletionOf z) (withStatusOf (serialise x) z)"
      "b = tick (if released y then dropObj (keyOf x) (objs (base w)) else y # dropObj (keyOf x) (objs (base w))) (base w)"
      by (auto simp: statusErr_def Let_def split: option.splits if_splits)
    have "\<exists>c. y = OConfigMap c \<and> replaced a (revs (into b w)) x' c" if x: "x = OConfigMap x'" "keyOf x = poolKey ''ns''" for x'
    proof -
      from z(1) x(2) obtain d where d: "z = OConfigMap d" "samplePools (objs (base w)) = Some d" by (auto simp: lookup_pools)
      with w have last: "revs w \<noteq> []" "last (revs w) = d" "deletionOf z = None" by (auto simp: concOk_def deletionOf_def)
      then have "\<not> released y" using z(3) by simp
      moreover have "keyOf y = poolKey ''ns''" using x by (simp add: z(3) del: serialise.simps)
      ultimately have "lookupObj (objs b) (poolKey ''ns'') = Some y" using z(4) by (simp add: tick_def)
      then obtain c where c: "y = OConfigMap c" "samplePools (objs b) = Some c" by (auto simp: lookup_pools)
      have "agrees x y" unfolding z(3) by (rule agrees_stored)
      then have same: "sameEntries (cm_Data c) (cm_Data x')" using x c by (auto simp: agrees_def sameEntries_def)
      have "follows (revs (into b w)) (butlast (revs w)) d c"
        using last c(2) by (auto simp: follows_def into_def)
      moreover have "prefix a (butlast (revs w) @ [d])" using a last by (metis append_butlast_last_id)
      moreover have "cmVersion d = cmVersion x'" using z(2) d x by (simp add: versionOf_def cmVersion_def)
      ultimately show ?thesis using c same by (auto simp: replaced_def)
    qed
    with z(3) RUpdate ROk show ?thesis by simp
  qed simp_all
qed simp_all

lemma concEnv_laws: "rev_laws concEnv ''ns'' concOk revs"
  unfolding rev_laws_def
proof (intro conjI allI impI)
  fix w
  assume w: "concOk w"
  show "distinct (map cmVersion (revs w))" using w by (simp add: concOk_def)
  show "concOk (snd (timeNow concEnv w))" "prefix (revs w) (revs (snd (timeNow concEnv w)))" using w by (simp_all add: concEnv_def)
  fix q
  obtain r b where r: "storeApi q (base (interfere w)) = (r, b)" by fastforce
  from concOk_interfere [OF w] have i: "concOk (interfere w)" "prefix (revs w) (revs (interfere w))" by simp_all
  have "newRevision (base (interfere w)) b"
    by (rule newRevision_storeApi [OF r]) (use i(1) in \<open>auto simp: concOk_def\<close>)
  from concOk_into [OF i(1) this] storeApi_logged [OF i(1) r i(2)] i(2)
  show "case api concEnv q w of (r, w') \<Rightarrow> concOk w' \<and> prefix (revs w) (revs w') \<and> logged ''ns'' q r (revs w) (revs w')"
    by (auto simp: concEnv_def concApi_def r intro: prefix_order.trans)
qed

end
