(* ===== verification/LostUpdate.thy ===== *)
theory LostUpdate
  imports SampleWriters ScSpec
begin

text \<open>
  No pass of the FlashSystemCluster controller or of the storage class watcher loses an update that
  somebody else makes to the pools ConfigMap, under the laws of \<open>rev_laws\<close>.
\<close>

section \<open>Reading and updating the ConfigMap\<close>

definition superseded :: "ConfigMap list \<Rightarrow> ConfigMap \<Rightarrow> bool" where
  "superseded b z \<longleftrightarrow> (\<exists>ls c. prefix (ls @ [z, c]) b)"

lemma superseded_mono: "superseded a z \<Longrightarrow> prefix a b \<Longrightarrow> superseded b z"
  unfolding superseded_def by (meson prefix_order.trans)

text \<open>The revision an accepted update replaces is the one whose version it carries, and it was the last one.\<close>

lemma replaced_revision:
  assumes d: "distinct (map cmVersion b)" and "prefix a b" and z: "z \<in> set a" "cmVersion z = cmVersion x"
    and r: "replaced a b x c"
  obtains ls where "follows b ls z c" "sameEntries (cm_Data c) (cm_Data x)" "\<not> superseded a z"
proof -
  from r obtain ls z' where z': "prefix a (ls @ [z'])" "cmVersion z' = cmVersion x" "follows b ls z' c"
    and same: "sameEntries (cm_Data c) (cm_Data x)" unfolding replaced_def by blast
  have pre: "prefix (ls @ [z']) b"
    using z'(3) by (auto simp: follows_def intro: prefix_order.trans [of _ "ls @ [z', c]"])
  have "z \<in> set b" "z' \<in> set b" using z(1) set_mono_prefix [OF assms(2)] set_mono_prefix [OF pre] by auto
  with d z(2) z'(2) have "z = z'" by (metis distinct_map inj_onD)
  moreover have "\<not> superseded a z'"
  proof
    assume "superseded a z'"
    then obtain l2 e where "prefix (l2 @ [z', e]) a" by (auto simp: superseded_def)
    with z'(1) have "prefix (l2 @ [z', e]) (ls @ [z'])" by (rule prefix_order.trans [rotated])
    then obtain rs where eq: "ls @ [z'] = (l2 @ [z', e]) @ rs" by (auto simp: prefix_def)
    have "last (e # rs) = last (ls @ [z'])" unfolding eq by simp
    then have "z' \<in> set (e # rs)" by (metis last_in_set last_snoc list.distinct(1))
    with eq have "\<not> distinct (ls @ [z'])" by auto
    moreover have "distinct b" using d by (simp add: distinct_map)
    ultimately show False using pre by (auto simp: prefix_def)
  qed
  ultimately show thesis using that z'(3) same by blast
qed

lemma wp_get_revision:
  assumes laws: "rev_laws E ns ok log" and s: "ok (world s)" "watchNamespace s = ns"
    and Fail: "\<And>e t. grown ok log ns P s t \<Longrightarrow> Q (Inl e) t"
    and Got: "\<And>c t. grown ok log ns P s t \<Longrightarrow> c \<in> set (log (world t)) \<Longrightarrow> keyOf (OConfigMap c) = poolKey ns \<Longrightarrow> Q (Inr c) t"
  shows "wpre (GetCreateConfigmap E ns c) Q s"
proof -
  let ?x = "OConfigMap ((initScPoolConfigMap ns)\<lparr>cm_Data := MkMap []\<rparr>)"
  have k: "keyOf ?x = poolKey ns" by (simp add: keyOf_ConfigMap initScPoolConfigMap_def)
  have step: "grown ok log ns P s (afterCall q r w u)"
    if u: "grown ok log ns P s u" and r: "api E q (world u) = (r, w)" and q: "\<And>x. q \<noteq> RUpdate x" for q r w u
  proof -
    from u have ok: "ok (world u)" by (simp add: grown_def)
    have "owned ns P (log w) (q, r)" using q by (auto simp: owned_def)
    with rev_lawsD(2) [OF laws ok r] have "grown ok log ns P u (afterCall q r w u)" by (simp add: grown_def)
    with u show ?thesis by (rule grown_trans)
  qed
  have create: "wpre (do { r' \<leftarrow> createAs E asConfigMap ?x;
     (case r' of Inl e' \<Rightarrow> ret (Inl e') | Inr cm \<Rightarrow> ret (Inr cm)) }) Q u" if u: "grown ok log ns P s u" for u
  proof -
    obtain r w where r: "api E (RCreate ?x) (world u) = (r, w)" by fastforce
    from u have ok: "ok (world u)" by (simp add: grown_def)
    from step [OF u r] have g: "grown ok log ns P s (afterCall (RCreate ?x) r w u)" by simp
    show ?thesis
    proof (cases "decodeOne asConfigMap r")
      case (Inl e)
      with g show ?thesis by (simp add: createAs_def wp wp_call r Fail)
    next
      case (Inr y)
      then have "r = ROk (OConfigMap y)" by (auto simp: decodeOne_eq)
      with rev_lawsD(2) [OF laws ok r] k have "y \<in> set (log w)" "keyOf (OConfigMap y) = poolKey ns" by auto
      with g Inr show ?thesis by (simp add: createAs_def wp wp_call r Got)
    qed
  qed
  obtain r w where r: "api E (RGet KConfigMap ns PoolConfigmapName) (world s) = (r, w)" by fastforce
  from step [OF _ r] s have g: "grown ok log ns P s (afterCall (RGet KConfigMap ns PoolConfigmapName) r w s)" by simp
  show ?thesis
  proof (cases "decodeOne asConfigMap r")
    case (Inl e)
    with g create [OF g] show ?thesis by (auto simp: GetCreateConfigmap_def getAs_def wp wp_call r intro: Fail)
  next
    case (Inr y)
    then have y: "r = ROk (OConfigMap y)" by (auto simp: decodeOne_eq)
    with rev_lawsD(2) [OF laws s(1) r] have "keyOf (OConfigMap y) = poolKey ns \<and> y \<in> set (log w)"
      by (auto simp: poolKey_def)
    with g Inr show ?thesis by (simp add: GetCreateConfigmap_def getAs_def wp wp_call r Got)
  qed
qed

text \<open>
  An update that carries the version of a revision \<open>z\<close> in the log. It is accepted only when \<open>z\<close> is the last
  revision, so what it has to guarantee is stated for that case.
\<close>

lemma wp_update_revision:
  assumes laws: "rev_laws E ns ok log" and s: "ok (world s)" "watchNamespace s = ns"
    and x: "keyOf (OConfigMap x) = poolKey ns" "z \<in> set (log (world s))" "cmVersion z = cmVersion x"
    and own: "\<And>c. sameEntries (cm_Data c) (cm_Data x) \<Longrightarrow> \<not> superseded (log (world s)) z \<Longrightarrow> P z c"
    and Fail: "\<And>e t. grown ok log ns P s t \<Longrightarrow> Q (Inl e) t"
    and Done: "\<And>c t. grown ok log ns P s t \<Longrightarrow> c \<in> set (log (world t)) \<Longrightarrow> keyOf (OConfigMap c) = poolKey ns \<Longrightarrow>
      sameEntries (cm_Data c) (cm_Data x) \<Longrightarrow> c = z \<or> superseded (log (world t)) z \<Longrightarrow> Q (Inr c) t"
  shows "wpre (updateAs E asConfigMap (OConfigMap x)) Q s"
proof -
  obtain r w where r: "api E (RUpdate (OConfigMap x)) (world s) = (r, w)" by fastforce
  note step = rev_lawsD(2) [OF laws s(1) r]
  have acc: "\<exists>ls. follows (log w) ls z c \<and> sameEntries (cm_Data c) (cm_Data x) \<and> \<not> superseded (log (world s)) z"
    if "r = ROk (OConfigMap c)" for c
  proof -
    from step x(1) that have "replaced (log (world s)) (log w) x c" by auto
    from replaced_revision [OF _ _ x(2,3) this] rev_lawsD(1) [OF laws] step show ?thesis by blast
  qed
  have "owned ns P (log w) (RUpdate (OConfigMap x), r)"
    unfolding owned_def using acc own x(3) by blast
  with step have g: "grown ok log ns P s (afterCall (RUpdate (OConfigMap x)) r w s)" by (simp add: grown_def)
  show ?thesis
  proof (cases "decodeOne asConfigMap r")
    case (Inl e)
    with g show ?thesis by (simp add: updateAs_def wp wp_call r Fail)
  next
    case (Inr c)
    then have c: "r = ROk (OConfigMap c)" by (auto simp: decodeOne_eq)
    from acc [OF c] obtain ls where ls: "follows (log w) ls z c" "sameEntries (cm_Data c) (cm_Data x)" by blast
    then have "c \<in> set (log w)" "c = z \<or> superseded (log w) z"
      by (auto simp: follows_def superseded_def dest: set_mono_prefix)
    with step x(1) c ls(2) g Inr show ?thesis by (auto simp: updateAs_def wp wp_call r intro!: Done)
  qed
qed

section \<open>The controller of FlashSystemClusters\<close>

text \<open>What a pass over the cluster \<open>n\<close> may change in the ConfigMap: its own entry, and the legacy key goes.\<close>

definition ownEntry :: "string \<Rightarrow> ConfigMap \<Rightarrow> ConfigMap \<Rightarrow> bool" where
  "ownEntry n z c \<longleftrightarrow> (\<forall>k. k \<noteq> n \<longrightarrow> mget (cm_Data c) k = mget (cm_Data z) k \<or> k = PoolsKey \<and> mget (cm_Data c) k = None)"

lemma careful_removeFsc:
  assumes laws: "rev_laws E ns ok log"
  shows "careful ok log ns (ownEntry n) (removeFscFromConfigMap E n)"
  unfolding careful_def
proof (intro allI impI)
  fix s :: "'a st"
  assume s: "ok (world s)" "watchNamespace s = ns"
  show "wpre (removeFscFromConfigMap E n) (\<lambda>_. grown ok log ns (ownEntry n) s) s"
    unfolding removeFscFromConfigMap_def wp_bind [of askNamespace] wp_bind [of "GetCreateConfigmap _ _ _"] wp_askNamespace s(2)
  proof (rule wp_get_revision [OF laws s, where P = "ownEntry n"], goal_cases)
    case (1 e t)
    then show ?case by (simp add: wp)
  next
    case (2 c t)
    then have t: "ok (world t)" "watchNamespace t = ns" using s(2) by (simp_all add: grown_def)
    show ?case
      unfolding sum.case wp_bind
      by (rule wp_update_revision [OF laws t, where P = "ownEntry n" and z = c])
        (use 2 in \<open>auto simp: wp keyOf_ConfigMap cmVersion_def ownEntry_def sameEntries_def intro: grown_trans\<close>)
  qed
qed

lemma wp_add_revision:
  assumes laws: "rev_laws E ns ok log" and s: "ok (world s)" "watchNamespace s = ns"
    and x: "keyOf (OConfigMap x) = poolKey ns" "z \<in> set (log (world s))" "cmVersion z = cmVersion x"
      "sameEntries (cm_Data x) (cm_Data z)"
  shows "wpre (addFscEntry E inst x) (\<lambda>_. grown ok log ns (ownEntry (om_Name (fsc_Meta inst))) s) s"
proof -
  let ?P = "ownEntry (om_Name (fsc_Meta inst))"
  have "wpre (do { r \<leftarrow> updateAs E asConfigMap (OConfigMap (x\<lparr>cm_Data := mput (cm_Data x) (om_Name (fsc_Meta inst)) val\<rparr>));
      (case r of Inl e \<Rightarrow> ret (Err e) | Inr _ \<Rightarrow> ret (Ok ())) }) (\<lambda>_. grown ok log ns ?P s) s" for val
    unfolding wp_bind
    by (rule wp_update_revision [OF laws s, where P = ?P and z = z])
      (use x in \<open>auto simp: wp keyOf_ConfigMap cmVersion_def ownEntry_def sameEntries_def\<close>)
  with s(1) show ?thesis
    by (auto simp: addFscEntry_def Let_def wp_ret mset_eq_Some split: sum.split option.split)
qed

lemma careful_ensurePools:
  assumes laws: "rev_laws E ns ok log"
  shows "careful ok log ns (ownEntry (om_Name (fsc_Meta inst))) (ensureScPoolConfigMap E inst)"
  unfolding careful_def
proof (intro allI impI)
  fix s :: "'a st"
  let ?P = "ownEntry (om_Name (fsc_Meta inst))"
  assume s: "ok (world s)" "watchNamespace s = ns"
  have add: "wpre (addFscEntry E inst x) (\<lambda>_. grown ok log ns ?P s) t"
    if g: "grown ok log ns ?P s t" and x: "keyOf (OConfigMap x) = poolKey ns" "z \<in> set (log (world t))" "cmVersion z = cmVersion x"
      "sameEntries (cm_Data x) (cm_Data z)" for x z t
  proof -
    from g s(2) have "ok (world t)" "watchNamespace t = ns" by (simp_all add: grown_def)
    from wp_grown_after [OF g wp_add_revision [OF laws this x]] show ?thesis .
  qed
  show "wpre (ensureScPoolConfigMap E inst) (\<lambda>_. grown ok log ns ?P s) s"
    unfolding ensureScPoolConfigMap_def wp_bind [of askNamespace] wp_bind [of "GetCreateConfigmap _ _ _"] wp_askNamespace s(2)
  proof (rule wp_get_revision [OF laws s, where P = ?P], goal_cases)
    case (1 e t)
    then show ?case by (simp add: wp)
  next
    case (2 c t)
    then have t: "ok (world t)" "watchNamespace t = ns" using s(2) by (simp_all add: grown_def)
    define cm where "cm = (if cm_Data c = NilMap then c\<lparr>cm_Data := MkMap []\<rparr> else c)"
    have cm: "keyOf (OConfigMap cm) = poolKey ns" "cmVersion c = cmVersion cm" "sameEntries (cm_Data cm) (cm_Data c)"
      using 2(3) by (auto simp: cm_def keyOf_ConfigMap cmVersion_def sameEntries_def)
    have "wpre (do { r' \<leftarrow> updateAs E asConfigMap (OConfigMap (cm\<lparr>cm_Data := mdel (cm_Data cm) PoolsKey\<rparr>));
        (case r' of Inl e \<Rightarrow> ret (Err e) | Inr cm' \<Rightarrow> addFscEntry E inst cm') }) (\<lambda>_. grown ok log ns ?P s) t"
      unfolding wp_bind
    proof (rule wp_update_revision [OF laws t, where P = ?P and z = c], goal_cases)
      case 1
      from cm(1) show ?case by (simp add: keyOf_ConfigMap)
    next
      case 2
      from \<open>c \<in> set (log (world t))\<close> show ?case .
    next
      case 3
      from cm(2) show ?case by (simp add: cmVersion_def)
    next
      case (4 c')
      with cm(3) show ?case by (auto simp: ownEntry_def sameEntries_def)
    next
      case (5 e u)
      with 2(1) show ?case by (auto simp: wp_ret intro: grown_trans)
    next
      case (6 c' u)
      then show ?case by (auto intro!: add grown_trans [OF 2(1)])
    qed
    moreover have "wpre (addFscEntry E inst cm) (\<lambda>_. grown ok log ns ?P s) t"
      by (rule add [OF 2(1) cm(1) 2(2) cm(2,3)])
    ultimately show ?case by (simp add: cm_def Let_def)
  qed
qed

subsection \<open>The other steps do not update it\<close>

lemma careful_createEvent: "rev_laws E ns ok log \<Longrightarrow> careful ok log ns P (createEvent E inst ty r m)"
  unfolding createEvent_def InitK8sEvent_def Let_def by (intro careful_intro careful_client)

lemma careful_ensureSecretOwnership: "rev_laws E ns ok log \<Longrightarrow> careful ok log ns P (ensureSecretOwnership E inst ow)"
  unfolding ensureSecretOwnership_def Let_def by (intro careful_intro careful_client; simp)

lemma careful_HasCSI: "rev_laws E ns ok log \<Longrightarrow> careful ok log ns P (HasIBMBlockCSICRExisted E nss)"
  by (induction nss) (auto intro!: careful_intro careful_client)

lemma careful_ensureFlashSystemCSICR: "rev_laws E ns ok log \<Longrightarrow> careful ok log ns P (ensureFlashSystemCSICR E inst)"
  unfolding ensureFlashSystemCSICR_def GetAllNamespace_def CreateIBMBlockCSICR_def LoadFlashSystemCRFromFile_def FindModuleRoot_def
    Let_def
  by (intro careful_intro careful_client careful_HasCSI careful_createEvent)

lemma careful_exporter:
  assumes "rev_laws E ns ok log"
  shows "careful ok log ns P (ensureExporterService E inst ow)" "careful ok log ns P (ensureExporterDeployment E inst ow)"
    "careful ok log ns P (ensureExporterServiceMonitor E inst ow)"
  unfolding ensureExporterService_def ensureExporterDeployment_def ensureExporterServiceMonitor_def deleteDuplicated_defs Let_def
  using assms by (intro careful_intro careful_client; simp)+

lemma careful_ensureDefaultStorageClass: "rev_laws E ns ok log \<Longrightarrow> careful ok log ns P (ensureDefaultStorageClass E inst)"
  unfolding ensureDefaultStorageClass_def by (intro careful_intro careful_client careful_createEvent)

lemma careful_deleteDefaultStorageClass: "rev_laws E ns ok log \<Longrightarrow> careful ok log ns P (deleteDefaultStorageClass E inst)"
  unfolding deleteDefaultStorageClass_def by (intro careful_intro careful_client)

lemma careful_enablePrometheusRules: "rev_laws E ns ok log \<Longrightarrow> careful ok log ns P (enablePrometheusRules E inst ow)"
  unfolding enablePrometheusRules_def CreateOrUpdatePrometheusRules_def getPrometheusRules_def Let_def
  by (intro careful_intro careful_client; simp)

lemma careful_SetStatusCondition: "rev_laws E ns ok log \<Longrightarrow> careful ok log ns P (SetStatusCondition E cs c)"
  unfolding SetStatusCondition_def Let_def by (intro careful_intro)

lemma careful_ends:
  assumes "rev_laws E ns ok log"
  shows "careful ok log ns P (finish E i)" "careful ok log ns P (failStep E i st re e)" "careful ok log ns P (failProvisioner E i e)"
  unfolding finish_def failStep_def failProvisioner_def condition_setters Let_def
  using assms by (intro careful_intro careful_SetStatusCondition careful_createEvent; simp)+

lemma careful_attempt:
  "careful ok log ns P m \<Longrightarrow> (\<And>e. careful ok log ns P (h e)) \<Longrightarrow> careful ok log ns P k \<Longrightarrow> careful ok log ns P (attempt m i h k)"
  unfolding attempt_def by (intro careful_intro)

lemma careful_lift: "careful ok log ns P m \<Longrightarrow> careful ok log ns P (lift m)"
  unfolding lift_def by (intro careful_intro)

lemma careful_reconcileSteps:
  assumes laws: "rev_laws E ns ok log" and n: "om_Name (fsc_Meta inst) = n"
  shows "careful ok log ns (ownEntry n) (reconcileSteps E inst ow)"
  unfolding reconcileSteps_def Let_def n [symmetric]
  by (intro careful_attempt careful_lift careful_bind careful_ensurePools careful_ensureSecretOwnership careful_ensureFlashSystemCSICR
      careful_exporter careful_ensureDefaultStorageClass careful_enablePrometheusRules careful_SetStatusCondition careful_ends laws)

subsection \<open>A pass\<close>

lemma wp_fsc_named:
  assumes laws: "rev_laws E ns ok log" and s: "ok (world s)" "watchNamespace s = ns"
    and m: "m = getAs E asFsc KFsc k n \<or> (\<exists>i. m = updateAs E asFsc (OFsc i) \<and> om_Name (fsc_Meta i) = n)"
  shows "wpre m (\<lambda>r t. grown ok log ns P s t \<and> (\<forall>i. r = Inr i \<longrightarrow> om_Name (fsc_Meta i) = n)) s"
proof (rule wp_conj)
  have "careful ok log ns P m" using m by (auto intro: careful_client [OF laws])
  from carefulD [OF this s] show "wpre m (\<lambda>r. grown ok log ns P s) s" .
  have named: "om_Name (fsc_Meta i) = om_Name (fsc_Meta j)"
    if "api E (RUpdate (OFsc j)) (world s) = (ROk (OFsc i), w)" for i j w
    using rev_lawsD(2) [OF laws s(1) that] by (auto simp: keyOf_def)
  have found: "om_Name (fsc_Meta i) = n"
    if "api E (RGet KFsc k n) (world s) = (ROk (OFsc i), w)" for i w
    using rev_lawsD(2) [OF laws s(1) that] by (auto simp: keyOf_def)
  show "wpre m (\<lambda>r t. \<forall>i. r = Inr i \<longrightarrow> om_Name (fsc_Meta i) = n) s"
    using m by (auto simp: client_ops wp wp_call decodeOne_eq intro: named found split: prod.split)
qed

lemma careful_removeEntry:
  "rev_laws E ns ok log \<Longrightarrow> om_Name (fsc_Meta inst) = n \<Longrightarrow> careful ok log ns (ownEntry n) (removeEntry E inst)"
  unfolding removeEntry_def by (intro careful_intro) (use careful_removeFsc in blast)

lemma careful_update_then:
  assumes laws: "rev_laws E ns ok log" and n: "om_Name (fsc_Meta inst) = n"
    and k: "\<And>i. om_Name (fsc_Meta i) = n \<Longrightarrow> careful ok log ns P (k i)"
  shows "careful ok log ns P (do { u \<leftarrow> updateAs E asFsc (OFsc inst); (case u of Inl e \<Rightarrow> ret (inst, Err e) | Inr i \<Rightarrow> k i) })"
  unfolding careful_def wp_bind
proof (intro allI impI)
  fix s :: "'a st"
  assume s: "ok (world s)" "watchNamespace s = ns"
  show "wpre (updateAs E asFsc (OFsc inst)) (\<lambda>a. wpre (case a of Inl e \<Rightarrow> ret (inst, Err e) | Inr i \<Rightarrow> k i) (\<lambda>_. grown ok log ns P s)) s"
    by (rule wp_mono [OF wp_fsc_named [OF laws s, where n = n]])
      (use n in \<open>auto simp: wp_ret split: sum.split intro!: wp_grown [OF _ s(2)] k\<close>)
qed

lemma careful_reconcile:
  assumes laws: "rev_laws E ns ok log" and n: "om_Name (fsc_Meta inst) = n"
  shows "careful ok log ns (ownEntry n) (reconcile E inst)"
proof -
  have set: "om_Name (fsc_Meta (setFinalizers fs inst)) = n" for fs using n by (simp add: setFinalizers_def)
  show ?thesis
    unfolding reconcile_def finalizeInstance_def Let_def
    by (intro careful_cases careful_bind careful_update_then [OF laws set] careful_reconcileSteps careful_removeEntry
        careful_deleteDefaultStorageClass careful_ret laws n)
qed

lemma careful_Reconcile:
  assumes laws: "rev_laws E ns ok log"
  shows "careful ok log ns (ownEntry (snd rq)) (Reconcile E rq)"
  unfolding careful_def
proof (intro allI impI)
  fix s :: "'a st"
  assume s: "ok (world s)" "watchNamespace s = ns"
  show "wpre (Reconcile E rq) (\<lambda>_. grown ok log ns (ownEntry (snd rq)) s) s"
    unfolding Reconcile_def wp_bind [of "getAs _ _ _ _ _"]
  proof (rule wp_mono [OF wp_fsc_named [OF laws s, where P = "ownEntry (snd rq)" and k = "fst rq" and n = "snd rq"]], simp, goal_cases)
    case (1 a t)
    then have g: "grown ok log ns (ownEntry (snd rq)) s t" by simp
    show ?case
    proof (cases a)
      case (Inl e)
      show ?thesis
        unfolding Inl sum.case
        by (rule wp_grown [OF g s(2)]) (intro careful_intro careful_removeFsc laws)
    next
      case (Inr inst)
      with 1 have n: "om_Name (fsc_Meta inst) = snd rq" by simp
      show ?thesis
        unfolding Inr sum.case
        by (rule wp_grown [OF g s(2)]) (intro careful_intro careful_reconcile careful_client laws n)
    qed
  qed
qed

section \<open>The storage class watcher\<close>

text \<open>
  What a pass over the storage class \<open>sc\<close> may change: no entry comes or goes, and an entry that differs
  decodes to the same secret and the same pools of the other storage classes.
\<close>

definition sameBut :: "'w env \<Rightarrow> string \<Rightarrow> string \<Rightarrow> string \<Rightarrow> bool" where
  "sameBut E sc x y \<longleftrightarrow> x = y \<or> (\<exists>d d'. kUnmarshal E x = Inr d \<and> kMarshal E d' = Inr y \<and>
     ContentSecret d' = ContentSecret d \<and> (\<forall>n. n \<noteq> sc \<longrightarrow> mget (ScPoolMap d') n = mget (ScPoolMap d) n))"

definition ownClass :: "'w env \<Rightarrow> string \<Rightarrow> ConfigMap \<Rightarrow> ConfigMap \<Rightarrow> bool" where
  "ownClass E sc z c \<longleftrightarrow> (\<forall>k. rel_option (sameBut E sc) (mget (cm_Data z) k) (mget (cm_Data c) k))"

lemma sameBut_refl [simp]: "sameBut E sc x x"
  by (simp add: sameBut_def)

lemma sameBut_intros:
  "kUnmarshal E x = Inr d \<Longrightarrow> kMarshal E (d\<lparr>ScPoolMap := mdel (ScPoolMap d) sc\<rparr>) = Inr y \<Longrightarrow> sameBut E sc x y"
  "kUnmarshal E x = Inr d \<Longrightarrow> kMarshal E (d\<lparr>ScPoolMap := mput (ScPoolMap d) sc p\<rparr>) = Inr y \<Longrightarrow> sameBut E sc x y"
  unfolding sameBut_def by (rule disjI2, rule exI, rule exI, rule conjI, assumption, rule conjI, assumption, simp)+

text \<open>
  The ConfigMap of the loop carries the version of a revision \<open>z\<close>, and its data is that of \<open>z\<close> as long as no
  update has superseded \<open>z\<close>.
\<close>

definition tracks :: "ConfigMap list \<Rightarrow> string \<Rightarrow> ConfigMap \<Rightarrow> bool" where
  "tracks b ns cm \<longleftrightarrow> keyOf (OConfigMap cm) = poolKey ns \<and>
     (\<exists>z \<in> set b. cmVersion z = cmVersion cm \<and> (sameEntries (cm_Data cm) (cm_Data z) \<or> superseded b z))"

lemma wp_class_update:
  assumes laws: "rev_laws E ns ok log" and s: "ok (world s)" "watchNamespace s = ns" and cm: "tracks (log (world s)) ns cm"
    and x: "mget (cm_Data cm) k = Some x" "sameBut E sc x y"
  shows "wpre (do { r \<leftarrow> updateAs E asConfigMap (OConfigMap (cm\<lparr>cm_Data := mput (cm_Data cm) k y\<rparr>));
      (case r of Inl e \<Rightarrow> ret (mput (cm_Data cm) k y, Err e) | Inr _ \<Rightarrow> ret (mput (cm_Data cm) k y, Ok ())) })
    (\<lambda>r t. grown ok log ns (ownClass E sc) s t \<and> (snd r = Ok () \<longrightarrow> tracks (log (world t)) ns (cm\<lparr>cm_Data := fst r\<rparr>))) s"
proof -
  let ?x = "cm\<lparr>cm_Data := mput (cm_Data cm) k y\<rparr>"
  from cm obtain z where key: "keyOf (OConfigMap cm) = poolKey ns" and z: "z \<in> set (log (world s))" "cmVersion z = cmVersion cm"
    "sameEntries (cm_Data cm) (cm_Data z) \<or> superseded (log (world s)) z" unfolding tracks_def by blast
  show ?thesis
    unfolding wp_bind
  proof (rule wp_update_revision [OF laws s, where P = "ownClass E sc" and z = z], goal_cases)
    case 1
    from key show ?case by (simp add: keyOf_ConfigMap)
  next
    case 2
    from z(1) show ?case .
  next
    case 3
    from z(2) show ?case by (simp add: cmVersion_def)
  next
    case (4 c)
    with z(3) have "sameEntries (cm_Data cm) (cm_Data z)" by blast
    with 4(1) x show ?case
      by (auto simp: ownClass_def sameEntries_def option.rel_refl)
  next
    case (5 e t)
    then show ?case by (simp add: wp_ret)
  next
    case (6 c t)
    have "z \<in> set (log (world t))" using z(1) 6(1) by (auto simp: grown_def dest: set_mono_prefix)
    moreover have "cmVersion ?x = cmVersion cm" "keyOf (OConfigMap ?x) = poolKey ns"
      using key by (simp_all add: cmVersion_def keyOf_ConfigMap)
    moreover have "sameEntries (cm_Data ?x) (cm_Data z) \<or> superseded (log (world t)) z"
      using 6(4,5) by (auto simp: sameEntries_def)
    ultimately have "tracks (log (world t)) ns ?x"
      unfolding tracks_def using z(2) by auto
    with 6(1) show ?case by (simp add: wp_ret)
  qed
qed

lemma tracks_ret:
  assumes "ok (world s)" and "tracks (log (world s)) ns cm"
  shows "wpre (ret (cm_Data cm, r)) (\<lambda>r t. grown ok log ns P s t \<and> (snd r = Ok () \<longrightarrow> tracks (log (world t)) ns (cm\<lparr>cm_Data := fst r\<rparr>))) s"
  using assms by (simp add: wp_ret)

lemma wp_class_remove:
  assumes "rev_laws E ns ok log" and "ok (world s)" "watchNamespace s = ns" and "tracks (log (world s)) ns cm"
  shows "wpre (removeStorageClassFromConfigMap E cm k sc)
    (\<lambda>r t. grown ok log ns (ownClass E sc) s t \<and> (snd r = Ok () \<longrightarrow> tracks (log (world t)) ns (cm\<lparr>cm_Data := fst r\<rparr>))) s"
  unfolding removeStorageClassFromConfigMap_def Let_def
  by (auto split: option.split sum.split intro!: tracks_ret assms wp_class_update intro: sameBut_intros)

lemma wp_class_add:
  assumes "rev_laws E ns ok log" and "ok (world s)" "watchNamespace s = ns" and "tracks (log (world s)) ns cm"
  shows "wpre (addStorageClassToConfigMap E cm k sc p)
    (\<lambda>r t. grown ok log ns (ownClass E sc) s t \<and> (snd r = Ok () \<longrightarrow> tracks (log (world t)) ns (cm\<lparr>cm_Data := fst r\<rparr>))) s"
  unfolding addStorageClassToConfigMap_def Let_def
  by (auto split: option.split sum.split intro!: tracks_ret assms wp_class_update intro: sameBut_intros simp: mset_eq_Some)

lemma wp_class_entries:
  assumes laws: "rev_laws E ns ok log"
  shows "ok (world s) \<Longrightarrow> watchNamespace s = ns \<Longrightarrow> tracks (log (world s)) ns cm \<Longrightarrow>
    wpre (updateEntries E sc gone pools cm ks) (\<lambda>_. grown ok log ns (ownClass E sc) s) s"
proof (induction ks arbitrary: cm s)
  case Nil
  then show ?case by (simp add: wp)
next
  case (Cons k ks)
  have next_step: "wpre (case snd x of
        Ok _ \<Rightarrow> updateEntries E sc gone pools (cm\<lparr>cm_Data := fst x\<rparr>) ks
      | Err e \<Rightarrow> ret (Err e) | Panic p \<Rightarrow> ret (Panic p)) (\<lambda>_. grown ok log ns (ownClass E sc) s) t"
    if "grown ok log ns (ownClass E sc) s t \<and> (snd x = Ok () \<longrightarrow> tracks (log (world t)) ns (cm\<lparr>cm_Data := fst x\<rparr>))" for x t
  proof -
    from that Cons.prems(2) have t: "ok (world t)" "watchNamespace t = ns" by (simp_all add: grown_def)
    show ?thesis
    proof (cases "snd x")
      case (Ok u)
      with that have "tracks (log (world t)) ns (cm\<lparr>cm_Data := fst x\<rparr>)" by simp
      from wp_grown_after [OF _ Cons.IH [OF t this]] that Ok show ?thesis by auto
    qed (use that in \<open>simp_all add: wp_ret\<close>)
  qed
  note steps = wp_mono [OF wp_class_remove [OF laws Cons.prems] next_step] wp_mono [OF wp_class_add [OF laws Cons.prems] next_step]
  show ?case
    by (auto simp: wp_bind wp_ret Cons.prems(1) intro!: steps split: option.split)
qed

lemma careful_reads:
  assumes laws: "rev_laws E ns ok log"
  shows "careful ok log ns P (getFlashSystemClusterByStorageClass E sc top')"
proof -
  have "careful ok log ns P (mapClustersLoop E cs m)" for cs m
    by (induction cs arbitrary: m) (auto intro!: careful_intro careful_client [OF laws])
  moreover have "careful ok log ns P (regularLoop E sc' a cs)" for sc' a cs
    by (induction cs) (auto intro!: careful_intro careful_client [OF laws])
  ultimately show ?thesis
    unfolding getFlashSystemClusterByStorageClass_def GetStorageClassSecret_def getFscByTopologyStorageClass_def mapClustersByMgmtId_def
      MapClustersByMgmtAddress_def getFscByRegularStorageClass_def Let_def
    by (intro careful_intro careful_client [OF laws])
qed

lemma careful_ScReconcile:
  assumes laws: "rev_laws E ns ok log"
  shows "careful ok log ns (ownClass E (snd rq)) (ScReconcile E ns rq)"
proof -
  let ?P = "ownClass E (snd rq)"
  have entries: "wpre (updateEntries E (snd rq) gone pools c ks) (\<lambda>_. grown ok log ns ?P s) t"
    if g: "grown ok log ns ?P s t" and s: "watchNamespace s = ns" and c: "c \<in> set (log (world t))" "keyOf (OConfigMap c) = poolKey ns"
    for gone pools c ks t and s :: "'a st"
  proof -
    from g s have "ok (world t)" "watchNamespace t = ns" by (simp_all add: grown_def)
    moreover from c have "tracks (log (world t)) ns c" by (auto simp: tracks_def)
    ultimately show ?thesis using wp_grown_after [OF g wp_class_entries [OF laws]] by blast
  qed
  have after: "wpre m (\<lambda>a. wpre (k a) (\<lambda>_. grown ok log ns ?P s)) t"
    if g: "grown ok log ns ?P s t" and s: "watchNamespace s = ns" and m: "careful ok log ns ?P m"
      and k: "\<And>a u. grown ok log ns ?P s u \<Longrightarrow> prefix (log (world t)) (log (world u)) \<Longrightarrow> wpre (k a) (\<lambda>_. grown ok log ns ?P s) u"
    for m :: "('a, 'b) oper" and k :: "'b \<Rightarrow> ('a, 'c) oper" and s t
  proof -
    from g s have "ok (world t)" "watchNamespace t = ns" by (simp_all add: grown_def)
    from wp_mono [OF carefulD [OF m this]] show ?thesis
      using k grown_trans [OF g] by (auto simp: grown_def)
  qed
  show ?thesis
    unfolding careful_def
  proof (intro allI impI)
    fix s :: "'a st"
    assume s: "ok (world s)" "watchNamespace s = ns"
    show "wpre (ScReconcile E ns rq) (\<lambda>_. grown ok log ns ?P s) s"
      unfolding ScReconcile_def reconcileBody_def wp_bind wp_ret
    proof (rule wp_get_revision [OF laws s, where P = ?P], goal_cases)
      case (1 e t)
      then show ?case by (simp add: wp)
    next
      case (2 c t)
      note found = entries [OF _ s(2) _ 2(3)]
      have ensure: "wpre (ensureConfigMapUpdated E rq sc c) (\<lambda>_. grown ok log ns ?P s) u"
        if u: "grown ok log ns ?P s u" "c \<in> set (log (world u))" for sc u
        unfolding ensureConfigMapUpdated_def Let_def wp_bind
        by (rule after [OF u(1) s(2) careful_reads [OF laws]])
          (use u(2) in \<open>auto simp: wp_ret intro!: found dest: set_mono_prefix split: res.split\<close>)
      have finish: "wpre m (\<lambda>a. wpre (ret (doneResult a)) (\<lambda>_. grown ok log ns ?P s)) u"
        if "wpre m (\<lambda>_. grown ok log ns ?P s) u" for m u
        by (rule wp_mono [OF that]) (simp add: wp_ret)
      show ?case
        unfolding sum.case wp_bind
      proof (rule after [OF 2(1) s(2) careful_client(1) [OF laws]])
        fix a u
        assume u: "grown ok log ns ?P s u" "prefix (log (world t)) (log (world u))"
        with 2(2) have "c \<in> set (log (world u))" by (auto dest: set_mono_prefix)
        with u show "wpre (case a of
            Inl e \<Rightarrow> if IsNotFound e then do { x \<leftarrow> removeFromAll E (snd rq) c (mkeys (cm_Data c)); ret (doneResult x) } else ret (Err e)
          | Inr sc \<Rightarrow> do { x \<leftarrow> ensureConfigMapUpdated E rq sc c; ret (doneResult x) }) (\<lambda>_. grown ok log ns ?P s) u"
          by (auto simp: wp_ret wp_bind removeFromAll_updateEntries [of E "snd rq" c _ NilMap]
            intro!: finish found ensure split: sum.split)
      qed
    qed
  qed
qed

section \<open>The guarantee\<close>

lemma owned_calls:
  assumes laws: "careful ok log ns P m" and s: "ok (world s)" "watchNamespace s = ns" and run: "run_state m s = (a, t)"
  obtains xs where "calls t = calls s @ xs" "prefix (log (world s)) (log (world t))"
    "\<And>u c. (RUpdate (OConfigMap u), ROk (OConfigMap c)) \<in> set xs \<Longrightarrow> keyOf (OConfigMap u) = poolKey ns \<Longrightarrow>
       \<exists>ls z. cmVersion z = cmVersion u \<and> follows (log (world t)) ls z c \<and> P z c"
  using wp_runD [OF carefulD [OF laws s] run] unfolding grown_def list_all_iff owned_def by blast

text \<open>
  C17: No pass over a FlashSystemCluster loses an update that somebody else makes to the pools ConfigMap
  while it runs, even when its reads come from a stale cache: whenever the server accepts an update of
  the ConfigMap, the accepted revision directly follows, in the history of the ConfigMap, the revision the pass
  computed it from (or changes nothing), and the two differ in the entry of that cluster and the
  legacy key alone.
\<close>

theorem Reconcile_loses_no_update:
  assumes "rev_laws E ns ok log" and "ok (world s)" and "watchNamespace s = ns"
    and "run_state (Reconcile E rq) s = (r, t)"
  shows "\<exists>xs. calls t = calls s @ xs \<and> prefix (log (world s)) (log (world t)) \<and>
    (\<forall>u c. (RUpdate (OConfigMap u), ROk (OConfigMap c)) \<in> set xs \<longrightarrow> keyOf (OConfigMap u) = poolKey ns \<longrightarrow>
      (\<exists>ls z. cmVersion z = cmVersion u \<and> follows (log (world t)) ls z c \<and> ownEntry (snd rq) z c))"
  by (rule owned_calls [OF careful_Reconcile [OF assms(1)] assms(2-4)]) blast

text \<open>
  In the runs below the other client writes once, before the first request of the pass; the accepted update of
  the pass keeps what it wrote.
\<close>

definition concStart :: "ConfigMap \<Rightarrow> kobj list \<Rightarrow> (string, string) gomap \<Rightarrow> cstore st" where
  "concStart cm xs d = \<lparr>world = \<lparr>base = \<lparr>objs = OConfigMap cm # xs, clock = 100\<rparr>, revs = [cm], others = [d]\<rparr>,
     calls = [], IsCSICRCreated = False, watchNamespace = ''ns''\<rparr>"

fun acceptedWith :: "string \<Rightarrow> string \<Rightarrow> req \<times> resp \<Rightarrow> bool" where
  "acceptedWith k y (RUpdate (OConfigMap u), ROk (OConfigMap c)) \<longleftrightarrow>
     keyOf (OConfigMap u) = poolKey ''ns'' \<and> mget (cm_Data c) k = Some y"
| "acceptedWith k y x \<longleftrightarrow> False"

fun_cases acceptedWith_cases: "acceptedWith k y x"

lemma acceptedWithE:
  assumes "list_ex (acceptedWith k y) xs"
  obtains u c where "(RUpdate (OConfigMap u), ROk (OConfigMap c)) \<in> set xs" "keyOf (OConfigMap u) = poolKey ''ns''"
    "mget (cm_Data c) k = Some y"
  using assms unfolding list_ex_iff by (blast elim: acceptedWith_cases)

lemma concStart_ok:
  "concOk (world (concStart demoCm xs d))" "concOk (world (concStart demoPools xs d))"
  "watchNamespace (concStart cm xs d) = ''ns''" "calls (concStart cm xs d) = []"
proof -
  have "natBase 10 3 = ''3''" by code_simp
  then show "concOk (world (concStart demoCm xs d))" "concOk (world (concStart demoPools xs d))"
    by (auto simp: concOk_def concStart_def samplePools_def demoPools_def demoCm_def keyOf_def poolKey_def PoolConfigmapName_def
        cmVersion_def intro!: exI [of _ 3])
qed (simp_all add: concStart_def)

theorem Reconcile_loses_no_update_witness:
  "\<exists>t u c ls z. run_state (Reconcile concEnv (''ns'', ''fs1'')) (concStart demoCm [] (MkMap [(''fs1'', ''x''), (''fs2'', ''new'')]))
       = (Ok emptyResult, t) \<and>
     (RUpdate (OConfigMap u), ROk (OConfigMap c)) \<in> set (calls t) \<and> follows (revs (world t)) ls z c \<and> ownEntry ''fs1'' z c \<and>
     mget (cm_Data c) ''fs2'' = Some ''new''"
proof -
  let ?s = "concStart demoCm [] (MkMap [(''fs1'', ''x''), (''fs2'', ''new'')])"
  let ?run = "run_state (Reconcile concEnv (''ns'', ''fs1'')) ?s"
  have "fst ?run = Ok emptyResult \<and> list_ex (acceptedWith ''fs2'' ''new'') (calls (snd ?run))" by code_simp
  then obtain t where t: "?run = (Ok emptyResult, t)" and ex: "list_ex (acceptedWith ''fs2'' ''new'') (calls t)" by (metis prod.collapse)
  from ex obtain u c where u: "(RUpdate (OConfigMap u), ROk (OConfigMap c)) \<in> set (calls t)" "keyOf (OConfigMap u) = poolKey ''ns''"
    "mget (cm_Data c) ''fs2'' = Some ''new''" by (rule acceptedWithE)
  from Reconcile_loses_no_update [OF concEnv_laws concStart_ok(1,3) t] u(1,2)
  have "\<exists>ls z. follows (revs (world t)) ls z c \<and> ownEntry ''fs1'' z c" unfolding concStart_ok append_Nil snd_conv by blast
  with t u show ?thesis by blast
qed


definition otherPools :: "(string, string) gomap" where
  "otherPools = MkMap [(''fs1'', Marshal_content demoContent), (''fs2'', Marshal_content (newContent demoFsc))]"


end
