(* ===== verification/ScConverge.thy ===== *)
theory ScConverge
  imports ClassOutcome
begin

text \<open>
  The passes over a storage class come to an end. A pass that has to rewrite several entries of the pools
  ConfigMap writes one of them, is refused the next update (it carries the old resource version), and
  asks to be run again after a second. On a server that answers, each such pass leaves one
  entry less to rewrite.
\<close>

section \<open>A canonical codec\<close>

text \<open>Contents that are equal as maps are printed the same: the encoder sorts the keys.\<close>

locale canonical_codec = content_codec +
  assumes canonical: "contentEq a b \<Longrightarrow> enc a = enc b"
begin

lemma enc_again:
  assumes dec: "dec s = Inr c" and enc: "enc (c\<lparr>ScPoolMap := f (ScPoolMap c)\<rparr>) = Inr s'"
    and ok: "okContent valid (c\<lparr>ScPoolMap := f (ScPoolMap c)\<rparr>)"
    and idem: "\<And>m. mapEq (f (ScPoolMap c)) m \<Longrightarrow> mapEq (f m) (f (ScPoolMap c))"
  obtains c' where "dec s' = Inr c'" "enc (c'\<lparr>ScPoolMap := f (ScPoolMap c')\<rparr>) = Inr s'" "mapEq (f (ScPoolMap c)) (ScPoolMap c')"
proof -
  from round [OF ok enc] obtain c' where c': "dec s' = Inr c'" "contentEq (c\<lparr>ScPoolMap := f (ScPoolMap c)\<rparr>) c'" by blast
  then have "mapEq (f (ScPoolMap c)) (ScPoolMap c')" "ContentSecret c = ContentSecret c'" by (auto simp: contentEq_def)
  with idem [OF this(1)] have "contentEq (c'\<lparr>ScPoolMap := f (ScPoolMap c')\<rparr>) (c\<lparr>ScPoolMap := f (ScPoolMap c)\<rparr>)"
    by (simp add: contentEq_def)
  from canonical [OF this] enc have "enc (c'\<lparr>ScPoolMap := f (ScPoolMap c')\<rparr>) = Inr s'" by simp
  with c'(1) show thesis by (rule that) (use c'(2) in \<open>simp add: contentEq_def\<close>)
qed

end

lemma encMap_cong: "mapEq a b \<Longrightarrow> encMap a = encMap b"
proof -
  assume eq: "mapEq a b"
  then have "set (mkeys a) = set (mkeys b)" by (simp add: set_mkeys mapEq_iff)
  then have "sort (mkeys a) = sort (mkeys b)" by (intro sorted_distinct_set_unique) simp_all
  with eq have "sortedEntries a = sortedEntries b" by (auto simp: sortedEntries_def mapEq_iff mgets_def)
  with eq show ?thesis by (cases a; cases b) (auto simp: encMap_def mapEq_iff)
qed

interpretation canon: canonical_codec "\<lambda>c. Inr (Marshal_content c)" Unmarshal_content validUtf8
  by unfold_locales (auto simp: contentEq_def Marshal_content_def dest: encMap_cong)

definition canonical_laws :: "'w env \<Rightarrow> (string \<Rightarrow> bool) \<Rightarrow> bool" where
  "canonical_laws E valid \<longleftrightarrow> canonical_codec (kMarshal E) (kUnmarshal E) valid"

lemma canonical_codec_laws: "canonical_laws E valid \<Longrightarrow> codec_laws E valid"
  by (simp add: canonical_laws_def codec_laws_def canonical_codec.axioms(1))

section \<open>What a pass makes of an entry\<close>

text \<open>The entry \<open>s\<close> of the cluster \<open>k\<close> with the pool \<open>p k\<close> for the class, or without the class.\<close>

definition rewrite :: "'w env \<Rightarrow> string \<Rightarrow> (string \<Rightarrow> string option) \<Rightarrow> string \<Rightarrow> string \<Rightarrow> string option" where
  "rewrite E sc p k s =
     (case kUnmarshal E s of
        Inl e \<Rightarrow> None
      | Inr d \<Rightarrow>
          (case (case p k of None \<Rightarrow> Some (mdel (ScPoolMap d) sc) | Some pool \<Rightarrow> mset (ScPoolMap d) sc pool) of
             None \<Rightarrow> None
           | Some m \<Rightarrow> (case kMarshal E (d\<lparr>ScPoolMap := m\<rparr>) of Inl e \<Rightarrow> None | Inr y \<Rightarrow> Some y)))"

lemma rewrite_idem:
  assumes laws: "canonical_laws E valid" and valid: "valid sc" "\<forall>k pool. p k = Some pool \<longrightarrow> valid pool"
    and y: "rewrite E sc p k s = Some y"
  shows "rewrite E sc p k y = Some y"
proof -
  from y obtain d where d: "kUnmarshal E s = Inr d" by (auto simp: rewrite_def split: sum.splits)
  note again = canonical_codec.enc_again [OF laws [unfolded canonical_laws_def] d]
  have ok: "okContent valid d"
    using content_codec.dec_ok [OF canonical_codec_laws [OF laws, unfolded codec_laws_def] d] .
  show ?thesis
  proof (cases "p k")
    case None
    with y d have enc: "kMarshal E (d\<lparr>ScPoolMap := mdel (ScPoolMap d) sc\<rparr>) = Inr y"
      by (auto simp: rewrite_def split: sum.splits)
    from again [where f = "\<lambda>m. mdel m sc", OF enc] ok None show ?thesis
      by (fastforce simp: rewrite_def okContent_def mapEq_iff split: if_splits)
  next
    case (Some pool)
    with y d have enc: "kMarshal E (d\<lparr>ScPoolMap := mput (ScPoolMap d) sc pool\<rparr>) = Inr y"
      by (auto simp: rewrite_def mset_eq_Some split: sum.splits option.splits)
    have idem: "mapEq (mput m sc pool) (mput (ScPoolMap d) sc pool)" if "mapEq (mput (ScPoolMap d) sc pool) m" for m
      using that by (auto simp: mapEq_iff) metis
    have "okContent valid (d\<lparr>ScPoolMap := mput (ScPoolMap d) sc pool\<rparr>)"
      using ok Some valid by (auto simp: okContent_def split: if_splits)
    from again [where f = "\<lambda>m. mput m sc pool", OF enc this idem] obtain c' where c': "kUnmarshal E y = Inr c'"
      "kMarshal E (c'\<lparr>ScPoolMap := mput (ScPoolMap c') sc pool\<rparr>) = Inr y" "mapEq (mput (ScPoolMap d) sc pool) (ScPoolMap c')" .
    then have "mset (ScPoolMap c') sc pool = Some (mput (ScPoolMap c') sc pool)" by (simp add: mset_eq_Some mapEq_iff)
    with c' Some show ?thesis by (simp add: rewrite_def)
  qed
qed

text \<open>The loop over the entries, one rewritten entry at a time.\<close>

definition wanted :: "bool \<Rightarrow> (string, string) gomap \<Rightarrow> string \<Rightarrow> string option" where
  "wanted gone pools k = (if gone then None else mget pools k)"

lemma updateEntries_step:
  assumes "mget (cm_Data cm) k = Some x" and "rewrite E sc (wanted gone pools) k x = Some y" and "wanted gone pools k \<noteq> Some []"
  shows "updateEntries E sc gone pools cm (k # ks) = do {
     r \<leftarrow> updateAs E asConfigMap (OConfigMap (cm\<lparr>cm_Data := mput (cm_Data cm) k y\<rparr>));
     (case r of Inl e \<Rightarrow> ret (Err e) | Inr _ \<Rightarrow> updateEntries E sc gone pools (cm\<lparr>cm_Data := mput (cm_Data cm) k y\<rparr>) ks) }"
proof -
  have eq: "(\<lambda>r. State_Monad.bind (case r of Inl e \<Rightarrow> ret (d, Err e) | Inr _ \<Rightarrow> ret (d, Ok ())) h) =
      (\<lambda>r. case r of Inl e \<Rightarrow> h (d, Err e) | Inr _ \<Rightarrow> h (d, Ok ()))" for d and h :: "cmdata \<times> unit res \<Rightarrow> ('a, unit res) oper"
    by (auto simp: fun_eq_iff split: sum.split)
  show ?thesis
    using assms
    by (cases gone; cases "mget pools k")
      (auto simp: rewrite_def wanted_def addStorageClassToConfigMap_def removeStorageClassFromConfigMap_def Let_def eq
        split: sum.splits option.splits)
qed

section \<open>A server that answers\<close>

text \<open>
  Requests do not fail for reasons of their own: what is there is found and listed; an update of a ConfigMap
  is refused exactly when it carries an old version, changes nothing (and keeps the version) when it
  says what is stored, and otherwise stores a new revision.
\<close>

definition sameConfigMap :: "ConfigMap \<Rightarrow> ConfigMap \<Rightarrow> bool" where
  "sameConfigMap a b \<longleftrightarrow> cm_Meta a = cm_Meta b \<and>
     list_all (\<lambda>k. mget (cm_Data a) k = mget (cm_Data b) k) (mkeys (cm_Data a) @ mkeys (cm_Data b))"

lemma sameConfigMap_iff: "sameConfigMap a b \<longleftrightarrow> cm_Meta a = cm_Meta b \<and> sameEntries (cm_Data a) (cm_Data b)"
proof -
  have "mget x k = mget y k" if "\<forall>k \<in> set (mkeys x @ mkeys y). mget x k = mget y k" for x y :: cmdata and k
  proof (cases "k \<in> set (mkeys x @ mkeys y)")
    case True
    with that show ?thesis by blast
  next
    case False
    then show ?thesis by (simp add: set_mkeys)
  qed
  then show ?thesis unfolding sameConfigMap_def list_all_iff sameEntries_def by blast
qed

definition replies :: "ConfigMap \<Rightarrow> ConfigMap \<Rightarrow> resp \<Rightarrow> (objkey \<Rightarrow> kobj option) \<Rightarrow> (objkey \<Rightarrow> kobj option) \<Rightarrow> bool" where
  "replies c z r a b \<longleftrightarrow>
     (if cmVersion c \<noteq> cmVersion z then (\<exists>e. r = RErr e \<and> IsConflict e) \<and> b = a
      else if sameConfigMap c z then r = ROk (OConfigMap z) \<and> b = a
      else \<exists>y. r = ROk (OConfigMap y) \<and> cmVersion y \<noteq> cmVersion z)"

definition reliable :: "'w env \<Rightarrow> 'w view \<Rightarrow> bool" where
  "reliable E v \<longleftrightarrow> api_laws E v \<and>
     (\<forall>w k ns n x. v w (k, ns, n) = Some x \<longrightarrow> fst (api E (RGet k ns n) w) = ROk x) \<and>
     (\<forall>w k ns n. v w (k, ns, n) = None \<longrightarrow> (\<exists>e. fst (api E (RGet k ns n) w) = RErr e \<and> IsNotFound e)) \<and>
     (\<forall>w k ns ls. \<exists>xs. fst (api E (RList k ns ls) w) = RItems xs) \<and>
     (\<forall>w c z. v w (keyOf (OConfigMap c)) = Some (OConfigMap z) \<longrightarrow>
        (case api E (RUpdate (OConfigMap c)) w of (r, w') \<Rightarrow> replies c z r (v w) (v w')))"

lemma reliableD:
  assumes "reliable E v"
  shows "api_laws E v"
    and "v w (k, ns, n) = Some x \<Longrightarrow> fst (api E (RGet k ns n) w) = ROk x"
    and "v w (k, ns, n) = None \<Longrightarrow> \<exists>e. fst (api E (RGet k ns n) w) = RErr e \<and> IsNotFound e"
    and "\<exists>xs. fst (api E (RList k nso ls) w) = RItems xs"
    and "v w (keyOf (OConfigMap c)) = Some (OConfigMap z) \<Longrightarrow> api E (RUpdate (OConfigMap c)) w = (r, w') \<Longrightarrow> replies c z r (v w) (v w')"
proof -
  note rel = assms [unfolded reliable_def]
  from rel show "api_laws E v" by blast
  from rel show "v w (k, ns, n) = Some x \<Longrightarrow> fst (api E (RGet k ns n) w) = ROk x" by blast
  from rel show "v w (k, ns, n) = None \<Longrightarrow> \<exists>e. fst (api E (RGet k ns n) w) = RErr e \<and> IsNotFound e"
    by blast
  from rel show "\<exists>xs. fst (api E (RList k nso ls) w) = RItems xs" by blast
  from rel show "v w (keyOf (OConfigMap c)) = Some (OConfigMap z) \<Longrightarrow> api E (RUpdate (OConfigMap c)) w = (r, w') \<Longrightarrow> replies c z r (v w) (v w')"
    by fastforce
qed

lemma wp_found:
  assumes rel: "reliable E v" and x: "v (world s) (k, ns, n) = Some x" "proj x = Some y"
    and Q: "\<And>w. v w = v (world s) \<Longrightarrow> Q (Inr y) (afterCall (RGet k ns n) (ROk x) w s)"
  shows "wpre (getAs E proj k ns n) Q s"
proof -
  obtain r w where r: "api E (RGet k ns n) (world s) = (r, w)" by fastforce
  with reliableD(2) [OF rel x(1)] have "r = ROk x" by simp
  moreover have "v w = v (world s)" using api_lawsD(2) [OF reliableD(1) [OF rel] r] by simp
  ultimately show ?thesis using Q x(2) by (simp add: getAs_def wp wp_call r decodeOne_def)
qed

lemma wp_missing:
  assumes rel: "reliable E v" and x: "v (world s) (k, ns, n) = None"
    and Q: "\<And>e w r. v w = v (world s) \<Longrightarrow> IsNotFound e \<Longrightarrow> Q (Inl e) (afterCall (RGet k ns n) r w s)"
  shows "wpre (getAs E proj k ns n) Q s"
proof -
  obtain r w where r: "api E (RGet k ns n) (world s) = (r, w)" by fastforce
  with reliableD(3) [OF rel x] obtain e where "r = RErr e" "IsNotFound e" by auto
  moreover have "v w = v (world s)" using api_lawsD(2) [OF reliableD(1) [OF rel] r] by simp
  ultimately show ?thesis using Q by (simp add: getAs_def wp wp_call r decodeOne_def)
qed

section \<open>One pass over the entries\<close>

definition held :: "'w view \<Rightarrow> string \<Rightarrow> 'w st \<Rightarrow> ConfigMap \<Rightarrow> bool" where
  "held v ns s z \<longleftrightarrow> v (world s) (poolKey ns) = Some (OConfigMap z) \<and> keyOf (OConfigMap z) = poolKey ns \<and>
     om_DeletionTimestamp (cm_Meta z) = None"

lemma wp_update_held:
  assumes rel: "reliable E v" and z: "held v ns s z" and c: "keyOf (OConfigMap c) = poolKey ns"
    and Stale: "\<And>e t. cmVersion c \<noteq> cmVersion z \<Longrightarrow> IsConflict e \<Longrightarrow> v (world t) = v (world s) \<Longrightarrow> Q (Inl e) t"
    and Same: "\<And>t. sameConfigMap c z \<Longrightarrow> v (world t) = v (world s) \<Longrightarrow> Q (Inr z) t"
    and New: "\<And>y t. cmVersion c = cmVersion z \<Longrightarrow> \<not> sameConfigMap c z \<Longrightarrow> cmVersion y \<noteq> cmVersion z \<Longrightarrow> held v ns t y \<Longrightarrow>
      onlyAt (poolKey ns) (v (world s)) (v (world t)) \<Longrightarrow> sameEntries (cm_Data y) (cm_Data c) \<Longrightarrow> Q (Inr y) t"
  shows "wpre (updateAs E asConfigMap (OConfigMap c)) Q s"
proof -
  obtain r w where r: "api E (RUpdate (OConfigMap c)) (world s) = (r, w)" by fastforce
  have at: "v (world s) (keyOf (OConfigMap c)) = Some (OConfigMap z)" using z c by (simp add: held_def)
  note reply = reliableD(5) [OF rel at r, unfolded replies_def]
  note answer = api_lawsD(2) [OF reliableD(1) [OF rel] r]
  show ?thesis
  proof (cases "cmVersion c = cmVersion z")
    case False
    with reply obtain e where "r = RErr e" "IsConflict e" "v w = v (world s)" by auto
    with False show ?thesis by (simp add: updateAs_def wp wp_call r decodeOne_def Stale)
  next
    case True
    show ?thesis
    proof (cases "sameConfigMap c z")
      case True
      with \<open>cmVersion c = cmVersion z\<close> reply show ?thesis by (simp add: updateAs_def wp wp_call r decodeOne_def Same)
    next
      case False
      with True reply obtain y where y: "r = ROk (OConfigMap y)" "cmVersion y \<noteq> cmVersion z" by auto
      with answer at have a: "deletionOf (OConfigMap y) = deletionOf (OConfigMap z)" "agrees (OConfigMap c) (OConfigMap y)"
        "onlyAt (poolKey ns) (v (world s)) (v w)"
        "v w (poolKey ns) = (if released (OConfigMap y) then None else Some (OConfigMap y))" using c by auto
      have "om_DeletionTimestamp (cm_Meta y) = None" using a(1) z by (simp add: deletionOf_def held_def)
      with a c have "held v ns (afterCall (RUpdate (OConfigMap c)) r w s) y" by (simp add: held_def agrees_def)
      moreover have "sameEntries (cm_Data y) (cm_Data c)" using a(2) by (simp add: agrees_def sameEntries_def)
      ultimately show ?thesis using True False y a(3) by (simp add: updateAs_def wp wp_call r decodeOne_def New)
    qed
  qed
qed

text \<open>The entries a pass still has to rewrite.\<close>

definition pending :: "'w env \<Rightarrow> string \<Rightarrow> (string \<Rightarrow> string option) \<Rightarrow> (string \<Rightarrow> string option) \<Rightarrow> string set" where
  "pending E sc p f = {k. \<exists>x. f k = Some x \<and> rewrite E sc p k x \<noteq> Some x}"

text \<open>
  The loop ends with nothing left to do, or has rewritten one entry and is then refused; only the last entry it
  visits can be rewritten without being refused.
\<close>

definition loopEnd :: "'w env \<Rightarrow> string \<Rightarrow> (string \<Rightarrow> string option) \<Rightarrow> string list \<Rightarrow> (string \<Rightarrow> string option)
    \<Rightarrow> (string \<Rightarrow> string option) \<Rightarrow> unit res \<Rightarrow> bool" where
  "loopEnd E sc p ks f g r \<longleftrightarrow>
     (r = Ok () \<and> g = f \<and> pending E sc p f \<inter> set ks = {}) \<or>
     (\<exists>j \<in> pending E sc p f \<inter> set ks. g = f(j := rewrite E sc p j (the (f j))) \<and>
        (r = Ok () \<and> pending E sc p f \<inter> set ks = {j} \<or> (\<exists>e. r = Err e \<and> IsConflict e)))"

lemma loopEnd_skip: "loopEnd E sc p ks f g r \<Longrightarrow> k \<notin> pending E sc p f \<Longrightarrow> loopEnd E sc p (k # ks) f g r"
  unfolding loopEnd_def by auto

lemma wp_refused:
  assumes rel: "reliable E v" and z: "held v ns s z" and c: "keyOf (OConfigMap cm) = poolKey ns" "cmVersion cm \<noteq> cmVersion z"
    and x: "mget (cm_Data cm) k = Some x" "rewrite E sc (wanted gone pools) k x = Some y" "wanted gone pools k \<noteq> Some []"
  shows "wpre (updateEntries E sc gone pools cm (k # ks)) (\<lambda>r t. v (world t) = v (world s) \<and> (\<exists>e. r = Err e \<and> IsConflict e)) s"
  unfolding updateEntries_step [OF x] wp_bind
  by (rule wp_update_held [OF rel z])
    (use c in \<open>auto simp: keyOf_ConfigMap cmVersion_def sameConfigMap_iff wp_ret\<close>)

lemma wp_loop:
  assumes rel: "reliable E v" and pools: "\<And>k. wanted gone pools k \<noteq> Some []"
  shows "held v ns s z \<Longrightarrow> sameConfigMap cm z \<Longrightarrow> distinct ks \<Longrightarrow>
    (\<And>k. k \<in> set ks \<Longrightarrow> \<exists>x y. mget (cm_Data z) k = Some x \<and> rewrite E sc (wanted gone pools) k x = Some y) \<Longrightarrow>
    wpre (updateEntries E sc gone pools cm ks) (\<lambda>r t. onlyAt (poolKey ns) (v (world s)) (v (world t)) \<and>
      (\<exists>z'. held v ns t z' \<and> loopEnd E sc (wanted gone pools) ks (mget (cm_Data z)) (mget (cm_Data z')) r)) s"
proof (induction ks arbitrary: cm s)
  case Nil
  then show ?case by (auto simp: wp loopEnd_def)
next
  case (Cons k ks)
  let ?p = "wanted gone pools"
  from Cons.prems(4) [of k] obtain x y where x: "mget (cm_Data z) k = Some x" and y: "rewrite E sc ?p k x = Some y" by auto
  with Cons.prems(2) have x': "mget (cm_Data cm) k = Some x" by (simp add: sameConfigMap_iff sameEntries_def)
  let ?c = "cm\<lparr>cm_Data := mput (cm_Data cm) k y\<rparr>"
  have c: "keyOf (OConfigMap ?c) = poolKey ns" "cmVersion ?c = cmVersion z"
    using Cons.prems(1,2) by (simp_all add: held_def sameConfigMap_iff keyOf_ConfigMap cmVersion_def)
  show ?case
    unfolding updateEntries_step [OF x' y pools] wp_bind
  proof (rule wp_update_held [OF rel Cons.prems(1) c(1)], goal_cases)
    case (1 e t)
    with c(2) show ?case by simp
  next
    case (2 t)
    then have "y = x" using x by (simp add: sameConfigMap_iff sameEntries_def) (metis option.inject)
    then have k: "k \<notin> pending E sc ?p (mget (cm_Data z))" using x y by (simp add: pending_def)
    from Cons.prems(1) 2(2) have "held v ns t z" by (simp add: held_def)
    show ?case
      unfolding sum.case
      by (rule wp_mono [OF Cons.IH [OF \<open>held v ns t z\<close> 2(1)]])
        (use Cons.prems(3,4) 2(2) in \<open>auto intro: loopEnd_skip [OF _ k]\<close>)
  next
    case (3 y' t)
    have "mget (cm_Data y') = (mget (cm_Data z))(k := Some y)"
      using 3(6) Cons.prems(2) by (auto simp: fun_eq_iff sameEntries_def sameConfigMap_iff)
    moreover have "k \<in> pending E sc ?p (mget (cm_Data z))"
    proof (rule ccontr)
      assume "k \<notin> pending E sc ?p (mget (cm_Data z))"
      with x y have "y = x" by (simp add: pending_def)
      with 3(2) Cons.prems(2) x show False by (auto simp: sameConfigMap_iff sameEntries_def split: if_splits)
    qed
    ultimately have done': "loopEnd E sc ?p (k # ks) (mget (cm_Data z)) (mget (cm_Data y')) r"
      if "(\<exists>e. r = Err e \<and> IsConflict e) \<or> r = Ok () \<and> ks = []" for r
      using that x y by (auto simp: loopEnd_def)
    show ?case
    proof (cases ks)
      case Nil
      with 3 done' show ?thesis by (auto simp: wp)
    next
      case (Cons k2 ks2)
      from Cons.prems(4) [of k2] Cons obtain x2 y2 where "mget (cm_Data z) k2 = Some x2" "rewrite E sc ?p k2 x2 = Some y2" by auto
      moreover have "k2 \<noteq> k" using Cons.prems(3) Cons by auto
      ultimately have "mget (cm_Data ?c) k2 = Some x2" "rewrite E sc ?p k2 x2 = Some y2"
        using Cons.prems(2) by (auto simp: sameConfigMap_iff sameEntries_def)
      from wp_mono [OF wp_refused [OF rel 3(4) c(1) _ this pools]] c(2) 3 done' show ?thesis
        unfolding Cons sum.case by (auto simp: held_def)
    qed
  qed
qed

section \<open>One pass\<close>

text \<open>
  The class \<open>rq\<close> can be placed: it is gone, or it lives and its clusters can be found. Its secret and the
  secrets of the clusters are there; in a topology class the ids of the secret have addresses and pools. What a
  pass finds is determined, and no pool is the empty text: \<open>p\<close> is the pool the class gets, by cluster.
\<close>

definition lookupReady :: "'w env \<Rightarrow> objects \<Rightarrow> StorageClass \<Rightarrow> bool" where
  "lookupReady E os sc \<longleftrightarrow> (\<forall>c. isCluster os c \<longrightarrow> clusterAddr os c \<noteq> None) \<and>
     (if isTopologyClass sc
      then \<exists>D P. topologySecret E os sc D \<and> kUnmarshalAny E (mgets (sc_Parameters sc) TopologyStorageClassByMgmtId) = Inr P \<and>
        (\<forall>i j. mget D i = Some j \<longrightarrow> (\<exists>a. mgmtAddressOf j = Ok a) \<and> (\<exists>pool. extractPoolName sc P i = Ok pool))
      else classAddr os sc \<noteq> None)"

definition classReady :: "'w env \<Rightarrow> objects \<Rightarrow> request \<Rightarrow> (string \<Rightarrow> string option) \<Rightarrow> bool" where
  "classReady E os rq p \<longleftrightarrow>
     (case os (KStorageClass, rq) of
        None \<Rightarrow> True
      | Some (OStorageClass sc) \<Rightarrow> om_DeletionTimestamp (sc_Meta sc) = None \<and> lookupReady E os sc
      | _ \<Rightarrow> False) \<and>
     (\<forall>m. classSpec E os rq m \<longrightarrow> m = p) \<and> (\<forall>k. p k \<noteq> Some [])"

lemma secretAddr_Some: "secretAddr os ns n = Some a \<Longrightarrow>
    \<exists>x. os (KSecret, ns, n) = Some (OSecret x) \<and> mgets (sec_Data x) SecretManagementAddressKey = a"
  by (auto simp: secretAddr_def split: option.splits kobj.splits)

lemma wp_regularLoop_found:
  assumes rel: "reliable E v"
  shows "(\<And>c. c \<in> set cs \<Longrightarrow> clusterAddr (v (world s)) c \<noteq> None) \<Longrightarrow>
    wpre (regularLoop E sc addr cs) (\<lambda>r t. \<exists>m. r = Inr m) s"
proof (induction cs arbitrary: s)
  case Nil
  then show ?case by (simp add: wp)
next
  case (Cons c cs)
  then obtain x where x: "v (world s) (KSecret, sr_Namespace (fs_Secret (fsc_Spec c)), sr_Name (fs_Secret (fsc_Spec c))) = Some (OSecret x)"
    by (auto simp: clusterAddr_def dest!: secretAddr_Some)
  show ?case
    unfolding regularLoop.simps wp_bind
    by (rule wp_found [where y = x, OF rel x]) (use Cons in \<open>auto simp: wp_ret\<close>)
qed

lemma listed_typed:
  assumes "\<And>x. x \<in> set xs \<longleftrightarrow> selects KFsc None [] x \<and> os (keyOf x) = Some x"
  shows "list_all (\<lambda>x. asFsc x \<noteq> None) xs"
proof -
  have "asFsc x \<noteq> None" if "kindOf x = KFsc" for x using that by (cases x) simp_all
  with assms show ?thesis by (auto simp: list_all_iff selects_def)
qed

lemma wp_list_clusters:
  assumes rel: "reliable E v" and Q: "\<And>cs t. v (world t) = v (world s) \<Longrightarrow> set cs = {c. isCluster (v (world s)) c} \<Longrightarrow> Q (Inr cs) t"
  shows "wpre (listAs E asFsc KFsc None []) Q s"
proof -
  obtain r w where r: "api E (RList KFsc None []) (world s) = (r, w)" by fastforce
  with reliableD(4) [OF rel] obtain xs where xs: "r = RItems xs" by (metis fst_conv)
  from api_lawsD(2) [OF reliableD(1) [OF rel] r] have w: "v w = v (world s)"
    and sel: "\<And>x. x \<in> set xs \<longleftrightarrow> selects KFsc None [] x \<and> v (world s) (keyOf x) = Some x" unfolding xs by auto
  note typed = listed_typed [OF sel]
  from typed listed_clusters [OF typed sel] w show ?thesis
    by (simp add: listAs_def wp wp_call r xs decodeItems_def Q del: set_map)
qed

lemma wp_mapClusters_found:
  assumes rel: "reliable E v"
  shows "(\<And>c. c \<in> set cs \<Longrightarrow> clusterAddr (v (world s)) c \<noteq> None) \<Longrightarrow>
    wpre (mapClustersLoop E cs m) (\<lambda>r t. \<exists>m. r = Inr m) s"
proof (induction cs arbitrary: s m)
  case (Cons c cs)
  from Cons.prems [of c] obtain a where "clusterAddr (v (world s)) c = Some a" by auto
  then obtain x where x: "v (world s) (KSecret, sr_Namespace (fs_Secret (fsc_Spec c)), sr_Name (fs_Secret (fsc_Spec c))) = Some (OSecret x)"
    by (auto simp: clusterAddr_def dest!: secretAddr_Some)
  show ?case
    unfolding mapClustersLoop.simps wp_bind
    by (rule wp_found [where y = x, OF rel x]) (use Cons in auto)
qed (simp add: wp)

lemma topologyPools_total:
  "(\<And>i. i \<in> set ids \<Longrightarrow> mget C i \<noteq> None \<Longrightarrow> \<exists>pool. extractPoolName sc P i = Ok pool) \<Longrightarrow> \<exists>m'. topologyPools sc P C ids m = Ok m'"
  by (induction ids arbitrary: m) (force split: option.split)+

lemma wp_topology_found:
  assumes rel: "reliable E v" and all: "\<And>c. isCluster (v (world s)) c \<Longrightarrow> clusterAddr (v (world s)) c \<noteq> None"
    and D: "kUnmarshalAny E (mgets (sec_Data x) TopologySecretDataKey) = Inr D"
    and P: "kUnmarshalAny E (mgets (sc_Parameters sc) TopologyStorageClassByMgmtId) = Inr P"
    and ids: "\<And>i j. mget D i = Some j \<Longrightarrow> (\<exists>a. mgmtAddressOf j = Ok a) \<and> (\<exists>pool. extractPoolName sc P i = Ok pool)"
  shows "wpre (getFscByTopologyStorageClass E sc x) (\<lambda>r t. \<exists>m. r = Ok m) s"
proof -
  have found: "\<exists>C m. clustersByIdLoop D B (mkeys D) (MkMap []) = Ok C \<and> topologyPools sc P C (mkeys C) (MkMap []) = Ok m"
    for B :: "(string, FlashSystemCluster) gomap"
  proof -
    obtain C where C: "clustersByIdLoop D B (mkeys D) (MkMap []) = Ok C" using clustersByIdLoop_typed [of D] ids by blast
    have "mget D i \<noteq> None" if "mget C i \<noteq> None" for i
      using clustersByIdLoop_Ok [OF C] that by (auto simp: idCluster_def idAddr_def split: option.splits if_splits)
    with ids C topologyPools_total [of "mkeys C" C sc P] show ?thesis by blast
  qed
  have map: "wpre (MapClustersByMgmtAddress E) (\<lambda>r t. \<exists>m. r = Inr m) s"
    unfolding MapClustersByMgmtAddress_def wp_bind
    by (rule wp_list_clusters [OF rel]) (use all in \<open>auto intro!: wp_mapClusters_found [OF rel]\<close>)
  show ?thesis
    unfolding getFscByTopologyStorageClass_def mapClustersByMgmtId_def D P sum.case wp_bind
  proof (rule wp_mono [OF map], elim exE)
    fix r :: "goerr + (string, FlashSystemCluster) gomap" and t :: "'a st" and B
    assume r: "r = Inr B"
    from found obtain C m where "clustersByIdLoop D B (mkeys D) (MkMap []) = Ok C" "topologyPools sc P C (mkeys C) (MkMap []) = Ok m" by blast
    then show "wpre (case r of Inl e \<Rightarrow> ret (Err e) | Inr byAddr \<Rightarrow> ret (clustersByIdLoop D byAddr (mkeys D) (MkMap [])))
        (\<lambda>r. wpre (case r of Ok clusters \<Rightarrow> ret (topologyPools sc P clusters (mkeys clusters) (MkMap [])) | Err e \<Rightarrow> ret (Err e) | Panic p \<Rightarrow> ret (Panic p))
          (\<lambda>r t. \<exists>m. r = Ok m)) t"
      by (simp add: r wp_ret)
  qed
qed

lemma wp_lookup_found:
  assumes rel: "reliable E v" and ready: "lookupReady E (v (world s)) sc"
  shows "wpre (getFlashSystemClusterByStorageClass E sc (isTopologyClass sc)) (\<lambda>r t. \<exists>m. r = Ok m) s"
proof (cases "isTopologyClass sc")
  case True
  with ready obtain D P where D: "topologySecret E (v (world s)) sc D" and P: "kUnmarshalAny E (mgets (sc_Parameters sc) TopologyStorageClassByMgmtId) = Inr P"
    and ids: "\<And>i j. mget D i = Some j \<Longrightarrow> (\<exists>a. mgmtAddressOf j = Ok a) \<and> (\<exists>pool. extractPoolName sc P i = Ok pool)"
    by (auto simp: lookupReady_def)
  from D obtain n ns' x where x: "GetStorageClassSecretNamespacedName sc = Inr (n, ns')" "v (world s) (KSecret, ns', n) = Some (OSecret x)"
    "kUnmarshalAny E (mgets (sec_Data x) TopologySecretDataKey) = Inr D"
    by (auto simp: topologySecret_def)
  show ?thesis
    unfolding getFlashSystemClusterByStorageClass_def GetStorageClassSecret_def x sum.case prod.case wp_bind
    by (rule wp_found [where y = x, OF rel x(2)])
      (use True ready in \<open>auto simp: lookupReady_def intro!: wp_topology_found [OF rel _ x(3) P ids]\<close>)
next
  case False
  with ready obtain addr where "classAddr (v (world s)) sc = Some addr" by (auto simp: lookupReady_def)
  then obtain n ns' where n: "GetStorageClassSecretNamespacedName sc = Inr (n, ns')" "secretAddr (v (world s)) ns' n = Some addr"
    by (auto simp: classAddr_def split: sum.splits)
  from secretAddr_Some [OF n(2)] obtain x where x: "v (world s) (KSecret, ns', n) = Some (OSecret x)" by blast
  have list: "wpre (getFscByRegularStorageClass E sc secret) (\<lambda>r t. \<exists>m. r = Inr m) u" if u: "v (world u) = v (world s)" for secret u
    unfolding getFscByRegularStorageClass_def wp_bind
    by (rule wp_list_clusters [OF rel]) (use u ready in \<open>auto simp: lookupReady_def intro!: wp_regularLoop_found [OF rel]\<close>)
  show ?thesis
    unfolding getFlashSystemClusterByStorageClass_def GetStorageClassSecret_def n sum.case prod.case wp_bind
    by (rule wp_found [where y = x, OF rel x]) (use False in \<open>auto simp: wp_bind wp_ret intro!: wp_mono [OF list]\<close>)
qed

text \<open>How a pass ends: settled with nothing left, or asking to be run again with one entry rewritten.\<close>

definition passEnd :: "'w env \<Rightarrow> string \<Rightarrow> (string \<Rightarrow> string option) \<Rightarrow> (string \<Rightarrow> string option)
    \<Rightarrow> (string \<Rightarrow> string option) \<Rightarrow> Result res \<Rightarrow> bool" where
  "passEnd E sc p f g r \<longleftrightarrow>
     (r = Ok emptyResult \<and> g = f \<and> pending E sc p f = {}) \<or>
     (\<exists>j \<in> pending E sc p f. g = f(j := rewrite E sc p j (the (f j))) \<and>
        (r = Ok emptyResult \<and> pending E sc p f = {j} \<or> r = Ok \<lparr>RequeueAfter = Some second\<rparr>))"

lemma passEnd_loop:
  assumes "loopEnd E sc p (mkeys d) (mget d) g r"
  shows "passEnd E sc p (mget d) g (deferConflict (doneResult r))"
proof -
  have "pending E sc p (mget d) \<inter> set (mkeys d) = pending E sc p (mget d)" by (auto simp: pending_def set_mkeys)
  with assms show ?thesis by (auto simp: loopEnd_def passEnd_def deferConflict_def doneResult_def)
qed

lemma wanted_single: "mget m = singlePool n pool \<Longrightarrow> wanted False m = singlePool n pool"
  by (simp add: wanted_def fun_eq_iff)

text \<open>A pass over the entries and over the class, from the state in which the ConfigMap \<open>z\<close> is held.\<close>

definition bodyEnds :: "'w env \<Rightarrow> 'w view \<Rightarrow> string \<Rightarrow> request \<Rightarrow> (string \<Rightarrow> string option) \<Rightarrow> ConfigMap \<Rightarrow> 'w st \<Rightarrow> unit res \<Rightarrow> 'w st \<Rightarrow> bool" where
  "bodyEnds E v ns rq p z s r t \<longleftrightarrow> onlyAt (poolKey ns) (v (world s)) (v (world t)) \<and>
     (\<exists>z'. held v ns t z' \<and> passEnd E (snd rq) p (mget (cm_Data z)) (mget (cm_Data z')) (deferConflict (doneResult r)))"

lemma wp_pass_entries:
  assumes rel: "reliable E v" and z: "held v ns s z"
    and rw: "\<And>k x. mget (cm_Data z) k = Some x \<Longrightarrow> \<exists>y. rewrite E (snd rq) p k x = Some y"
    and t: "v (world t) = v (world s)" and p: "wanted gone pools = p" and ne: "\<And>k. p k \<noteq> Some []"
  shows "wpre (updateEntries E (snd rq) gone pools z (mkeys (cm_Data z))) (bodyEnds E v ns rq p z s) t"
proof -
  have held: "held v ns t z" using z t by (simp add: held_def)
  have "\<exists>x y. mget (cm_Data z) k = Some x \<and> rewrite E (snd rq) (wanted gone pools) k x = Some y" if "k \<in> set (mkeys (cm_Data z))" for k
    using that rw p by (auto simp: set_mkeys)
  then show ?thesis
    using t ne
    by (intro wp_mono [OF wp_loop [OF rel _ held, where gone = gone and pools = pools and cm = z and sc = "snd rq"]])
      (auto simp: sameConfigMap_iff sameEntries_def p bodyEnds_def intro: passEnd_loop)
qed

lemma wp_pass_class:
  assumes rel: "reliable E v" and z: "held v ns s z" and ready: "classReady E (v (world s)) rq p"
    and sc: "v (world s) (KStorageClass, rq) = Some (OStorageClass sc)"
    and dom: "\<And>k. p k \<noteq> None \<Longrightarrow> mget (cm_Data z) k \<noteq> None"
    and rw: "\<And>k x. mget (cm_Data z) k = Some x \<Longrightarrow> \<exists>y. rewrite E (snd rq) p k x = Some y"
    and t: "v (world t) = v (world s)"
  shows "wpre (ensureConfigMapUpdated E rq sc z) (bodyEnds E v ns rq p z s) t"
proof -
  from ready sc have live: "om_DeletionTimestamp (sc_Meta sc) = None" "lookupReady E (v (world s)) sc"
    and spec: "\<And>m. classSpec E (v (world s)) rq m \<Longrightarrow> m = p" and ne: "\<And>k. p k \<noteq> Some []"
    by (auto simp: classReady_def simp del: split_paired_All)
  have lookup: "wpre (getFlashSystemClusterByStorageClass E sc (isTopologyClass sc)) (\<lambda>r u. v (world u) = v (world s) \<and> (\<exists>m. r = Ok m \<and> mget m = p)) t"
    by (rule wp_mono [OF wp_conj [OF wp_class_pools [OF reliableD(1) [OF rel], of t rq sc] wp_lookup_found [OF rel, of t sc]]])
      (use t live sc spec in auto)
  show ?thesis
    unfolding ensureConfigMapUpdated_def Let_def live(1) isTopologyClass_def [symmetric] wp_bind
  proof (rule wp_mono [OF lookup], goal_cases)
    case (1 r u)
    then obtain m where m: "r = Ok m" "mget m = p" by blast
    have "list_ex (\<lambda>k. mget (cm_Data z) k = None) (mkeys m) = False"
      using m(2) dom unfolding list_ex_iff set_mkeys by blast
    moreover have "wanted False m = p" using m(2) by (simp add: wanted_def fun_eq_iff)
    ultimately show ?case using wp_pass_entries [OF rel z rw, of u False m] ne 1 m(1) by simp
  qed
qed

lemma wp_pass:
  assumes rel: "reliable E v" and z: "held v ns s z" and ready: "classReady E (v (world s)) rq p"
    and dom: "\<And>k. p k \<noteq> None \<Longrightarrow> mget (cm_Data z) k \<noteq> None"
    and rw: "\<And>k x. mget (cm_Data z) k = Some x \<Longrightarrow> \<exists>y. rewrite E (snd rq) p k x = Some y"
  shows "wpre (ScReconcile E ns rq) (\<lambda>r t. onlyAt (poolKey ns) (v (world s)) (v (world t)) \<and>
     (\<exists>z'. held v ns t z' \<and> passEnd E (snd rq) p (mget (cm_Data z)) (mget (cm_Data z')) r)) s"
proof -
  have finish: "wpre m (\<lambda>a. wpre (ret (doneResult a)) (\<lambda>r t. onlyAt (poolKey ns) (v (world s)) (v (world t)) \<and>
     (\<exists>z'. held v ns t z' \<and> passEnd E (snd rq) p (mget (cm_Data z)) (mget (cm_Data z')) (deferConflict r)))) t"
    if "wpre m (bodyEnds E v ns rq p z s) t" for m t
    by (rule wp_mono [OF that]) (simp add: wp_ret bodyEnds_def)
  have found: "v (world s) (KConfigMap, ns, PoolConfigmapName) = Some (OConfigMap z)"
    using z by (simp add: held_def poolKey_def)
  show ?thesis
    unfolding ScReconcile_def reconcileBody_def GetCreateConfigmap_def wp_bind
  proof (rule wp_found [where y = z, OF rel found], simp, unfold sum.case wp_ret wp_bind, goal_cases)
    case (1 w)
    let ?s = "afterCall (RGet KConfigMap ns PoolConfigmapName) (ROk (OConfigMap z)) w s"
    show ?case
    proof (cases "v (world s) (KStorageClass, rq)")
      case None
      then have none: "v (world ?s) (KStorageClass, fst rq, snd rq) = None" and p: "p = (\<lambda>_. None)"
        using ready 1 None by (simp_all add: classReady_def classSpec_def)
      show ?thesis
      proof (rule wp_missing [OF rel none], goal_cases)
        case (1 e w' r)
        have "wpre (updateEntries E (snd rq) True NilMap z (mkeys (cm_Data z))) (bodyEnds E v ns rq p z s)
            (afterCall (RGet KStorageClass (fst rq) (snd rq)) r w' ?s)"
          by (rule wp_pass_entries [OF rel z rw]) (use 1 \<open>v w = v (world s)\<close> p in \<open>simp_all add: wanted_def fun_eq_iff\<close>)
        from finish [OF this] 1(2) show ?case
          by (simp only: sum.case if_True wp_bind removeFromAll_updateEntries [of E "snd rq" z _ NilMap])
      qed
    next
      case (Some x)
      with ready obtain sc where sc: "x = OStorageClass sc" by (auto simp: classReady_def split: kobj.splits)
      from Some 1 sc have there: "v (world ?s) (KStorageClass, fst rq, snd rq) = Some (OStorageClass sc)" by simp
      show ?thesis
        by (rule wp_found [where y = sc, OF rel there], simp, unfold sum.case wp_bind, rule finish,
            rule wp_pass_class [OF rel z ready Some [unfolded sc] dom rw]) (use 1 in simp_all)
    qed
  qed
qed

section \<open>Passes until one settles\<close>

fun passes :: "'w env \<Rightarrow> string \<Rightarrow> request \<Rightarrow> nat \<Rightarrow> 'w st \<Rightarrow> 'w st" where
  "passes E ns rq 0 s = s"
| "passes E ns rq (Suc n) s = passes E ns rq n (snd (run_state (ScReconcile E ns rq) s))"

lemma classReady_frame:
  assumes "onlyAt (poolKey ns) a b" "classReady E a rq p"
  shows "classReady E b rq p"
proof -
  note f = pool_frame [OF assms(1)]
  have "b (KStorageClass, rq) = a (KStorageClass, rq)" using assms(1) by (cases rq) (simp add: onlyAt_def poolKey_def)
  moreover have "classAddr b = classAddr a" using f(2) by (simp add: classAddr_def fun_eq_iff cong: sum.case_cong)
  moreover have "topologySecret E b = topologySecret E a"
    using assms(1) by (simp add: fun_eq_iff topologySecret_def onlyAt_def poolKey_def)
  ultimately have "lookupReady E b = lookupReady E a" "b (KStorageClass, rq) = a (KStorageClass, rq)"
    by (simp_all add: fun_eq_iff lookupReady_def f)
  with assms(2) show ?thesis
    by (simp add: classReady_def class_frame(1) [OF assms(1)] cong: option.case_cong kobj.case_cong)
qed

text \<open>What is asked of the entries in all states between two passes.\<close>

definition rewritable :: "'w env \<Rightarrow> string \<Rightarrow> (string \<Rightarrow> string option) \<Rightarrow> (string \<Rightarrow> string option) \<Rightarrow> bool" where
  "rewritable E sc p f \<longleftrightarrow> (\<forall>k. p k \<noteq> None \<longrightarrow> f k \<noteq> None) \<and> (\<forall>k x. f k = Some x \<longrightarrow> rewrite E sc p k x \<noteq> None)"

definition rewriteAll :: "'w env \<Rightarrow> string \<Rightarrow> (string \<Rightarrow> string option) \<Rightarrow> (string \<Rightarrow> string option) \<Rightarrow> string \<Rightarrow> string option" where
  "rewriteAll E sc p f k = Option.bind (f k) (rewrite E sc p k)"

lemma rewriteAll_settled: "pending E sc p f = {} \<Longrightarrow> rewriteAll E sc p f = f"
  by (auto simp: pending_def rewriteAll_def fun_eq_iff) (metis bind_eq_Some_conv not_Some_eq)

lemma rewrite_one:
  assumes laws: "canonical_laws E valid" and valid: "valid sc" "\<forall>k pool. p k = Some pool \<longrightarrow> valid pool"
    and rw: "rewritable E sc p f" and j: "j \<in> pending E sc p f" and g: "g = f(j := rewrite E sc p j (the (f j)))"
  shows "rewritable E sc p g" "pending E sc p g = pending E sc p f - {j}" "rewriteAll E sc p g = rewriteAll E sc p f"
proof -
  from j obtain x where x: "f j = Some x" "rewrite E sc p j x \<noteq> Some x" by (auto simp: pending_def)
  with rw obtain y where y: "rewrite E sc p j x = Some y" unfolding rewritable_def by (metis option.exhaust)
  note idem = rewrite_idem [OF laws valid y]
  show "rewritable E sc p g" using rw x y idem by (auto simp: rewritable_def g)
  show "pending E sc p g = pending E sc p f - {j}" using x y idem by (auto simp: pending_def g)
  show "rewriteAll E sc p g = rewriteAll E sc p f" using x y idem by (auto simp: rewriteAll_def g fun_eq_iff)
qed

lemma pass_rewritable:
  assumes "reliable E v" "held v ns s z" "classReady E (v (world s)) rq p" "rewritable E (snd rq) p (mget (cm_Data z))"
    and "run_state (ScReconcile E ns rq) s = (r, t)"
  obtains z' where "onlyAt (poolKey ns) (v (world s)) (v (world t))" "held v ns t z'"
    "passEnd E (snd rq) p (mget (cm_Data z)) (mget (cm_Data z')) r"
proof -
  have "wpre (ScReconcile E ns rq) (\<lambda>r t. onlyAt (poolKey ns) (v (world s)) (v (world t)) \<and>
     (\<exists>z'. held v ns t z' \<and> passEnd E (snd rq) p (mget (cm_Data z)) (mget (cm_Data z')) r)) s"
    by (rule wp_pass [OF assms(1-3)]) (use assms(4) in \<open>auto simp: rewritable_def\<close>)
  from wp_runD [OF this assms(5)] that show thesis by blast
qed

lemma poolEntry_held: "held v ns t z \<Longrightarrow> poolEntry v ns (world t) = mget (cm_Data z)"
  by (auto simp: held_def poolEntry_upd)

lemma passes_settle:
  assumes rel: "reliable E v" and laws: "canonical_laws E valid" and valid: "valid (snd rq)" "\<forall>k pool. p k = Some pool \<longrightarrow> valid pool"
  shows "held v ns s z \<Longrightarrow> classReady E (v (world s)) rq p \<Longrightarrow> rewritable E (snd rq) p (mget (cm_Data z)) \<Longrightarrow>
    \<exists>n \<le> card (pending E (snd rq) p (mget (cm_Data z))). \<exists>t.
      (\<forall>m < n. fst (run_state (ScReconcile E ns rq) (passes E ns rq m s)) = Ok \<lparr>RequeueAfter = Some second\<rparr>) \<and>
      run_state (ScReconcile E ns rq) (passes E ns rq n s) = (Ok emptyResult, t) \<and>
      poolEntry v ns (world t) = rewriteAll E (snd rq) p (mget (cm_Data z))"
proof (induction "card (pending E (snd rq) p (mget (cm_Data z)))" arbitrary: s z rule: less_induct)
  case less
  let ?f = "mget (cm_Data z)"
  have fin: "finite (pending E (snd rq) p ?f)"
    by (rule finite_subset [of _ "set (mkeys (cm_Data z))"]) (auto simp: pending_def in_mkeys_iff)
  obtain r t where run: "run_state (ScReconcile E ns rq) s = (r, t)" by fastforce
  from pass_rewritable [OF rel less.prems run] obtain z' where z': "onlyAt (poolKey ns) (v (world s)) (v (world t))" "held v ns t z'"
    "passEnd E (snd rq) p ?f (mget (cm_Data z')) r" .
  note one = rewrite_one [OF laws valid less.prems(3)]
  show ?case
  proof (cases "r = Ok emptyResult")
    case True
    with z'(3) have "mget (cm_Data z') = rewriteAll E (snd rq) p ?f"
      using one rewriteAll_settled unfolding passEnd_def by (fastforce simp: emptyResult_def)
    with True run poolEntry_held [OF z'(2)] show ?thesis by (intro exI [of _ 0] conjI exI [of _ t]) simp_all
  next
    case False
    with z'(3) obtain j where j: "j \<in> pending E (snd rq) p ?f" "mget (cm_Data z') = ?f(j := rewrite E (snd rq) p j (the (?f j)))"
      and r: "r = Ok \<lparr>RequeueAfter = Some second\<rparr>" unfolding passEnd_def by blast
    note one = one [OF j]
    from fin j(1) have less': "card (pending E (snd rq) p (mget (cm_Data z'))) < card (pending E (snd rq) p ?f)"
      unfolding one(2) by (rule card_Diff1_less)
    from less.hyps [OF this z'(2) classReady_frame [OF z'(1) less.prems(2)] one(1)] obtain n u where
      n: "n \<le> card (pending E (snd rq) p (mget (cm_Data z')))"
      "\<forall>m < n. fst (run_state (ScReconcile E ns rq) (passes E ns rq m t)) = Ok \<lparr>RequeueAfter = Some second\<rparr>"
      "run_state (ScReconcile E ns rq) (passes E ns rq n t) = (Ok emptyResult, u)"
      "poolEntry v ns (world u) = rewriteAll E (snd rq) p ?f" unfolding one(3) by blast
    have "fst (run_state (ScReconcile E ns rq) (passes E ns rq m s)) = Ok \<lparr>RequeueAfter = Some second\<rparr>" if "m < Suc n" for m
      using that n(2) run r by (cases m) auto
    moreover have "Suc n \<le> card (pending E (snd rq) p ?f)" using n(1) less' by simp
    ultimately show ?thesis using n(3,4) run by (intro exI [of _ "Suc n"] conjI exI [of _ u]) auto
  qed
qed

text \<open>
  C16: Passes over a storage class come to an end. On a server that answers, while nobody else writes, for a
  class that is gone or can be placed, regular or topology, at most as many passes as there are entries to
  rewrite ask to be run again after a second; none of them fails; then a pass settles, and the
  ConfigMap is what it would be if one pass had rewritten every entry at once.
\<close>

theorem ScReconcile_converges:
  assumes "reliable E v" "canonical_laws E valid" and "valid (snd rq)" "\<forall>k pool. p k = Some pool \<longrightarrow> valid pool"
    and "held v ns s z" and "classReady E (v (world s)) rq p" and "rewritable E (snd rq) p (mget (cm_Data z))"
  shows "\<exists>n \<le> card (pending E (snd rq) p (mget (cm_Data z))). \<exists>t.
      (\<forall>m < n. fst (run_state (ScReconcile E ns rq) (passes E ns rq m s)) = Ok \<lparr>RequeueAfter = Some second\<rparr>) \<and>
      run_state (ScReconcile E ns rq) (passes E ns rq n s) = (Ok emptyResult, t) \<and>
      poolEntry v ns (world t) = rewriteAll E (snd rq) p (mget (cm_Data z))"
  by (rule passes_settle [OF assms])

subsection \<open>A server that answers\<close>

text \<open>
  The store of \<^const>\<open>storeApi\<close>, which keeps a ConfigMap and its version when an update changes nothing, and
  otherwise gives it a version it does not have.
\<close>

fun quietApi :: "req \<Rightarrow> store \<Rightarrow> resp \<times> store" where
  "quietApi (RUpdate x) w =
     (case (x, lookupObj (objs w) (keyOf x)) of
        (OConfigMap c, Some (OConfigMap z)) \<Rightarrow>
          if sameConfigMap c z
          then (ROk (OConfigMap z), w)
          else storeApi (RUpdate x) (if cmVersion z = natBase 10 (clock w) then w\<lparr>clock := Suc (clock w)\<rparr> else w)
      | _ \<Rightarrow> storeApi (RUpdate x) w)"
| "quietApi q w = storeApi q w"

definition quietEnv :: "store env" where
  "quietEnv = storeEnv\<lparr>api := quietApi\<rparr>"

lemma quiet_cases:
  obtains "quietApi q w = storeApi q w" "\<And>c z. q = RUpdate (OConfigMap c) \<Longrightarrow> lookupObj (objs w) (keyOf (OConfigMap c)) \<noteq> Some (OConfigMap z)"
  | c z where "q = RUpdate (OConfigMap c)" "lookupObj (objs w) (keyOf (OConfigMap c)) = Some (OConfigMap z)" "sameConfigMap c z"
      "quietApi q w = (ROk (OConfigMap z), w)"
  | c z n where "q = RUpdate (OConfigMap c)" "lookupObj (objs w) (keyOf (OConfigMap c)) = Some (OConfigMap z)" "\<not> sameConfigMap c z"
      "quietApi q w = storeApi q (w\<lparr>clock := n\<rparr>)" "cmVersion z \<noteq> natBase 10 n"
proof (cases "\<exists>c z. q = RUpdate (OConfigMap c) \<and> lookupObj (objs w) (keyOf (OConfigMap c)) = Some (OConfigMap z)")
  case False
  then have "quietApi q w = storeApi q w" by (cases q) (auto split: kobj.split option.split)
  with False that(1) show thesis by blast
next
  case True
  then obtain c z where q: "q = RUpdate (OConfigMap c)" "lookupObj (objs w) (keyOf (OConfigMap c)) = Some (OConfigMap z)" by blast
  show thesis
  proof (cases "sameConfigMap c z")
    case True
    with q that(2) show thesis by (simp del: storeApi.simps)
  next
    case False
    define n where "n = (if cmVersion z = natBase 10 (clock w) then Suc (clock w) else clock w)"
    have "quietApi q w = storeApi q (w\<lparr>clock := n\<rparr>)"
      using q False by (simp add: n_def del: storeApi.simps)
    moreover have "cmVersion z \<noteq> natBase 10 n" by (auto simp: n_def natBase_inject)
    ultimately show thesis using q False that(3) by blast
  qed
qed

declare quietApi.simps(1) [simp del]

lemma storeView_clock [simp]: "storeView (w\<lparr>clock := n\<rparr>) = storeView w"
  by (simp add: storeView_def fun_eq_iff)

lemma quietEnv_api_laws: "api_laws quietEnv storeView"
proof -
  have answers: "case quietApi q w of (r, w') \<Rightarrow> answers q r (storeView w) (storeView w')" for q w
  proof (cases rule: quiet_cases [of q w])
    case 1
    then show ?thesis using storeApi_answers [of q w] by simp
  next
    case (2 c z)
    then show ?thesis
      by (auto simp: storeView_def sameConfigMap_iff agrees_def keyOf_def versionOf_def sameEntries_def GetOwnerReferences_def
          dest: lookupObj_Some)
  next
    case (3 c z n)
    then show ?thesis using storeApi_answers [of q "w\<lparr>clock := n\<rparr>"] by (simp del: storeApi.simps answers.simps)
  qed
  have errors: "\<not> ownError e" if "fst (quietApi q w) = RErr e" for q w e
    by (cases rule: quiet_cases [of q w]) (use that storeApi_errors in \<open>auto simp del: storeApi.simps\<close>)
  show ?thesis
    unfolding api_laws_def using answers errors
    by (auto simp: quietEnv_def storeEnv_def storeView_def dest: lookupObj_Some)
qed

lemma quietEnv_reliable: "reliable quietEnv storeView"
proof -
  have "case quietApi (RUpdate (OConfigMap c)) w of (r, w') \<Rightarrow> replies c z r (storeView w) (storeView w')"
    if "storeView w (keyOf (OConfigMap c)) = Some (OConfigMap z)" for w c z
  proof (cases rule: quiet_cases [of "RUpdate (OConfigMap c)" w])
    case 1
    with that show ?thesis by (simp add: storeView_def)
  next
    case (2 c' z')
    with that show ?thesis by (simp add: storeView_def replies_def sameConfigMap_iff cmVersion_def)
  next
    case (3 c' z' n)
    have v: "cmVersion y = natBase 10 m" if "stamp m d x = OConfigMap y" for m d x y
      using that by (cases x) (auto simp: stamp_def cmVersion_def)
    obtain y where "stamp n (deletionOf (OConfigMap z)) (withStatusOf (serialise (OConfigMap c)) (OConfigMap z)) = OConfigMap y"
      by (simp add: stamp_def withStatusOf_def)
    with 3 that v [OF this] show ?thesis
      by (auto simp: storeView_def replies_def Let_def versionOf_def cmVersion_def statusErr_def tick_def fun_eq_iff)
  qed
  then show ?thesis
    unfolding reliable_def using quietEnv_api_laws
    by (auto simp: quietEnv_def storeView_def statusErr_def split: option.split)
qed

subsection \<open>A run\<close>

text \<open>Two entries hold the class; it belongs to the first cluster.\<close>

definition stalePools :: ConfigMap where
  "stalePools = demoCm\<lparr>cm_Data := MkMap [(''fs1'', Marshal_content demoContent),
     (''fs2'', Marshal_content (demoContent\<lparr>ContentSecret := ''other''\<rparr>))]\<rparr>"

definition staleStart :: "store st" where
  "staleStart = demoState [OConfigMap stalePools, OStorageClass demoSc, OSecret demoSecret, OFsc demoFsc]"

lemma quietEnv_canonical: "canonical_laws quietEnv validUtf8"
  using canon.canonical_codec_axioms by (simp add: canonical_laws_def quietEnv_def storeEnv_def)

lemma stale_held: "held storeView ''ns'' staleStart stalePools"
  by (simp add: held_def staleStart_def demoState_def storeView_def stalePools_def demoCm_def keyOf_def poolKey_def
      PoolConfigmapName_def released_def deletionOf_def)

definition demoPool :: "string \<Rightarrow> string option" where
  "demoPool k = (if k = ''fs1'' then Some ''p0'' else None)"

lemma stale_cluster: "isCluster (storeView (world staleStart)) c \<longleftrightarrow> c = demoFsc"
  by (auto simp: isCluster_def staleStart_def demoState_def storeView_def keyOf_def stalePools_def demoFsc_def released_def
      deletionOf_def)

lemma stale_clusters: "Collect (isCluster (storeView (world staleStart))) = {demoFsc}"
  by (auto simp: stale_cluster)

lemma stale_addr: "clusterAddr (storeView (world staleStart)) demoFsc = Some ''10.0.0.1''"
  by (simp add: clusterAddr_def secretAddr_def staleStart_def demoState_def storeView_def keyOf_def stalePools_def demoFsc_def
      demoSc_def demoSecret_def released_def deletionOf_def mgets_def SecretManagementAddressKey_def)

lemma stale_ready: "classReady quietEnv (storeView (world staleStart)) ([], ''sc1'') demoPool"
proof -
  let ?os = "storeView (world staleStart)"
  have "?os (KStorageClass, [], ''sc1'') = Some (OStorageClass demoSc)"
    by (simp add: staleStart_def demoState_def storeView_def keyOf_def stalePools_def demoSc_def released_def deletionOf_def)
  moreover have "classAddr ?os demoSc = Some ''10.0.0.1''"
    by (simp add: classAddr_def GetStorageClassSecretNamespacedName_def secretAddr_def staleStart_def demoState_def storeView_def
        keyOf_def stalePools_def demoFsc_def demoSc_def demoSecret_def released_def deletionOf_def mgets_def Let_def
        SecretManagementAddressKey_def DefaultSecretNameKey_def DefaultSecretNamespaceKey_def)
  moreover have "atAddress ?os {c. isCluster ?os c} ''10.0.0.1'' n \<Longrightarrow> n = Some ''fs1''" for n
    using stale_addr by (auto simp: atAddress_def stale_clusters demoFsc_def split: option.splits)
  moreover have "demoPool = singlePool (Some ''fs1'') ''p0''" by (auto simp: fun_eq_iff demoPool_def singlePool_def)
  moreover have "\<not> isTopologyClass demoSc" "om_DeletionTimestamp (sc_Meta demoSc) = None"
    "mgets (sc_Parameters demoSc) CsiIBMBlockScPool = ''p0''"
    by (simp_all add: isTopologyClass_def demoSc_def TopologyStorageClassByMgmtId_def CsiIBMBlockScPool_def mgets_def)
  ultimately have "lookupReady quietEnv ?os demoSc" "\<And>m. classSpec quietEnv ?os ([], ''sc1'') m \<Longrightarrow> m = demoPool"
    and "?os (KStorageClass, [], ''sc1'') = Some (OStorageClass demoSc)" "om_DeletionTimestamp (sc_Meta demoSc) = None"
    using stale_addr by (auto simp: classSpec_def lookupReady_def stale_cluster stale_clusters simp del: split_paired_All)
  then show ?thesis by (simp add: classReady_def demoPool_def)
qed

lemma stale_rewrite:
  "rewrite quietEnv ''sc1'' demoPool ''fs1'' (Marshal_content demoContent) =
     Some (Marshal_content (demoContent\<lparr>ScPoolMap := MkMap [(''sc1'', ''p0''), (''sc9'', ''p9'')]\<rparr>))"
  by code_simp

lemma stale_rewrite2:
  "rewrite quietEnv ''sc1'' demoPool ''fs2'' (Marshal_content (demoContent\<lparr>ContentSecret := ''other''\<rparr>)) \<noteq> None"
  by code_simp

theorem ScReconcile_converges_witness:
  "\<exists>n \<le> 2. \<exists>t. (\<forall>m < n. fst (run_state (ScReconcile quietEnv ''ns'' ([], ''sc1'')) (passes quietEnv ''ns'' ([], ''sc1'') m staleStart)) =
       Ok \<lparr>RequeueAfter = Some second\<rparr>) \<and>
     run_state (ScReconcile quietEnv ''ns'' ([], ''sc1'')) (passes quietEnv ''ns'' ([], ''sc1'') n staleStart) = (Ok emptyResult, t) \<and>
     poolEntry storeView ''ns'' (world t) ''fs1'' = Some (Marshal_content (demoContent\<lparr>ScPoolMap := MkMap [(''sc1'', ''p0''), (''sc9'', ''p9'')]\<rparr>))"
proof -
  have entries: "mget (cm_Data stalePools) = [''fs1'' \<mapsto> Marshal_content demoContent,
      ''fs2'' \<mapsto> Marshal_content (demoContent\<lparr>ContentSecret := ''other''\<rparr>)]"
    by (simp add: stalePools_def demoCm_def fun_eq_iff)
  have able: "rewritable quietEnv (snd (([] :: string), ''sc1'')) demoPool (mget (cm_Data stalePools))"
    using stale_rewrite stale_rewrite2 unfolding rewritable_def entries snd_conv by (auto simp: demoPool_def split: if_splits)
  have valid: "validUtf8 (snd (([] :: string), ''sc1''))" "\<forall>k pool. demoPool k = Some pool \<longrightarrow> validUtf8 pool"
    using demo_valid by (auto simp: demoPool_def split: if_splits)
  have "pending quietEnv (snd (([] :: string), ''sc1'')) demoPool (mget (cm_Data stalePools)) \<subseteq> {''fs1'', ''fs2''}"
    by (auto simp: pending_def entries split: if_splits)
  then have "card (pending quietEnv (snd (([] :: string), ''sc1'')) demoPool (mget (cm_Data stalePools))) \<le> card {''fs1'', ''fs2''}"
    by (intro card_mono) simp_all
  also have "\<dots> \<le> 2" by (simp add: card_insert_if)
  finally have two: "card (pending quietEnv (snd (([] :: string), ''sc1'')) demoPool (mget (cm_Data stalePools))) \<le> 2" .
  moreover have "rewriteAll quietEnv (snd (([] :: string), ''sc1'')) demoPool (mget (cm_Data stalePools)) ''fs1'' =
      Some (Marshal_content (demoContent\<lparr>ScPoolMap := MkMap [(''sc1'', ''p0''), (''sc9'', ''p9'')]\<rparr>))"
    using stale_rewrite unfolding rewriteAll_def entries by simp
  moreover from ScReconcile_converges [OF quietEnv_reliable quietEnv_canonical valid stale_held stale_ready able]
  obtain n t where n: "n \<le> card (pending quietEnv (snd (([] :: string), ''sc1'')) demoPool (mget (cm_Data stalePools)))"
    "\<forall>m < n. fst (run_state (ScReconcile quietEnv ''ns'' ([], ''sc1'')) (passes quietEnv ''ns'' ([], ''sc1'') m staleStart)) =
       Ok \<lparr>RequeueAfter = Some second\<rparr>"
    "run_state (ScReconcile quietEnv ''ns'' ([], ''sc1'')) (passes quietEnv ''ns'' ([], ''sc1'') n staleStart) = (Ok emptyResult, t)"
    "poolEntry storeView ''ns'' (world t) = rewriteAll quietEnv (snd (([] :: string), ''sc1'')) demoPool (mget (cm_Data stalePools))"
    by (elim exE conjE)
  ultimately show ?thesis
    by (intro exI [of _ n] exI [of _ t] conjI) (use n order_trans [OF n(1) two] in \<open>simp_all only:\<close>)
qed

end
