(* ===== verification/DeepCopy.thy ===== *)
theory DeepCopy
  imports Types
begin

text \<open>
  \<^verbatim>\<open>api/v1alpha1/zz_generated.deepcopy.go\<close>: the deep copies of the API types, on a heap of numbered cells. The
  rest of the development passes objects by value; here it is shown that a deep copy makes that right: it reads
  like the original and shares no cell with anything that existed before.
\<close>

section \<open>The heap\<close>

text \<open>
  Structs are values; a pointer is the number of a cell, a slice that of its backing array (nil is
  \<^const>\<open>None\<close>). The metadata of an object and of a list are types of apimachinery: their struct values are
  the types \<open>'m\<close> and \<open>'l\<close>, and what they point to lives in a part of the heap of its own, of type \<open>'e\<close>.
\<close>

record SpecV =
  v_Name :: string
  v_Secret :: SecretReference
  v_InsecureSkipVerify :: bool
  v_DefaultPool :: "nat option"

record StatusV =
  v_Phase :: string
  v_Conditions :: "nat option"

record 'm FscV =
  v_Kind :: string
  v_APIVersion :: string
  v_Meta :: 'm
  v_Spec :: SpecV
  v_Status :: StatusV

record 'l ListV =
  v_ListKind :: string
  v_ListAPIVersion :: string
  v_ListMeta :: 'l
  v_Items :: "nat option"

datatype ('m, 'l) cell =
    CConfig StorageClassConfig
  | CCondition Condition
  | CConditions "Condition list"
  | CSpec SpecV
  | CStatus StatusV
  | CFsc "'m FscV"
  | CFscs "'m FscV list"
  | CList "'l ListV"

record ('m, 'l, 'e) heap =
  cells :: "nat \<Rightarrow> ('m, 'l) cell option"
  lim :: nat
  foreign :: 'e

type_synonym ('m, 'l, 'e, 'a) hop = "(('m, 'l, 'e) heap, 'a) state"

definition allocCell :: "('m, 'l) cell \<Rightarrow> ('m, 'l, 'e, nat) hop" where
  "allocCell c = State (\<lambda>h. (lim h, h\<lparr>cells := (cells h)(lim h \<mapsto> c), lim := Suc (lim h)\<rparr>))"

text \<open>Go pointers refer to a cell of their type; \<open>loadCell\<close> gives \<open>z\<close> where that is not so.\<close>

definition loadCell :: "(('m, 'l) cell \<Rightarrow> 'a option) \<Rightarrow> 'a \<Rightarrow> nat \<Rightarrow> ('m, 'l, 'e, 'a) hop" where
  "loadCell get z a = State (\<lambda>h. (case Option.bind (cells h a) get of None \<Rightarrow> z | Some x \<Rightarrow> x, h))"

definition storeCell :: "nat \<Rightarrow> ('m, 'l) cell \<Rightarrow> ('m, 'l, 'e, unit) hop" where
  "storeCell a c = State (\<lambda>h. ((), h\<lparr>cells := (cells h)(a \<mapsto> c)\<rparr>))"

definition onExt :: "('e \<Rightarrow> 'a \<times> 'e) \<Rightarrow> ('m, 'l, 'e, 'a) hop" where
  "onExt f = State (\<lambda>h. case f (foreign h) of (x, e) \<Rightarrow> (x, h\<lparr>foreign := e\<rparr>))"

fun asConfig :: "('m, 'l) cell \<Rightarrow> StorageClassConfig option" where
  "asConfig (CConfig x) = Some x" | "asConfig _ = None"
fun asCondition :: "('m, 'l) cell \<Rightarrow> Condition option" where
  "asCondition (CCondition x) = Some x" | "asCondition _ = None"
fun asConditions :: "('m, 'l) cell \<Rightarrow> Condition list option" where
  "asConditions (CConditions x) = Some x" | "asConditions _ = None"
fun asSpec :: "('m, 'l) cell \<Rightarrow> SpecV option" where
  "asSpec (CSpec x) = Some x" | "asSpec _ = None"
fun asStatus :: "('m, 'l) cell \<Rightarrow> StatusV option" where
  "asStatus (CStatus x) = Some x" | "asStatus _ = None"
fun asFscV :: "('m, 'l) cell \<Rightarrow> 'm FscV option" where
  "asFscV (CFsc x) = Some x" | "asFscV _ = None"
fun asFscVs :: "('m, 'l) cell \<Rightarrow> 'm FscV list option" where
  "asFscVs (CFscs x) = Some x" | "asFscVs _ = None"
fun asListV :: "('m, 'l) cell \<Rightarrow> 'l ListV option" where
  "asListV (CList x) = Some x" | "asListV _ = None"

section \<open>Zero values\<close>

definition zeroConfig :: StorageClassConfig where
  "zeroConfig = \<lparr>scc_StorageClassName = [], scc_PoolName = [], scc_FsType = [], scc_VolumeNamePrefix = [], scc_SpaceEfficiency = []\<rparr>"

text \<open>The status of a condition has no empty value here; the zero condition is overwritten before anything reads it.\<close>

definition zeroCondition :: Condition where
  "zeroCondition = \<lparr>c_Type = [], c_Status = ConditionUnknown, c_Reason = [], c_Message = [], c_LastHeartbeatTime = 0, c_LastTransitionTime = 0\<rparr>"

definition zeroSpec :: SpecV where
  "zeroSpec = \<lparr>v_Name = [], v_Secret = \<lparr>sr_Name = [], sr_Namespace = []\<rparr>, v_InsecureSkipVerify = False, v_DefaultPool = None\<rparr>"

definition zeroStatus :: StatusV where
  "zeroStatus = \<lparr>v_Phase = [], v_Conditions = None\<rparr>"

definition zeroFsc :: "'m \<Rightarrow> 'm FscV" where
  "zeroFsc m = \<lparr>v_Kind = [], v_APIVersion = [], v_Meta = m, v_Spec = zeroSpec, v_Status = zeroStatus\<rparr>"

definition zeroList :: "'l \<Rightarrow> 'l ListV" where
  "zeroList l = \<lparr>v_ListKind = [], v_ListAPIVersion = [], v_ListMeta = l, v_Items = None\<rparr>"

section \<open>The generated functions\<close>

text \<open>The deep copies of apimachinery they call, and the zero values of its types.\<close>

record ('m, 'l, 'e) apimachinery =
  timeInto :: "int \<Rightarrow> int"
  metaInto :: "'m \<Rightarrow> 'e \<Rightarrow> 'm \<times> 'e"
  listMetaInto :: "'l \<Rightarrow> 'e \<Rightarrow> 'l \<times> 'e"
  zeroMeta :: 'm
  zeroListMeta :: 'l

text \<open>
  A \<^verbatim>\<open>DeepCopyInto\<close> yields the struct value that \<^verbatim>\<open>*out\<close> ends with: first \<^verbatim>\<open>*out = *in\<close>, then the fields that point
  somewhere are replaced. A \<^verbatim>\<open>DeepCopy\<close> of nil is nil; otherwise it allocates a zero value and copies into it.
\<close>

definition deepCopy :: "(('m, 'l) cell \<Rightarrow> 'a option) \<Rightarrow> ('a \<Rightarrow> ('m, 'l) cell) \<Rightarrow> 'a \<Rightarrow> ('a \<Rightarrow> ('m, 'l, 'e, 'a) hop)
    \<Rightarrow> nat option \<Rightarrow> ('m, 'l, 'e, nat option) hop" where
  "deepCopy get con z into p =
     (case p of
        None \<Rightarrow> ret None
      | Some a \<Rightarrow> do {
          out \<leftarrow> allocCell (con z);
          x \<leftarrow> loadCell get z a;
          y \<leftarrow> into x;
          storeCell out (con y);
          ret (Some out)
        })"

definition Config_DeepCopyInto :: "StorageClassConfig \<Rightarrow> ('m, 'l, 'e, StorageClassConfig) hop" where
  "Config_DeepCopyInto x = ret x"

definition Config_DeepCopy :: "nat option \<Rightarrow> ('m, 'l, 'e, nat option) hop" where
  "Config_DeepCopy = deepCopy asConfig CConfig zeroConfig Config_DeepCopyInto"

definition Condition_DeepCopyInto :: "('m, 'l, 'e) apimachinery \<Rightarrow> Condition \<Rightarrow> ('m, 'l, 'e, Condition) hop" where
  "Condition_DeepCopyInto D c =
     (let out = c\<lparr>c_LastHeartbeatTime := timeInto D (c_LastHeartbeatTime c)\<rparr> in
      ret (out\<lparr>c_LastTransitionTime := timeInto D (c_LastTransitionTime c)\<rparr>))"

definition Condition_DeepCopy :: "('m, 'l, 'e) apimachinery \<Rightarrow> nat option \<Rightarrow> ('m, 'l, 'e, nat option) hop" where
  "Condition_DeepCopy D = deepCopy asCondition CCondition zeroCondition (Condition_DeepCopyInto D)"

definition Spec_DeepCopyInto :: "SpecV \<Rightarrow> ('m, 'l, 'e, SpecV) hop" where
  "Spec_DeepCopyInto v =
     (case v_DefaultPool v of
        None \<Rightarrow> ret v
      | Some a \<Rightarrow> do {
          out \<leftarrow> allocCell (CConfig zeroConfig);
          x \<leftarrow> loadCell asConfig zeroConfig a;
          storeCell out (CConfig x);
          ret (v\<lparr>v_DefaultPool := Some out\<rparr>)
        })"

definition Spec_DeepCopy :: "nat option \<Rightarrow> ('m, 'l, 'e, nat option) hop" where
  "Spec_DeepCopy = deepCopy asSpec CSpec zeroSpec Spec_DeepCopyInto"

text \<open>\<^verbatim>\<open>for i := range *in\<close>: the elements from \<open>i\<close> on, each copied from the array \<open>a\<close> into the array \<open>b\<close>.\<close>

fun copyElements :: "(('m, 'l) cell \<Rightarrow> 'a list option) \<Rightarrow> ('a list \<Rightarrow> ('m, 'l) cell) \<Rightarrow> ('a \<Rightarrow> ('m, 'l, 'e, 'a) hop)
    \<Rightarrow> nat \<Rightarrow> nat \<Rightarrow> nat \<Rightarrow> nat \<Rightarrow> ('m, 'l, 'e, unit) hop" where
  "copyElements get con into a b i 0 = ret ()"
| "copyElements get con into a b i (Suc n) = do {
     xs \<leftarrow> loadCell get [] a;
     y \<leftarrow> into (xs ! i);
     ys \<leftarrow> loadCell get [] b;
     storeCell b (con (ys[i := y]));
     copyElements get con into a b (Suc i) n
   }"

definition copySlice :: "(('m, 'l) cell \<Rightarrow> 'a list option) \<Rightarrow> ('a list \<Rightarrow> ('m, 'l) cell) \<Rightarrow> 'a \<Rightarrow> ('a \<Rightarrow> ('m, 'l, 'e, 'a) hop)
    \<Rightarrow> nat \<Rightarrow> ('m, 'l, 'e, nat) hop" where
  "copySlice get con z into a = do {
     xs \<leftarrow> loadCell get [] a;
     b \<leftarrow> allocCell (con (replicate (length xs) z));
     copyElements get con into a b 0 (length xs);
     ret b
   }"

definition Status_DeepCopyInto :: "('m, 'l, 'e) apimachinery \<Rightarrow> StatusV \<Rightarrow> ('m, 'l, 'e, StatusV) hop" where
  "Status_DeepCopyInto D v =
     (case v_Conditions v of
        None \<Rightarrow> ret v
      | Some a \<Rightarrow> do {
          b \<leftarrow> copySlice asConditions CConditions zeroCondition (Condition_DeepCopyInto D) a;
          ret (v\<lparr>v_Conditions := Some b\<rparr>)
        })"

definition Status_DeepCopy :: "('m, 'l, 'e) apimachinery \<Rightarrow> nat option \<Rightarrow> ('m, 'l, 'e, nat option) hop" where
  "Status_DeepCopy D = deepCopy asStatus CStatus zeroStatus (Status_DeepCopyInto D)"

definition Fsc_DeepCopyInto :: "('m, 'l, 'e) apimachinery \<Rightarrow> 'm FscV \<Rightarrow> ('m, 'l, 'e, 'm FscV) hop" where
  "Fsc_DeepCopyInto D v = do {
     m \<leftarrow> onExt (metaInto D (v_Meta v));
     sp \<leftarrow> Spec_DeepCopyInto (v_Spec v);
     st \<leftarrow> Status_DeepCopyInto D (v_Status v);
     ret (v\<lparr>v_Meta := m, v_Spec := sp, v_Status := st\<rparr>)
   }"

definition Fsc_DeepCopy :: "('m, 'l, 'e) apimachinery \<Rightarrow> nat option \<Rightarrow> ('m, 'l, 'e, nat option) hop" where
  "Fsc_DeepCopy D = deepCopy asFscV CFsc (zeroFsc (zeroMeta D)) (Fsc_DeepCopyInto D)"

definition List_DeepCopyInto :: "('m, 'l, 'e) apimachinery \<Rightarrow> 'l ListV \<Rightarrow> ('m, 'l, 'e, 'l ListV) hop" where
  "List_DeepCopyInto D v = do {
     l \<leftarrow> onExt (listMetaInto D (v_ListMeta v));
     (case v_Items v of
        None \<Rightarrow> ret (v\<lparr>v_ListMeta := l\<rparr>)
      | Some a \<Rightarrow> do {
          b \<leftarrow> copySlice asFscVs CFscs (zeroFsc (zeroMeta D)) (Fsc_DeepCopyInto D) a;
          ret (v\<lparr>v_ListMeta := l, v_Items := Some b\<rparr>)
        })
   }"

definition List_DeepCopy :: "('m, 'l, 'e) apimachinery \<Rightarrow> nat option \<Rightarrow> ('m, 'l, 'e, nat option) hop" where
  "List_DeepCopy D = deepCopy asListV CList (zeroList (zeroListMeta D)) (List_DeepCopyInto D)"

text \<open>
  An interface value is nil or has a type and a pointer. The test keeps a nil pointer from becoming a non-nil
  interface.
\<close>

datatype runtimeObject = NilObject | FscObject nat | FscListObject nat

definition Fsc_DeepCopyObject :: "('m, 'l, 'e) apimachinery \<Rightarrow> nat option \<Rightarrow> ('m, 'l, 'e, runtimeObject) hop" where
  "Fsc_DeepCopyObject D p = do {
     c \<leftarrow> Fsc_DeepCopy D p;
     ret (case c of Some a \<Rightarrow> FscObject a | None \<Rightarrow> NilObject)
   }"

definition List_DeepCopyObject :: "('m, 'l, 'e) apimachinery \<Rightarrow> nat option \<Rightarrow> ('m, 'l, 'e, runtimeObject) hop" where
  "List_DeepCopyObject D p = do {
     c \<leftarrow> List_DeepCopy D p;
     ret (case c of Some a \<Rightarrow> FscListObject a | None \<Rightarrow> NilObject)
   }"

section \<open>What is read\<close>

text \<open>
  How the part of apimachinery is read: the metadata a struct value stands for, the cells it reaches, the cells
  that exist. A deep copy there adds cells, reads the same, and reaches new cells only.
\<close>

record ('m, 'l, 'e, 'v) metaView =
  mread :: "'e \<Rightarrow> 'm \<Rightarrow> ObjectMeta"
  mrefs :: "'e \<Rightarrow> 'm \<Rightarrow> nat set"
  lread :: "'e \<Rightarrow> 'l \<Rightarrow> 'v"
  lrefs :: "'e \<Rightarrow> 'l \<Rightarrow> nat set"
  elems :: "'e \<Rightarrow> nat set"

definition extends :: "('m, 'l, 'e, 'v) metaView \<Rightarrow> 'e \<Rightarrow> 'e \<Rightarrow> bool" where
  "extends V e e' \<longleftrightarrow> elems V e \<subseteq> elems V e' \<and>
     (\<forall>m. mrefs V e m \<subseteq> elems V e \<longrightarrow> mread V e' m = mread V e m \<and> mrefs V e' m = mrefs V e m) \<and>
     (\<forall>l. lrefs V e l \<subseteq> elems V e \<longrightarrow> lread V e' l = lread V e l \<and> lrefs V e' l = lrefs V e l)"

definition meta_laws :: "('m, 'l, 'e) apimachinery \<Rightarrow> ('m, 'l, 'e, 'v) metaView \<Rightarrow> bool" where
  "meta_laws D V \<longleftrightarrow> (\<forall>t. timeInto D t = t) \<and>
     (\<forall>m e. mrefs V e m \<subseteq> elems V e \<longrightarrow> (case metaInto D m e of (m', e') \<Rightarrow>
        extends V e e' \<and> mread V e' m' = mread V e m \<and> mrefs V e' m' \<subseteq> elems V e' - elems V e)) \<and>
     (\<forall>l e. lrefs V e l \<subseteq> elems V e \<longrightarrow> (case listMetaInto D l e of (l', e') \<Rightarrow>
        extends V e e' \<and> lread V e' l' = lread V e l \<and> lrefs V e' l' \<subseteq> elems V e' - elems V e))"

lemma extends_refl [simp]: "extends V e e"
  by (simp add: extends_def)

lemma extends_trans:
  assumes ab: "extends V a b" and bc: "extends V b c"
  shows "extends V a c"
proof -
  have m: "mread V c m = mread V a m \<and> mrefs V c m = mrefs V a m" if m: "mrefs V a m \<subseteq> elems V a" for m
  proof -
    from ab m have b: "mread V b m = mread V a m" "mrefs V b m = mrefs V a m" "elems V a \<subseteq> elems V b" by (auto simp: extends_def)
    with m have "mrefs V b m \<subseteq> elems V b" by auto
    with bc b show ?thesis by (auto simp: extends_def)
  qed
  have l: "lread V c m = lread V a m \<and> lrefs V c m = lrefs V a m" if m: "lrefs V a m \<subseteq> elems V a" for m
  proof -
    from ab m have b: "lread V b m = lread V a m" "lrefs V b m = lrefs V a m" "elems V a \<subseteq> elems V b" by (auto simp: extends_def)
    with m have "lrefs V b m \<subseteq> elems V b" by auto
    with bc b show ?thesis by (auto simp: extends_def)
  qed
  from ab bc m l show ?thesis by (auto simp: extends_def)
qed

text \<open>The value a \<^verbatim>\<open>FlashSystemCluster\<close> stands for, as the rest of the development has it.\<close>

definition readSpec :: "('m, 'l, 'e) heap \<Rightarrow> SpecV \<Rightarrow> FlashSystemClusterSpec" where
  "readSpec h v = \<lparr>fs_Name = v_Name v, fs_Secret = v_Secret v, fs_InsecureSkipVerify = v_InsecureSkipVerify v,
     fs_DefaultPool = Option.bind (v_DefaultPool v) (\<lambda>a. Option.bind (cells h a) asConfig)\<rparr>"

definition readStatus :: "('m, 'l, 'e) heap \<Rightarrow> StatusV \<Rightarrow> FlashSystemClusterStatus" where
  "readStatus h v = \<lparr>st_Phase = v_Phase v, st_Conditions =
     (case Option.bind (v_Conditions v) (\<lambda>a. Option.bind (cells h a) asConditions) of None \<Rightarrow> [] | Some cs \<Rightarrow> cs)\<rparr>"

definition readFsc :: "('m, 'l, 'e, 'v) metaView \<Rightarrow> ('m, 'l, 'e) heap \<Rightarrow> 'm FscV \<Rightarrow> FlashSystemCluster" where
  "readFsc V h v = \<lparr>fsc_Kind = v_Kind v, fsc_APIVersion = v_APIVersion v, fsc_Meta = mread V (foreign h) (v_Meta v),
     fsc_Spec = readSpec h (v_Spec v), fsc_Status = readStatus h (v_Status v)\<rparr>"

text \<open>The cells a struct value points to; each is a cell of its type.\<close>

definition fscRefs :: "'m FscV \<Rightarrow> nat set" where
  "fscRefs v = set_option (v_DefaultPool (v_Spec v)) \<union> set_option (v_Conditions (v_Status v))"

definition okSpec :: "('m, 'l, 'e) heap \<Rightarrow> SpecV \<Rightarrow> bool" where
  "okSpec h v \<longleftrightarrow> (\<forall>a. v_DefaultPool v = Some a \<longrightarrow> (\<exists>x. cells h a = Some (CConfig x)))"

definition okStatus :: "('m, 'l, 'e) heap \<Rightarrow> StatusV \<Rightarrow> bool" where
  "okStatus h v \<longleftrightarrow> (\<forall>a. v_Conditions v = Some a \<longrightarrow> (\<exists>xs. cells h a = Some (CConditions xs)))"

definition okFsc :: "('m, 'l, 'e, 'v) metaView \<Rightarrow> ('m, 'l, 'e) heap \<Rightarrow> 'm FscV \<Rightarrow> bool" where
  "okFsc V h v \<longleftrightarrow> okSpec h (v_Spec v) \<and> okStatus h (v_Status v) \<and> mrefs V (foreign h) (v_Meta v) \<subseteq> elems V (foreign h)"

definition wfHeap :: "('m, 'l, 'e) heap \<Rightarrow> bool" where
  "wfHeap h \<longleftrightarrow> (\<forall>a. cells h a \<noteq> None \<longrightarrow> a < lim h)"

text \<open>Between two heaps only cells in \<open>B\<close> and new ones have changed.\<close>

definition onlyIn :: "('m, 'l, 'e, 'v) metaView \<Rightarrow> nat set \<Rightarrow> ('m, 'l, 'e) heap \<Rightarrow> ('m, 'l, 'e) heap \<Rightarrow> bool" where
  "onlyIn V B h h' \<longleftrightarrow> lim h \<le> lim h' \<and> (\<forall>a < lim h. a \<notin> B \<longrightarrow> cells h' a = cells h a) \<and> extends V (foreign h) (foreign h') \<and>
     (wfHeap h \<longrightarrow> wfHeap h')"

lemma onlyIn_refl [simp]: "onlyIn V B h h"
  by (simp add: onlyIn_def)

lemma onlyIn_trans:
  assumes "onlyIn V B a b" and "onlyIn V C b c" and "C \<subseteq> B \<union> {lim a..}"
  shows "onlyIn V B a c"
proof -
  have "cells c x = cells a x" if x: "x < lim a" "x \<notin> B" for x
  proof -
    from x assms(3) have "x \<notin> C" by auto
    with x assms(1,2) show ?thesis unfolding onlyIn_def by (metis order_less_le_trans)
  qed
  with assms(1,2) extends_trans [of V "foreign a" "foreign b" "foreign c"] show ?thesis by (auto simp: onlyIn_def)
qed

lemma onlyIn_mono: "onlyIn V B h h' \<Longrightarrow> B \<subseteq> C \<Longrightarrow> onlyIn V C h h'"
  by (auto simp: onlyIn_def)

lemma onlyIn_cell: "onlyIn V B h h' \<Longrightarrow> wfHeap h \<Longrightarrow> cells h a = Some c \<Longrightarrow> a \<notin> B \<Longrightarrow> cells h' a = Some c"
  unfolding onlyIn_def wfHeap_def by (metis option.distinct(1))

section \<open>The heap operations\<close>

lemma wp_alloc:
  "(\<And>h'. cells h' = (cells h)(lim h \<mapsto> c) \<Longrightarrow> lim h' = Suc (lim h) \<Longrightarrow> foreign h' = foreign h \<Longrightarrow> onlyIn V {} h h' \<Longrightarrow> Q (lim h) h') \<Longrightarrow>
   wpre (allocCell c) Q h"
  by (auto simp: wpre_def allocCell_def onlyIn_def wfHeap_def less_Suc_eq)

lemma wp_load: "cells h a = Some c \<Longrightarrow> get c = Some x \<Longrightarrow> Q x h \<Longrightarrow> wpre (loadCell get z a) Q h"
  by (simp add: wpre_def loadCell_def)

lemma wp_store:
  "a < lim h \<Longrightarrow> (\<And>h'. cells h' = (cells h)(a \<mapsto> c) \<Longrightarrow> lim h' = lim h \<Longrightarrow> foreign h' = foreign h \<Longrightarrow> onlyIn V {a} h h' \<Longrightarrow> Q () h') \<Longrightarrow>
   wpre (storeCell a c) Q h"
  by (simp add: wpre_def storeCell_def onlyIn_def wfHeap_def)

lemma wp_onExt: "wpre (onExt f) Q h = (case f (foreign h) of (x, e) \<Rightarrow> Q x (h\<lparr>foreign := e\<rparr>))"
  by (simp add: wpre_def onExt_def split: prod.splits)

lemma onlyIn_wf: "onlyIn V B h h' \<Longrightarrow> wfHeap h \<Longrightarrow> wfHeap h'"
  by (simp add: onlyIn_def)

lemma onlyIn_new: "onlyIn V {} a b \<Longrightarrow> onlyIn V {x} b c \<Longrightarrow> lim a \<le> x \<Longrightarrow> onlyIn V {} a c"
  by (rule onlyIn_trans) auto

lemma onlyIn_then: "onlyIn V B a b \<Longrightarrow> onlyIn V {} b c \<Longrightarrow> onlyIn V B a c"
  by (rule onlyIn_trans) auto

subsection \<open>Slices\<close>

text \<open>
  A loop that copies the elements of an array: \<open>R k x y\<close> says that \<open>y\<close> is a copy of \<open>x\<close> in the heap \<open>k\<close>, and is not
  disturbed by a change of the array.
\<close>

lemma wp_copyElements:
  assumes h0: "wfHeap h0" "cells h0 a = Some (con xs)" and get: "\<And>ys. get (con ys) = Some ys"
    and into: "\<And>x k. x \<in> set xs \<Longrightarrow> onlyIn V {} h0 k \<Longrightarrow> wpre (into x) (\<lambda>y k'. onlyIn V {} k k' \<and> R k' x y) k"
    and stable: "\<And>x y k k' ys. R k x y \<Longrightarrow> wfHeap k \<Longrightarrow> onlyIn V {b} k k' \<Longrightarrow> cells k b = Some (con ys) \<Longrightarrow> R k' x y"
    and b: "lim h0 \<le> b"
  shows "onlyIn V {} h0 k \<Longrightarrow> b < lim k \<Longrightarrow> cells k b = Some (con ys) \<Longrightarrow> length ys = length xs \<Longrightarrow> i + n = length xs \<Longrightarrow>
    (\<And>j. j < i \<Longrightarrow> R k (xs ! j) (ys ! j)) \<Longrightarrow>
    wpre (copyElements get con into a b i n) (\<lambda>_ k'. onlyIn V {b} k k' \<and>
      (\<exists>zs. cells k' b = Some (con zs) \<and> list_all2 (R k') xs zs)) k"
proof (induction n arbitrary: i k ys)
  case 0
  then show ?case by (auto simp: wp_ret list_all2_conv_all_nth)
next
  case (Suc n)
  have wf: "wfHeap k" using h0(1) Suc.prems(1) by (rule onlyIn_wf [rotated])
  have a: "cells k a = Some (con xs)" by (rule onlyIn_cell [OF Suc.prems(1) h0]) simp
  have i: "i < length xs" using Suc.prems(5) by simp
  show ?case
    unfolding copyElements.simps wp_bind
  proof (rule wp_load [where get = get, OF a get], rule wp_mono [OF into [OF nth_mem [OF i] Suc.prems(1)]], goal_cases)
    case (1 y k1)
    then have k1: "onlyIn V {} k k1" "R k1 (xs ! i) y" by simp_all
    have bc: "cells k1 b = Some (con ys)" by (rule onlyIn_cell [OF k1(1) wf Suc.prems(3)]) simp
    have lim: "b < lim k1" using k1(1) Suc.prems(2) by (simp add: onlyIn_def)
    have wf1: "wfHeap k1" by (rule onlyIn_wf [OF k1(1) wf])
    show ?case
    proof (rule wp_load [where get = get, OF bc get], rule wp_store [where V = V, OF lim], goal_cases)
      case (1 k2)
      have k2: "onlyIn V {b} k k2" by (rule onlyIn_trans [OF onlyIn_mono [OF k1(1)] 1(4)]) auto
      have h2: "onlyIn V {} h0 k2" by (rule onlyIn_new [OF Suc.prems(1) k2 b])
      have R: "R k2 (xs ! j) (ys[i := y] ! j)" if j: "j < Suc i" for j
      proof (cases "j = i")
        case True
        with stable [OF k1(2) wf1 1(4) bc] i Suc.prems(4) show ?thesis by simp
      next
        case False
        with j have "j < i" by simp
        from stable [OF Suc.prems(6) [OF this] wf k2 Suc.prems(3)] False show ?thesis by simp
      qed
      have "wpre (copyElements get con into a b (Suc i) n) (\<lambda>_ k'. onlyIn V {b} k2 k' \<and>
          (\<exists>zs. cells k' b = Some (con zs) \<and> list_all2 (R k') xs zs)) k2"
        by (rule Suc.IH [where ys = "ys[i := y]", OF h2]) (use 1 lim Suc.prems(4,5) R in \<open>auto\<close>)
      then show ?case
        by (rule wp_mono) (auto intro: onlyIn_trans [OF k2])
    qed
  qed
qed

lemma wp_copySlice:
  assumes h0: "wfHeap h0" "cells h0 a = Some (con xs)" and get: "\<And>ys. get (con ys) = Some ys"
    and into: "\<And>x k. x \<in> set xs \<Longrightarrow> onlyIn V {} h0 k \<Longrightarrow> wpre (into x) (\<lambda>y k'. onlyIn V {} k k' \<and> R k' x y) k"
    and stable: "\<And>x y k k' ys b. R k x y \<Longrightarrow> wfHeap k \<Longrightarrow> onlyIn V {b} k k' \<Longrightarrow> cells k b = Some (con ys) \<Longrightarrow> R k' x y"
    and h: "onlyIn V {} h0 h"
  shows "wpre (copySlice get con z into a) (\<lambda>b h'. onlyIn V {} h h' \<and> lim h \<le> b \<and>
    (\<exists>ys. cells h' b = Some (con ys) \<and> list_all2 (R h') xs ys)) h"
  unfolding copySlice_def wp_bind
proof (rule wp_load [where get = get, OF onlyIn_cell [OF h h0] get], simp, rule wp_alloc [where V = V], goal_cases)
  case (1 k)
  have hk: "onlyIn V {} h0 k" by (rule onlyIn_then [OF h 1(4)])
  have b: "lim h0 \<le> lim h" using h by (simp add: onlyIn_def)
  have "wpre (copyElements get con into a (lim h) 0 (length xs)) (\<lambda>_ k'. onlyIn V {lim h} k k' \<and>
      (\<exists>zs. cells k' (lim h) = Some (con zs) \<and> list_all2 (R k') xs zs)) k"
    by (rule wp_copyElements [where xs = xs and ys = "replicate (length xs) z", OF h0 get into stable b hk]) (use 1 in auto)
  then show ?case
    by (rule wp_mono) (auto simp: wp_ret intro: onlyIn_new [OF 1(4)])
qed


subsection \<open>Pointers\<close>

lemma wp_deepCopy:
  assumes h: "wfHeap h" "cells h a = Some (con x)" and get: "\<And>y. get (con y) = Some y"
    and into: "\<And>k. onlyIn V {} h k \<Longrightarrow> wpre (into x) (\<lambda>y k'. onlyIn V {} k k' \<and> R k' y) k"
    and stable: "\<And>y k k' b. R k y \<Longrightarrow> wfHeap k \<Longrightarrow> onlyIn V {b} k k' \<Longrightarrow> cells k b = Some (con z) \<Longrightarrow> R k' y"
  shows "wpre (deepCopy get con z into (Some a)) (\<lambda>r h'. onlyIn V {} h h' \<and>
    (\<exists>b y. r = Some b \<and> lim h \<le> b \<and> cells h' b = Some (con y) \<and> R h' y)) h"
  unfolding deepCopy_def option.case wp_bind
proof (rule wp_alloc [where V = V], goal_cases)
  case (1 k)
  have a: "cells k a = Some (con x)" by (rule onlyIn_cell [OF 1(4) h]) simp
  have wf: "wfHeap k" by (rule onlyIn_wf [OF 1(4) h(1)])
  show ?case
  proof (rule wp_load [where get = get, OF a get], rule wp_mono [OF into [OF 1(4)]], goal_cases)
    case (1 y k1)
    then have k1: "onlyIn V {} k k1" "R k1 y" by simp_all
    have b: "cells k1 (lim h) = Some (con z)" by (rule onlyIn_cell [OF k1(1) wf]) (simp_all add: \<open>cells k = _\<close>)
    have lim: "lim h < lim k1" using k1(1) \<open>lim k = _\<close> by (simp add: onlyIn_def)
    show ?case
    proof (rule wp_store [where V = V, OF lim], goal_cases)
      case (1 k2)
      have "R k2 y" by (rule stable [OF k1(2) onlyIn_wf [OF k1(1) wf] 1(4) b])
      moreover have "onlyIn V {} h k2"
        by (rule onlyIn_new [OF onlyIn_then [OF \<open>onlyIn V {} h k\<close> k1(1)] 1(4)]) simp
      ultimately show ?case by (auto simp: wp_ret 1)
    qed
  qed
qed

section \<open>Copies of the API objects\<close>

lemmas onlyIn_keeps = onlyIn_cell [where B = "{}", simplified]

text \<open>A value whose cells were left alone reads as before.\<close>

lemma readSpec_onlyIn:
  "okSpec h v \<Longrightarrow> wfHeap h \<Longrightarrow> onlyIn V B h h' \<Longrightarrow> set_option (v_DefaultPool v) \<inter> B = {} \<Longrightarrow> okSpec h' v \<and> readSpec h' v = readSpec h v"
  by (cases "v_DefaultPool v") (auto simp: okSpec_def readSpec_def dest: onlyIn_cell)

lemma readStatus_onlyIn:
  "okStatus h v \<Longrightarrow> wfHeap h \<Longrightarrow> onlyIn V B h h' \<Longrightarrow> set_option (v_Conditions v) \<inter> B = {} \<Longrightarrow> okStatus h' v \<and> readStatus h' v = readStatus h v"
  by (cases "v_Conditions v") (auto simp: okStatus_def readStatus_def dest: onlyIn_cell)

lemma readFsc_onlyIn:
  assumes "okFsc V h v" "wfHeap h" "onlyIn V B h h'" "fscRefs v \<inter> B = {}"
  shows "okFsc V h' v \<and> readFsc V h' v = readFsc V h v \<and> mrefs V (foreign h') (v_Meta v) = mrefs V (foreign h) (v_Meta v)"
proof -
  from assms have "mrefs V (foreign h) (v_Meta v) \<subseteq> elems V (foreign h)" "extends V (foreign h) (foreign h')"
    by (simp_all add: okFsc_def onlyIn_def)
  then have m: "mread V (foreign h') (v_Meta v) = mread V (foreign h) (v_Meta v)"
    "mrefs V (foreign h') (v_Meta v) = mrefs V (foreign h) (v_Meta v)" "mrefs V (foreign h') (v_Meta v) \<subseteq> elems V (foreign h')"
    by (auto simp: extends_def)
  from assms(4) have "set_option (v_DefaultPool (v_Spec v)) \<inter> B = {}" "set_option (v_Conditions (v_Status v)) \<inter> B = {}"
    by (auto simp: fscRefs_def)
  with assms readSpec_onlyIn [of h "v_Spec v" V B h'] readStatus_onlyIn [of h "v_Status v" V B h']
  have "okSpec h' (v_Spec v)" "readSpec h' (v_Spec v) = readSpec h (v_Spec v)"
    "okStatus h' (v_Status v)" "readStatus h' (v_Status v) = readStatus h (v_Status v)"
    by (simp_all add: okFsc_def)
  with m show ?thesis by (simp add: okFsc_def readFsc_def)
qed

lemma fscRefs_cell:
  assumes "okFsc V h v" and "cells h b = Some c" and "asConfig c = None" and "asConditions c = None"
  shows "fscRefs v \<inter> {b} = {}"
  using assms by (auto simp: fscRefs_def okFsc_def okSpec_def okStatus_def)

lemma wp_Spec:
  assumes "okSpec h v" "wfHeap h"
  shows "wpre (Spec_DeepCopyInto v) (\<lambda>v' h'. onlyIn V {} h h' \<and> foreign h' = foreign h \<and> okSpec h' v' \<and>
    readSpec h' v' = readSpec h v \<and> set_option (v_DefaultPool v') \<subseteq> {lim h..}) h"
proof (cases "v_DefaultPool v")
  case None
  with assms show ?thesis by (simp add: Spec_DeepCopyInto_def wp_ret)
next
  case (Some a)
  with assms obtain x where x: "cells h a = Some (CConfig x)" by (auto simp: okSpec_def)
  show ?thesis
    unfolding Spec_DeepCopyInto_def Some option.case wp_bind
  proof (rule wp_alloc [where V = V], goal_cases)
    case (1 k)
    have a: "cells k a = Some (CConfig x)" by (rule onlyIn_keeps [OF 1(4) assms(2) x])
    have b: "lim h < lim k" by (simp add: 1(2))
    show ?case
    proof (rule wp_load [where get = asConfig, OF a asConfig.simps(1)], rule wp_store [where V = V, OF b], goal_cases)
      case (1 k')
      have "onlyIn V {} h k'" by (rule onlyIn_new [OF \<open>onlyIn V {} h k\<close> 1(4)]) simp
      with 1 Some x \<open>foreign k = _\<close> show ?case by (simp add: wp_ret okSpec_def readSpec_def)
    qed
  qed
qed

lemma wp_Status:
  assumes D: "meta_laws D V" and v: "okStatus h v" and wf: "wfHeap h"
  shows "wpre (Status_DeepCopyInto D v) (\<lambda>v' h'. onlyIn V {} h h' \<and> okStatus h' v' \<and> readStatus h' v' = readStatus h v \<and>
    set_option (v_Conditions v') \<subseteq> {lim h..} \<and> (v_Conditions v' = None \<longleftrightarrow> v_Conditions v = None)) h"
proof (cases "v_Conditions v")
  case None
  with v show ?thesis by (simp add: Status_DeepCopyInto_def wp_ret)
next
  case (Some a)
  with v obtain cs where cs: "cells h a = Some (CConditions cs)" by (auto simp: okStatus_def)
  have into: "Condition_DeepCopyInto D c = ret c" for c :: Condition
    using D by (simp add: Condition_DeepCopyInto_def meta_laws_def)
  show ?thesis
    unfolding Status_DeepCopyInto_def Some option.case wp_bind
    by (rule wp_mono [OF wp_copySlice [where V = V and R = "\<lambda>_. (=)" and con = CConditions, OF wf cs]])
      (auto simp: wp_ret into okStatus_def readStatus_def Some cs list.rel_eq)
qed

text \<open>\<open>v'\<close>, in a later heap, is a copy of \<open>v\<close>.\<close>

definition fscCopy :: "('m, 'l, 'e, 'v) metaView \<Rightarrow> ('m, 'l, 'e) heap \<Rightarrow> 'm FscV \<Rightarrow> ('m, 'l, 'e) heap \<Rightarrow> 'm FscV \<Rightarrow> bool" where
  "fscCopy V h v h' v' \<longleftrightarrow> okFsc V h' v' \<and> readFsc V h' v' = readFsc V h v \<and> fscRefs v' \<inter> {..<lim h} = {} \<and>
     mrefs V (foreign h') (v_Meta v') \<inter> elems V (foreign h) = {} \<and>
     (v_Conditions (v_Status v') = None \<longleftrightarrow> v_Conditions (v_Status v) = None)"

lemma fscCopy_onlyIn:
  assumes "fscCopy V h v k v'" "wfHeap k" "onlyIn V B k k'" "fscRefs v' \<inter> B = {}"
  shows "fscCopy V h v k' v'"
  using assms readFsc_onlyIn [of V k v' B k'] by (simp add: fscCopy_def)

lemma fscCopy_since:
  assumes "okFsc V h v" "wfHeap h" "onlyIn V {} h k" "fscCopy V k v k' v'"
  shows "fscCopy V h v k' v'"
  using assms readFsc_onlyIn [of V h v "{}" k] unfolding fscCopy_def
  by (auto simp: onlyIn_def extends_def)

lemma wp_Fsc:
  assumes D: "meta_laws D V" and v: "okFsc V h v" and wf: "wfHeap h"
  shows "wpre (Fsc_DeepCopyInto D v) (\<lambda>v' h'. onlyIn V {} h h' \<and> fscCopy V h v h' v') h"
proof -
  obtain m e where m: "metaInto D (v_Meta v) (foreign h) = (m, e)" by force
  from D v m have e: "extends V (foreign h) e" "mread V e m = mread V (foreign h) (v_Meta v)" "mrefs V e m \<subseteq> elems V e - elems V (foreign h)"
    unfolding meta_laws_def okFsc_def by fastforce+
  define k where "k = h\<lparr>foreign := e\<rparr>"
  have k: "onlyIn V {} h k" using e(1) by (simp add: k_def onlyIn_def wfHeap_def)
  have wfk: "wfHeap k" by (rule onlyIn_wf [OF k wf])
  have sp: "okSpec k (v_Spec v)" "readSpec k (v_Spec v) = readSpec h (v_Spec v)"
    and st: "okStatus k (v_Status v)" "readStatus k (v_Status v) = readStatus h (v_Status v)"
    using v by (simp_all add: k_def okFsc_def okSpec_def okStatus_def readSpec_def readStatus_def)
  show ?thesis
    unfolding Fsc_DeepCopyInto_def wp_bind wp_onExt m prod.case k_def [symmetric]
  proof (rule wp_mono [OF wp_Spec [where V = V, OF sp(1) wfk]], goal_cases)
    case (1 s k1)
    note s = 1
    have wf1: "wfHeap k1" using s onlyIn_wf [OF _ wfk] by blast
    have st1: "okStatus k1 (v_Status v)" "readStatus k1 (v_Status v) = readStatus h (v_Status v)"
      using readStatus_onlyIn [OF st(1) wfk, of V "{}" k1] s st(2) by simp_all
    show ?case
    proof (rule wp_mono [OF wp_Status [where V = V, OF D st1(1) wf1]], goal_cases)
      case (1 t k2)
      have k2: "onlyIn V {} h k2" using onlyIn_then [OF onlyIn_then [OF k], of k1 k2] s 1 by simp
      have s2: "okSpec k2 s" "readSpec k2 s = readSpec h (v_Spec v)"
        using readSpec_onlyIn [of k1 s V "{}" k2] s 1 wf1 sp(2) by simp_all
      have lim: "lim h \<le> lim k1" using s by (simp add: onlyIn_def k_def)
      have x: "extends V e (foreign k2)" using s 1 by (simp add: onlyIn_def k_def)
      from e(3) have "mrefs V e m \<subseteq> elems V e" by blast
      with x have "mread V (foreign k2) m = mread V e m" "mrefs V (foreign k2) m = mrefs V e m" "elems V e \<subseteq> elems V (foreign k2)"
        by (simp_all add: extends_def)
      with e(2,3) have "mread V (foreign k2) m = mread V (foreign h) (v_Meta v)" "mrefs V (foreign k2) m \<subseteq> elems V (foreign k2)"
        "mrefs V (foreign k2) m \<inter> elems V (foreign h) = {}"
        by auto
      moreover have "(set_option (v_DefaultPool s) \<union> set_option (v_Conditions t)) \<inter> {..<lim h} = {}"
        using s 1 lim by (fastforce simp: k_def)
      ultimately show ?case
        using k2 s2 1 st1(2) by (simp add: wp_ret fscCopy_def okFsc_def readFsc_def fscRefs_def)
    qed
  qed
qed


lemma asFscV_stable:
  assumes "fscCopy V h v k v'" "wfHeap k" "onlyIn V {b} k k'" "cells k b = Some c" "asConfig c = None" "asConditions c = None"
  shows "fscCopy V h v k' v'"
proof -
  have "fscRefs v' \<inter> {b} = {}"
    using assms(1) by (intro fscRefs_cell [where V = V, OF _ assms(4-6)]) (simp add: fscCopy_def)
  with assms(1-3) show ?thesis by (rule fscCopy_onlyIn)
qed

lemma wp_Fsc_since:
  assumes "meta_laws D V" "okFsc V h v" "wfHeap h" "onlyIn V {} h k"
  shows "wpre (Fsc_DeepCopyInto D v) (\<lambda>v' k'. onlyIn V {} k k' \<and> fscCopy V h v k' v') k"
proof -
  have "okFsc V k v" using readFsc_onlyIn [OF assms(2,3,4)] by simp
  from wp_Fsc [OF assms(1) this onlyIn_wf [OF assms(4,3)]] show ?thesis
    by (rule wp_mono) (auto intro: fscCopy_since [OF assms(2-4)])
qed

lemma wp_Fsc_DeepCopy:
  assumes D: "meta_laws D V" and h: "wfHeap h" "cells h a = Some (CFsc v)" "okFsc V h v"
  shows "wpre (Fsc_DeepCopy D (Some a)) (\<lambda>r h'. onlyIn V {} h h' \<and>
    (\<exists>b v'. r = Some b \<and> lim h \<le> b \<and> cells h' b = Some (CFsc v') \<and> fscCopy V h v h' v')) h"
  unfolding Fsc_DeepCopy_def
  by (rule wp_deepCopy [where con = CFsc and R = "fscCopy V h v", OF h(1,2)])
    (auto intro: wp_Fsc_since [OF D h(3,1)] elim: asFscV_stable)

text \<open>The same for a list: its items are copied one by one into a new array.\<close>

definition okList :: "('m, 'l, 'e, 'v) metaView \<Rightarrow> ('m, 'l, 'e) heap \<Rightarrow> 'l ListV \<Rightarrow> bool" where
  "okList V h v \<longleftrightarrow> lrefs V (foreign h) (v_ListMeta v) \<subseteq> elems V (foreign h) \<and>
     (\<forall>a. v_Items v = Some a \<longrightarrow> (\<exists>xs. cells h a = Some (CFscs xs) \<and> (\<forall>x \<in> set xs. okFsc V h x)))"

definition listCopy :: "('m, 'l, 'e, 'v) metaView \<Rightarrow> ('m, 'l, 'e) heap \<Rightarrow> 'l ListV \<Rightarrow> ('m, 'l, 'e) heap \<Rightarrow> 'l ListV \<Rightarrow> bool" where
  "listCopy V h v h' v' \<longleftrightarrow> v_ListKind v' = v_ListKind v \<and> v_ListAPIVersion v' = v_ListAPIVersion v \<and>
     lread V (foreign h') (v_ListMeta v') = lread V (foreign h) (v_ListMeta v) \<and>
     lrefs V (foreign h') (v_ListMeta v') \<subseteq> elems V (foreign h') - elems V (foreign h) \<and>
     (case v_Items v of
        None \<Rightarrow> v_Items v' = None
      | Some a \<Rightarrow> (\<exists>b xs ys. v_Items v' = Some b \<and> lim h \<le> b \<and> cells h a = Some (CFscs xs) \<and>
          cells h' b = Some (CFscs ys) \<and> list_all2 (\<lambda>x y. fscCopy V h x h' y) xs ys))"

lemma listCopy_stable:
  assumes c: "listCopy V h v k v'" and k: "wfHeap k" "onlyIn V {b} k k'" "cells k b = Some (CList l)"
  shows "listCopy V h v k' v'"
proof -
  have x: "extends V (foreign k) (foreign k')" "lrefs V (foreign k) (v_ListMeta v') \<subseteq> elems V (foreign k)"
    using k c by (auto simp: onlyIn_def listCopy_def)
  have arr: "cells k' d = Some (CFscs ys)" if "cells k d = Some (CFscs ys)" for d ys
    using that k by (auto intro: onlyIn_cell)
  have "list_all2 (\<lambda>x y. fscCopy V h x k' y) xs ys" if "list_all2 (\<lambda>x y. fscCopy V h x k y) xs ys" for xs ys
    using that by (rule list_all2_mono) (rule asFscV_stable [OF _ k], simp_all)
  with c x arr show ?thesis
    unfolding listCopy_def by (auto simp: extends_def split: option.splits)
qed

lemma wp_List:
  assumes D: "meta_laws D V" and v: "okList V h v" and wf: "wfHeap h" and k: "onlyIn V {} h k"
  shows "wpre (List_DeepCopyInto D v) (\<lambda>v' k'. onlyIn V {} k k' \<and> listCopy V h v k' v') k"
proof -
  have xk: "extends V (foreign h) (foreign k)" using k by (simp add: onlyIn_def)
  have lk: "lread V (foreign k) (v_ListMeta v) = lread V (foreign h) (v_ListMeta v)"
    "lrefs V (foreign k) (v_ListMeta v) \<subseteq> elems V (foreign k)" "elems V (foreign h) \<subseteq> elems V (foreign k)"
    using xk v by (auto simp: extends_def okList_def)
  obtain m e where m: "listMetaInto D (v_ListMeta v) (foreign k) = (m, e)" by force
  from D lk(2) m have e: "extends V (foreign k) e" "lread V e m = lread V (foreign k) (v_ListMeta v)"
    "lrefs V e m \<subseteq> elems V e - elems V (foreign k)"
    unfolding meta_laws_def by fastforce+
  define k0 where "k0 = k\<lparr>foreign := e\<rparr>"
  have k0: "onlyIn V {} k k0" using e(1) by (simp add: k0_def onlyIn_def wfHeap_def)
  have l: "lread V (foreign k') m = lread V (foreign h) (v_ListMeta v) \<and>
      lrefs V (foreign k') m \<subseteq> elems V (foreign k') - elems V (foreign h)" if "onlyIn V {} k0 k'" for k'
  proof -
    from that have x: "extends V e (foreign k')" by (simp add: onlyIn_def k0_def)
    from e(3) have "lrefs V e m \<subseteq> elems V e" by blast
    with x have "lread V (foreign k') m = lread V e m" "lrefs V (foreign k') m = lrefs V e m" "elems V e \<subseteq> elems V (foreign k')"
      by (simp_all add: extends_def)
    with e lk show ?thesis by auto
  qed
  show ?thesis
  proof (cases "v_Items v")
    case None
    moreover have "foreign k0 = e" by (simp add: k0_def)
    ultimately show ?thesis using k0 l [of k0]
      by (simp add: List_DeepCopyInto_def wp_bind wp_onExt m wp_ret k0_def [symmetric] listCopy_def)
  next
    case (Some a)
    with v obtain xs where xs: "cells h a = Some (CFscs xs)" "\<forall>x \<in> set xs. okFsc V h x" by (auto simp: okList_def)
    have hk: "onlyIn V {} h k0" by (rule onlyIn_then [OF k k0])
    have lim: "lim h \<le> lim k0" using hk by (simp add: onlyIn_def)
    have copy: "wpre (copySlice asFscVs CFscs z (Fsc_DeepCopyInto D) a) (\<lambda>b h'. onlyIn V {} k0 h' \<and> lim k0 \<le> b \<and>
        (\<exists>ys. cells h' b = Some (CFscs ys) \<and> list_all2 (\<lambda>x y. fscCopy V h x h' y) xs ys)) k0" for z
    proof (rule wp_copySlice [where con = CFscs and R = "\<lambda>k x y. fscCopy V h x k y", OF wf xs(1) _ _ _ hk], goal_cases)
      case (2 x k')
      with xs(2) show ?case by (intro wp_Fsc_since [OF D _ wf]) auto
    next
      case (3 x y k' k'' ys b)
      then show ?case by (intro asFscV_stable [of V h x k' y b k'' "CFscs ys"]) auto
    qed simp
    show ?thesis
      unfolding List_DeepCopyInto_def wp_bind wp_onExt m prod.case k0_def [symmetric] Some option.case
    proof (rule wp_mono [OF copy], goal_cases)
      case (1 b k')
      with l [of k'] onlyIn_then [OF k0, of k'] lim xs(1) Some show ?case
        by (auto simp: wp_ret listCopy_def)
    qed
  qed
qed

lemma wp_List_DeepCopy:
  assumes D: "meta_laws D V" and h: "wfHeap h" "cells h a = Some (CList v)" "okList V h v"
  shows "wpre (List_DeepCopy D (Some a)) (\<lambda>r h'. onlyIn V {} h h' \<and>
    (\<exists>b v'. r = Some b \<and> lim h \<le> b \<and> cells h' b = Some (CList v') \<and> listCopy V h v h' v')) h"
  unfolding List_DeepCopy_def
  by (rule wp_deepCopy [where con = CList and R = "listCopy V h v", OF h(1,2)])
    (auto intro: wp_List [OF D h(3,1)] elim: listCopy_stable)


section \<open>The copies and the originals\<close>

lemma fscRefs_below: "okFsc V h v \<Longrightarrow> wfHeap h \<Longrightarrow> fscRefs v \<subseteq> {..<lim h}"
  by (auto simp: okFsc_def okSpec_def okStatus_def fscRefs_def wfHeap_def)

lemma Fsc_copy_apart:
  assumes h: "wfHeap h" "cells h a = Some (CFsc v)" "okFsc V h v"
    and h': "onlyIn V {} h h'" "lim h \<le> b" "cells h' b = Some (CFsc v')" "fscCopy V h v h' v'"
  shows "onlyIn V (insert b (fscRefs v')) h' k \<Longrightarrow> cells k a = Some (CFsc v) \<and> readFsc V k v = readFsc V h v"
    and "onlyIn V (insert a (fscRefs v)) h' k \<Longrightarrow> cells k b = Some (CFsc v') \<and> readFsc V k v' = readFsc V h v"
proof -
  have wf: "wfHeap h'" by (rule onlyIn_wf [OF h'(1) h(1)])
  have old: "fscRefs v \<subseteq> {..<lim h}" "a < lim h" using fscRefs_below [OF h(3,1)] h by (auto simp: wfHeap_def)
  have new: "fscRefs v' \<inter> {..<lim h} = {}" using h'(4) by (simp add: fscCopy_def)
  have v: "okFsc V h' v" "readFsc V h' v = readFsc V h v" using readFsc_onlyIn [OF h(3,1) h'(1)] by simp_all
  have v': "okFsc V h' v'" "readFsc V h' v' = readFsc V h v" using h'(4) by (simp_all add: fscCopy_def)
  show "cells k a = Some (CFsc v) \<and> readFsc V k v = readFsc V h v" if k: "onlyIn V (insert b (fscRefs v')) h' k"
  proof -
    have "fscRefs v \<inter> insert b (fscRefs v') = {}" "a \<notin> insert b (fscRefs v')" using old new h'(2) by auto
    with readFsc_onlyIn [OF v(1) wf k] v(2) onlyIn_cell [OF k wf onlyIn_keeps [OF h'(1) h(1,2)]] show ?thesis by simp
  qed
  show "cells k b = Some (CFsc v') \<and> readFsc V k v' = readFsc V h v" if k: "onlyIn V (insert a (fscRefs v)) h' k"
  proof -
    have "fscRefs v' \<inter> insert a (fscRefs v) = {}" "b \<notin> insert a (fscRefs v)" using old new h'(2) by auto
    with readFsc_onlyIn [OF v'(1) wf k] v'(2) onlyIn_cell [OF k wf h'(3)] show ?thesis by simp
  qed
qed

lemma listCopy_after:
  assumes c: "listCopy V h v h' v'" and h: "wfHeap h" "onlyIn V {} h h'" and k: "onlyIn V {..<lim h} h' k"
  shows "listCopy V h v k v'"
proof -
  have wf: "wfHeap h'" by (rule onlyIn_wf [OF h(2,1)])
  have x: "extends V (foreign h') (foreign k)" "lrefs V (foreign h') (v_ListMeta v') \<subseteq> elems V (foreign h')"
    using k c by (auto simp: onlyIn_def listCopy_def)
  have arr: "cells k d = Some (CFscs ys)" if "cells h' d = Some (CFscs ys)" "lim h \<le> d" for d ys
    using that by (auto intro: onlyIn_cell [OF k wf])
  have "list_all2 (\<lambda>x y. fscCopy V h x k y) xs ys" if "list_all2 (\<lambda>x y. fscCopy V h x h' y) xs ys" for xs ys
    using that by (rule list_all2_mono) (rule fscCopy_onlyIn [OF _ wf k], simp_all add: fscCopy_def)
  with c x arr show ?thesis
    unfolding listCopy_def by (auto simp: extends_def split: option.splits)
qed

subsection \<open>A sample heap\<close>

text \<open>Metadata as the index of an entry of a table that deep copies append to; the list metadata points nowhere.\<close>

definition tableMachinery :: "(nat, unit, ObjectMeta list) apimachinery" where
  "tableMachinery = \<lparr>timeInto = (\<lambda>t. t), metaInto = (\<lambda>m e. (length e, e @ [e ! m])), listMetaInto = (\<lambda>l e. (l, e)),
     zeroMeta = 0, zeroListMeta = ()\<rparr>"

definition tableView :: "(nat, unit, ObjectMeta list, unit) metaView" where
  "tableView = \<lparr>mread = (\<lambda>e m. e ! m), mrefs = (\<lambda>e m. {m}), lread = (\<lambda>e l. ()), lrefs = (\<lambda>e l. {}), elems = (\<lambda>e. {..<length e})\<rparr>"

lemma table_laws: "meta_laws tableMachinery tableView"
  by (auto simp: meta_laws_def extends_def tableMachinery_def tableView_def nth_append)

definition sampleFscV :: "nat FscV" where
  "sampleFscV = \<lparr>v_Kind = ''FlashSystemCluster'', v_APIVersion = ''odf.ibm.com/v1alpha1'', v_Meta = 0,
     v_Spec = \<lparr>v_Name = ''fs'', v_Secret = \<lparr>sr_Name = ''s'', sr_Namespace = ''ns''\<rparr>, v_InsecureSkipVerify = True, v_DefaultPool = Some 0\<rparr>,
     v_Status = \<lparr>v_Phase = ''Ready'', v_Conditions = Some 1\<rparr>\<rparr>"

definition sampleHeap :: "(nat, unit, ObjectMeta list) heap" where
  "sampleHeap = \<lparr>cells = [0 \<mapsto> CConfig zeroConfig, 1 \<mapsto> CConditions [zeroCondition], 2 \<mapsto> CFsc sampleFscV,
     3 \<mapsto> CFscs [sampleFscV, zeroFsc 0], 4 \<mapsto> CList \<lparr>v_ListKind = [], v_ListAPIVersion = [], v_ListMeta = (), v_Items = Some 3\<rparr>],
     lim = 5, foreign = [mkMeta ''fs'' ''ns'']\<rparr>"

lemma sampleHeap_ok:
  "wfHeap sampleHeap" "okFsc tableView sampleHeap sampleFscV" "cells sampleHeap 2 = Some (CFsc sampleFscV)"
  "cells sampleHeap 4 = Some (CList \<lparr>v_ListKind = [], v_ListAPIVersion = [], v_ListMeta = (), v_Items = Some 3\<rparr>)"
  "okList tableView sampleHeap \<lparr>v_ListKind = [], v_ListAPIVersion = [], v_ListMeta = (), v_Items = Some 3\<rparr>"
  by (auto simp: wfHeap_def sampleHeap_def okFsc_def okSpec_def okStatus_def okList_def sampleFscV_def tableView_def
      zeroFsc_def zeroSpec_def zeroStatus_def split: if_splits)

text \<open>
  C35: The deep copy of a \<^verbatim>\<open>FlashSystemCluster\<close> through \<^verbatim>\<open>DeepCopyObject\<close> is a new object that reads as the original
  does, with a nil conditions slice copied as nil, and the two are apart: no cell that existed has changed, a later
  change of the cells of the copy does not show in the original, nor a change of the original's cells in the copy.
  For a nil pointer the result is the nil interface.
\<close>

theorem Fsc_DeepCopyObject_correct:
  assumes "meta_laws D V" and "wfHeap h" and "cells h a = Some (CFsc v)" and "okFsc V h v"
  shows "run_state (Fsc_DeepCopyObject D None) h = (NilObject, h) \<and>
    (case run_state (Fsc_DeepCopyObject D (Some a)) h of (r, h') \<Rightarrow>
      (\<exists>b v'. r = FscObject b \<and> cells h b = None \<and> cells h' b = Some (CFsc v') \<and> fscCopy V h v h' v' \<and>
        (\<forall>c. cells h c \<noteq> None \<longrightarrow> cells h' c = cells h c) \<and>
        (\<forall>k. onlyIn V (insert b (fscRefs v')) h' k \<longrightarrow> cells k a = Some (CFsc v) \<and> readFsc V k v = readFsc V h v) \<and>
        (\<forall>k. onlyIn V (insert a (fscRefs v)) h' k \<longrightarrow> cells k b = Some (CFsc v') \<and> readFsc V k v' = readFsc V h v)))"
proof (intro conjI)
  show "run_state (Fsc_DeepCopyObject D None) h = (NilObject, h)"
    by (simp add: Fsc_DeepCopyObject_def Fsc_DeepCopy_def deepCopy_def)
  show "case run_state (Fsc_DeepCopyObject D (Some a)) h of (r, h') \<Rightarrow>
      (\<exists>b v'. r = FscObject b \<and> cells h b = None \<and> cells h' b = Some (CFsc v') \<and> fscCopy V h v h' v' \<and>
        (\<forall>c. cells h c \<noteq> None \<longrightarrow> cells h' c = cells h c) \<and>
        (\<forall>k. onlyIn V (insert b (fscRefs v')) h' k \<longrightarrow> cells k a = Some (CFsc v) \<and> readFsc V k v = readFsc V h v) \<and>
        (\<forall>k. onlyIn V (insert a (fscRefs v)) h' k \<longrightarrow> cells k b = Some (CFsc v') \<and> readFsc V k v' = readFsc V h v))"
    unfolding Fsc_DeepCopyObject_def wpre_def [symmetric] wp_bind
  proof (rule wp_mono [OF wp_Fsc_DeepCopy [OF assms]], goal_cases)
    case (1 r h')
    then obtain b v' where r: "r = Some b" and h': "onlyIn V {} h h'" "lim h \<le> b" "cells h' b = Some (CFsc v')" "fscCopy V h v h' v'"
      by blast
    have "cells h b = None" using assms(2) h'(2) by (force simp: wfHeap_def)
    moreover have "cells h' c = cells h c" if "cells h c \<noteq> None" for c
      using that onlyIn_keeps [OF h'(1) assms(2)] by auto
    ultimately show ?case
      using r h'(3,4) Fsc_copy_apart [OF assms(2-4) h'] by (simp add: wp_ret)
  qed
qed

theorem Fsc_DeepCopyObject_correct_witness:
  "case run_state (Fsc_DeepCopyObject tableMachinery (Some 2)) sampleHeap of (r, h') \<Rightarrow>
     (\<exists>b v'. r = FscObject b \<and> cells sampleHeap b = None \<and> cells h' b = Some (CFsc v') \<and>
       readFsc tableView h' v' = readFsc tableView sampleHeap sampleFscV \<and> cells h' 2 = Some (CFsc sampleFscV))"
  using Fsc_DeepCopyObject_correct [OF table_laws sampleHeap_ok(1,3,2)] sampleHeap_ok(3)
  by (force simp: fscCopy_def split: prod.splits)

text \<open>
  The deep copy of a \<^verbatim>\<open>FlashSystemClusterList\<close>: a new list with the same type and list metadata, whose items are,
  in order, deep copies of the original's items in a new array, or nil where those of the original are nil. No cell
  that existed has changed, and whatever is done to those later, the copy stays.
\<close>

theorem List_DeepCopyObject_correct:
  assumes "meta_laws D V" and "wfHeap h" and "cells h a = Some (CList v)" and "okList V h v"
  shows "run_state (List_DeepCopyObject D None) h = (NilObject, h) \<and>
    (case run_state (List_DeepCopyObject D (Some a)) h of (r, h') \<Rightarrow>
      (\<exists>b v'. r = FscListObject b \<and> cells h b = None \<and> cells h' b = Some (CList v') \<and> listCopy V h v h' v' \<and>
        (\<forall>c. cells h c \<noteq> None \<longrightarrow> cells h' c = cells h c) \<and>
        (\<forall>k. onlyIn V {..<lim h} h' k \<longrightarrow> cells k b = Some (CList v') \<and> listCopy V h v k v')))"
proof (intro conjI)
  show "run_state (List_DeepCopyObject D None) h = (NilObject, h)"
    by (simp add: List_DeepCopyObject_def List_DeepCopy_def deepCopy_def)
  show "case run_state (List_DeepCopyObject D (Some a)) h of (r, h') \<Rightarrow>
      (\<exists>b v'. r = FscListObject b \<and> cells h b = None \<and> cells h' b = Some (CList v') \<and> listCopy V h v h' v' \<and>
        (\<forall>c. cells h c \<noteq> None \<longrightarrow> cells h' c = cells h c) \<and>
        (\<forall>k. onlyIn V {..<lim h} h' k \<longrightarrow> cells k b = Some (CList v') \<and> listCopy V h v k v'))"
    unfolding List_DeepCopyObject_def wpre_def [symmetric] wp_bind
  proof (rule wp_mono [OF wp_List_DeepCopy [OF assms]], goal_cases)
    case (1 r h')
    then obtain b v' where r: "r = Some b" and h': "onlyIn V {} h h'" "lim h \<le> b" "cells h' b = Some (CList v')" "listCopy V h v h' v'"
      by blast
    have "cells h b = None" using assms(2) h'(2) by (force simp: wfHeap_def)
    moreover have "cells h' c = cells h c" if "cells h c \<noteq> None" for c
      using that onlyIn_keeps [OF h'(1) assms(2)] by auto
    moreover have "cells k b = Some (CList v')" if "onlyIn V {..<lim h} h' k" for k
      using onlyIn_cell [OF that onlyIn_wf [OF h'(1) assms(2)] h'(3)] h'(2) by simp
    ultimately show ?case
      using r h'(3,4) listCopy_after [OF h'(4) assms(2) h'(1)] by (simp add: wp_ret)
  qed
qed

theorem List_DeepCopyObject_correct_witness:
  "case run_state (List_DeepCopyObject tableMachinery (Some 4)) sampleHeap of (r, h') \<Rightarrow>
     (\<exists>b v'. r = FscListObject b \<and> cells sampleHeap b = None \<and> cells h' b = Some (CList v') \<and>
       listCopy tableView sampleHeap \<lparr>v_ListKind = [], v_ListAPIVersion = [], v_ListMeta = (), v_Items = Some 3\<rparr> h' v')"
  using List_DeepCopyObject_correct [OF table_laws sampleHeap_ok(1,4,5)]
  by (force split: prod.splits)

end
