(* ===== verification/DataHash.thy ===== *)
theory DataHash
  imports K8sutil "HOL-Library.Word"
begin

text \<open>
  \<^verbatim>\<open>CalculateDataHash\<close> of \<^verbatim>\<open>controllers/util/k8sutil.go\<close>: the SHA-256 digest of a JSON encoding, in hexadecimal. The
  encoding of an arbitrary Go value, which \<^verbatim>\<open>encoding/json\<close> finds by reflection, is an argument.
\<close>

unbundle bit_operations_syntax

section \<open>SHA-256\<close>

type_synonym hashState = "32 word list"

text \<open>
  The standard library writes the constants of the algorithm as literals. Here they are what the standard says they
  are: the first 32 bits of the fractions of the square and cube roots of the first primes. \<open>intRoot\<close> finds the
  integer part of a root bit by bit; \<open>word_of_int\<close> drops the integer part of the root.
\<close>

fun intRoot :: "nat \<Rightarrow> nat \<Rightarrow> int \<Rightarrow> int \<Rightarrow> int" where
  "intRoot k 0 n acc = acc"
| "intRoot k (Suc b) n acc = intRoot k b n (if (acc + 2 ^ b) ^ k \<le> n then acc + 2 ^ b else acc)"

definition rootFraction :: "nat \<Rightarrow> int \<Rightarrow> 32 word" where
  "rootFraction k p = word_of_int (intRoot k 36 (p * 2 ^ (32 * k)) 0)"

definition primesBelow :: "int \<Rightarrow> int list" where
  "primesBelow n = filter (\<lambda>p. list_all (\<lambda>d. p mod d \<noteq> 0) [2..p - 1]) [2..n - 1]"

definition initialHash :: hashState where
  "initialHash = map (rootFraction 2) (primesBelow 20)"

definition roundConstants :: "32 word list" where
  "roundConstants = map (rootFraction 3) (primesBelow 312)"

text \<open>The message, a one bit, zeros, and the length in bits as a 64-bit number fill whole blocks of 64 bytes.\<close>

definition bytesOf :: "string \<Rightarrow> 8 word list" where
  "bytesOf s = map of_char s"

definition lengthBytes :: "64 word \<Rightarrow> 8 word list" where
  "lengthBytes n = map (\<lambda>i. ucast (drop_bit (8 * (7 - i)) n)) [0..<8]"

definition padded :: "8 word list \<Rightarrow> 8 word list" where
  "padded m = m @ 128 # replicate ((119 - length m mod 64) mod 64) 0 @ lengthBytes (of_nat (8 * length m))"

fun wordsOf :: "8 word list \<Rightarrow> 32 word list" where
  "wordsOf (a # b # c # d # bs) =
     (push_bit 24 (ucast a) OR push_bit 16 (ucast b) OR push_bit 8 (ucast c) OR ucast d) # wordsOf bs"
| "wordsOf _ = []"

definition rotateRight :: "nat \<Rightarrow> 32 word \<Rightarrow> 32 word" where
  "rotateRight k x = (drop_bit k x OR push_bit (32 - k) x)"

text \<open>The message schedule: 64 words from the 16 of a block; the words are kept latest first.\<close>

definition nextWord :: "32 word list \<Rightarrow> 32 word" where
  "nextWord ws =
     (let x = ws ! 1; y = ws ! 14 in
      (rotateRight 17 x XOR rotateRight 19 x XOR drop_bit 10 x) + ws ! 6 +
      (rotateRight 7 y XOR rotateRight 18 y XOR drop_bit 3 y) + ws ! 15)"

fun expand :: "nat \<Rightarrow> 32 word list \<Rightarrow> 32 word list" where
  "expand 0 ws = ws"
| "expand (Suc n) ws = expand n (nextWord ws # ws)"

fun round' :: "hashState \<Rightarrow> 32 word \<times> 32 word \<Rightarrow> hashState" where
  "round' [a, b, c, d, e, f, g, h] (k, w) =
     (let t1 = h + (rotateRight 6 e XOR rotateRight 11 e XOR rotateRight 25 e) + ((e AND f) XOR (NOT e AND g)) + k + w;
          t2 = (rotateRight 2 a XOR rotateRight 13 a XOR rotateRight 22 a) + ((a AND b) XOR (a AND c) XOR (b AND c)) in
      [t1 + t2, a, b, c, d + t1, e, f, g])"
| "round' hs kw = hs"

definition block :: "hashState \<Rightarrow> 32 word list \<Rightarrow> hashState" where
  "block hs ws = map2 (+) hs (foldl round' hs (zip roundConstants (rev (expand 48 (rev ws)))))"

fun blocks :: "nat \<Rightarrow> hashState \<Rightarrow> 32 word list \<Rightarrow> hashState" where
  "blocks 0 hs ws = hs"
| "blocks (Suc n) hs ws = blocks n (block hs (take 16 ws)) (drop 16 ws)"

definition sha256 :: "8 word list \<Rightarrow> 32 word list" where
  "sha256 m = (let p = padded m in blocks (length p div 64) initialHash (wordsOf p))"

definition digestBytes :: "32 word list \<Rightarrow> 8 word list" where
  "digestBytes ws = concat (map (\<lambda>w. map (\<lambda>i. ucast (drop_bit (8 * (3 - i)) w)) [0..<4]) ws)"

section \<open>\<^verbatim>\<open>hex.EncodeToString\<close>\<close>

definition hexDigit :: "nat \<Rightarrow> char" where
  "hexDigit n = ''0123456789abcdef'' ! n"

definition EncodeToString :: "8 word list \<Rightarrow> string" where
  "EncodeToString bs = concat (map (\<lambda>b. [hexDigit (unat b div 16), hexDigit (unat b mod 16)]) bs)"

definition CalculateDataHash :: "('a \<Rightarrow> goerr + string) \<Rightarrow> 'a \<Rightarrow> goerr + string" where
  "CalculateDataHash marshal dataObject =
     (case marshal dataObject of
        Inl e \<Rightarrow> Inl e
      | Inr json \<Rightarrow> Inr (EncodeToString (digestBytes (sha256 (bytesOf json)))))"

section \<open>What a hash identifies\<close>

lemma length_expand: "length (expand n ws) = n + length ws"
  by (induction n ws rule: expand.induct) simp_all

lemma length_round': "length hs = 8 \<Longrightarrow> length (round' hs kw) = 8"
  by (induction hs kw rule: round'.induct) (simp_all add: Let_def)

lemma length_rounds: "length hs = 8 \<Longrightarrow> length (foldl round' hs kws) = 8"
  by (induction kws arbitrary: hs) (simp_all add: length_round')

lemma length_blocks: "length hs = 8 \<Longrightarrow> length (blocks n hs ws) = 8"
  by (induction n hs ws rule: blocks.induct) (simp_all add: block_def length_rounds)

lemma length_initialHash: "length initialHash = 8"
proof -
  have "length (primesBelow 20) = 8" by code_simp
  then show ?thesis by (simp add: initialHash_def)
qed

lemma length_sha256: "length (sha256 m) = 8"
  by (simp add: sha256_def Let_def length_blocks length_initialHash)

lemma padded_blocks: "64 dvd length (padded m)"
proof -
  have "length (padded m) = length m + 1 + (119 - length m mod 64) mod 64 + 8" by (simp add: padded_def lengthBytes_def)
  moreover have "length m = 64 * (length m div 64) + length m mod 64" by simp
  moreover have "length m mod 64 < 64" by simp
  ultimately obtain q r where l: "length (padded m) = 64 * q + r + 1 + (119 - r) mod 64 + 8" and r: "r < 64" by metis
  show ?thesis
  proof (cases "r < 56")
    case True
    then have "(119 - r) mod 64 = 55 - r" by (subst mod_if) simp
    with l True have "length (padded m) = 64 * (q + 1)" by simp
    then show ?thesis by simp
  next
    case False
    with l r have "length (padded m) = 64 * (q + 2)" by simp
    then show ?thesis by simp
  qed
qed

lemma wordsOf_digestBytes: "wordsOf (digestBytes ws) = ws"
proof (induction ws)
  case (Cons w ws)
  have "push_bit 24 (ucast (ucast (drop_bit 24 w) :: 8 word)) OR push_bit 16 (ucast (ucast (drop_bit 16 w) :: 8 word)) OR
      push_bit 8 (ucast (ucast (drop_bit 8 w) :: 8 word)) OR ucast (ucast w :: 8 word) = (w :: 32 word)"
    by (rule bit_word_eqI, auto simp: bit_simps) (case_tac "16 \<le> n"; simp)+
  with Cons show ?case by (simp add: digestBytes_def upt_rec)
qed (simp add: digestBytes_def)

lemma hexDigit_inject: "m < 16 \<Longrightarrow> n < 16 \<Longrightarrow> hexDigit m = hexDigit n \<longleftrightarrow> m = n"
proof -
  have "list_all (\<lambda>m. list_all (\<lambda>n. hexDigit m = hexDigit n \<longrightarrow> m = n) [0..<16]) [0..<16]" by code_simp
  then show "m < 16 \<Longrightarrow> n < 16 \<Longrightarrow> hexDigit m = hexDigit n \<longleftrightarrow> m = n" unfolding list_all_iff by auto
qed

lemma EncodeToString_inject: "EncodeToString a = EncodeToString b \<longleftrightarrow> a = b"
proof (induction a arbitrary: b)
  case Nil
  then show ?case by (cases b) (auto simp: EncodeToString_def)
next
  case (Cons x a)
  show ?case
  proof (cases b)
    case (Cons y b')
    have "unat x < 256" "unat y < 256" using unsigned_less [of x] unsigned_less [of y] by simp_all
    then have "hexDigit (unat x div 16) = hexDigit (unat y div 16) \<and> hexDigit (unat x mod 16) = hexDigit (unat y mod 16) \<longleftrightarrow> unat x = unat y"
      by (simp add: hexDigit_inject) (metis div_mult_mod_eq)
    with Cons.IH [of b'] Cons show ?thesis by (simp add: EncodeToString_def word_unat_eq_iff conj_assoc [symmetric])
  qed (simp add: EncodeToString_def)
qed

definition isHexDigit :: "char \<Rightarrow> bool" where
  "isHexDigit c \<longleftrightarrow> c \<in> set ''0123456789abcdef''"

lemma EncodeToString_chars: "length (EncodeToString bs) = 2 * length bs \<and> list_all isHexDigit (EncodeToString bs)"
proof (induction bs)
  case (Cons b bs)
  have "unat b < 256" using unsigned_less [of b] by simp
  moreover have "isHexDigit (hexDigit n)" if "n < 16" for n
    unfolding isHexDigit_def hexDigit_def using that by (intro nth_mem) simp
  ultimately show ?case using Cons by (simp add: EncodeToString_def)
qed (simp add: EncodeToString_def)

lemma CalculateDataHash_identifies:
  "case (CalculateDataHash marshal x, CalculateDataHash marshal y) of
     (Inr a, Inr b) \<Rightarrow> length a = 64 \<and> list_all isHexDigit a \<and>
       (\<exists>i j. marshal x = Inr i \<and> marshal y = Inr j \<and> (a = b \<longleftrightarrow> sha256 (bytesOf i) = sha256 (bytesOf j)))
   | (Inl e, _) \<Rightarrow> marshal x = Inl e
   | (_, Inl e) \<Rightarrow> marshal y = Inl e"
proof -
  have inj: "digestBytes u = digestBytes v \<longleftrightarrow> u = v" for u v by (metis wordsOf_digestBytes)
  have "length (digestBytes (sha256 m)) = 32" for m
  proof -
    have "length (digestBytes ws) = 4 * length ws" for ws by (induction ws) (simp_all add: digestBytes_def)
    then show ?thesis by (simp add: length_sha256)
  qed
  then show ?thesis
    using EncodeToString_chars
    by (simp add: CalculateDataHash_def EncodeToString_inject inj split: sum.split)
qed

end
