(* ===== verification/Divergences.thy ===== *)
theory Divergences
  imports ScSpec PvSpec FscLife
begin

text \<open>
  Places where the code does not do what it means to, each as a statement about the model. Those that belong to the
  specification of a component are proved there.
\<close>

section \<open>The FlashSystemCluster controller never requeues a conflict\<close>

text \<open>
  The deferred function assigns to variables that are not the results: whatever happens, the pass asks for no
  delayed requeue, and an error of the pass is returned as it is.
\<close>

lemma wp_bind_any: "(\<And>a t. wpre (f a) Q t) \<Longrightarrow> wpre (State_Monad.bind m f) Q s"
  unfolding wp_bind by (rule wp_any)

lemma Reconcile_never_requeues: "fst (run_state (Reconcile E rq) s) \<noteq> Ok \<lparr>RequeueAfter = Some d\<rparr>"
proof -
  let ?Q = "\<lambda>r t. r \<noteq> Ok \<lparr>RequeueAfter = Some d\<rparr>"
  have ends: "wpre (case x of Inl e \<Rightarrow> ret (Err e) | Inr _ \<Rightarrow> ret (Ok emptyResult)) ?Q t" for x :: "goerr + 'c" and t :: "'a st"
    by (simp add: wp_ret emptyResult_def split: sum.split)
  have gone: "wpre (removeFscFromConfigMap E n \<bind> (\<lambda>x. case x of Inl e \<Rightarrow> ret (Err e) | Inr _ \<Rightarrow> ret (Ok emptyResult))) ?Q t" for n t
    by (rule wp_bind_any) (rule ends)
  have upd: "wpre (case snd y of Panic p \<Rightarrow> ret (Panic p)
      | Err e \<Rightarrow> statusUpdateAs E asFsc (OFsc (fst y)) \<bind> (\<lambda>st. ret (Err e))
      | Ok _ \<Rightarrow> statusUpdateAs E asFsc (OFsc (fst y)) \<bind> (\<lambda>st. case st of Inl e \<Rightarrow> ret (Err e) | Inr _ \<Rightarrow> ret (Ok emptyResult))) ?Q t"
    for y :: "FlashSystemCluster \<times> unit res" and t
    by (cases "snd y") (auto simp: wp_ret intro!: wp_bind_any ends)
  have "wpre (Reconcile E rq) ?Q s"
    unfolding Reconcile_def
  proof (rule wp_bind_any, goal_cases)
    case (1 r t)
    show ?case by (cases r) (auto simp: wp_ret gone intro!: wp_bind_any upd)
  qed
  then show ?thesis by (simp add: wpre_def split: prod.splits)
qed

section \<open>An empty pool name ends the loop\<close>

lemma updateEntries_empty_pool:
  "mget pools k = Some [] \<Longrightarrow> updateEntries E n False pools cm (k # ks) = ret (Ok ())"
  by simp

section \<open>The namespaces of namespaces\<close>

text \<open>A \<^verbatim>\<open>Namespace\<close> lives in no namespace, so what is collected are empty strings.\<close>

lemma GetAllNamespace_empty:
  assumes laws: "api_laws E v"
    and global: "\<And>ns n x. v (world s) (KNamespace, ns, n) = Some x \<Longrightarrow> ns = []"
    and run: "run_state (GetAllNamespace E) s = (Inr names, t)"
  shows "set names \<subseteq> {[]}"
proof -
  have "wpre (GetAllNamespace E) (\<lambda>r t. \<forall>names. r = Inr names \<longrightarrow> set names \<subseteq> {[]}) s"
    unfolding GetAllNamespace_def wp_bind
  proof (rule wp_listAs_laws [OF laws], goal_cases)
    case (2 xs w)
    have "om_Namespace (ns_Meta n) = []" if n: "x \<in> set xs" "asNamespace x = Some n" for x n
    proof -
      from n(2) have x: "x = ONamespace n" by (cases x) auto
      with 2(3) [of x] n(1) have "v (world s) (keyOf x) = Some x" by simp
      with x global show ?thesis by (simp add: keyOf_def)
    qed
    with 2(2) show ?case by (fastforce simp: wp_ret list_all_iff)
  qed (simp add: wp_ret)
  from wp_runD [OF this run] show ?thesis by simp
qed

section \<open>Volumes without a claim or a class\<close>

text \<open>A volume whose claim names no storage class, or that has no claim, never gets an address: the pass fails or panics.\<close>

lemma getPVManagementAddress_no_class:
  assumes laws: "api_laws E v"
    and pvc: "\<And>ref x. pv_ClaimRef pv = Some ref \<Longrightarrow> v (world s) (KPvc, ref_Namespace ref, ref_Name ref) = Some (OPvc x) \<Longrightarrow>
      pvc_StorageClassName x = None"
  shows "wpre (getPVManagementAddress E pv) (\<lambda>r t. \<forall>a. r \<noteq> Ok a) s"
proof (cases "pv_ClaimRef pv")
  case None
  then show ?thesis by (simp add: getPVManagementAddress_def wp_ret)
next
  case (Some ref)
  show ?thesis
    unfolding getPVManagementAddress_def Some option.case wp_bind
  proof (rule wp_getAs_laws [OF laws], goal_cases)
    case (2 x y w)
    then have "x = OPvc y" by (cases x) auto
    with 2 pvc [OF Some] show ?case by (simp add: wp_ret)
  qed (simp add: wp_ret)
qed

text \<open>On a server that answers it panics.\<close>

definition looseClaim :: PersistentVolumeClaim where
  "looseClaim = \<lparr>pvc_Meta = mkMeta ''claim'' ''ns'', pvc_StorageClassName = None\<rparr>"

lemma getPVManagementAddress_panics:
  assumes "pv_ClaimRef pv = Some ref" "ref_Namespace ref = ''ns''" "ref_Name ref = ''claim''"
  shows "fst (run_state (getPVManagementAddress storeEnv pv) (demoState [OPvc looseClaim])) = Panic ''nil pointer dereference''"
proof -
  have got: "fst (run_state (getAs storeEnv asPvc KPvc ''ns'' ''claim'') (demoState [OPvc looseClaim])) = Inr looseClaim"
    by code_simp
  then obtain t where "run_state (getAs storeEnv asPvc KPvc ''ns'' ''claim'') (demoState [OPvc looseClaim]) = (Inr looseClaim, t)"
    by (metis prod.collapse)
  with assms show ?thesis by (simp add: getPVManagementAddress_def looseClaim_def)
qed

end
