(* ===== verification/Spec2Isabelle.thy ===== *)
theory Spec2Isabelle
  imports JsonFuel FscPools FscLife FscRest StatusSpec PvSpec PoolTypes EdgeSpec PoolFiles Manager
    LostUpdate ScConverge DeepCopy DataHash Divergences
begin

text \<open>
  A verification library of the ibm-storage-odf-operator, the Kubernetes operator that connects IBM
  FlashSystem storage to OpenShift Data Foundation.

  \<^bold>\<open>The program.\<close> A FlashSystemCluster (FSC) names a storage system by its secret. The controller of FSCs
  (\<^verbatim>\<open>controllers/flashsystemcluster_controller.go\<close>) brings the exporter, its service, deployment and service
  monitor, Prometheus rules, a default storage class and the CSI driver to the cluster, and reports
  conditions and a phase in the status. The watcher of storage classes
  (\<^verbatim>\<open>controllers/storageclass/storageclass_controller.go\<close>) and the controller of FSCs share the pools ConfigMap:
  one entry per FSC, a JSON text with the secret of the cluster and the pool of each storage class
  on it, which the exporter reads from a mounted volume. The watcher of volumes
  (\<^verbatim>\<open>controllers/persistentvolume/persistentvolume_controller.go\<close>) labels each volume with its FSC. Both watchers
  find the FSC of an object by comparing management addresses found in secrets. A fourth
  controller (\<^verbatim>\<open>controllers/clusterversion_controller.go\<close>) installs the console plugin of \<^verbatim>\<open>console/console.go\<close>, and
  \<^verbatim>\<open>main.go\<close> wires everything together.

  \<^bold>\<open>The model.\<close> An operation of the program is a function in the state monad of HOL-Library over a record \<open>st\<close> (\<open>Client\<close>):
  the world outside, a history of the API calls made (which no definition reads), the flag
  \<^verbatim>\<open>IsCSICRCreated\<close> of the reconciler and the package variable \<^verbatim>\<open>watchNamespace\<close>. Everything outside the sources is one
  parameter, the record \<open>env\<close>: the API server behind the clients, the clock, the environment variables, the
  file system, the YAML and JSON decoders of the apimachinery. An error is a value of the type \<open>goerr\<close>, a
  function that can panic returns a \<open>res\<close> (\<open>Ok\<close>, \<open>Err\<close> or \<open>Panic\<close>), a Go map is nil or a finite table
  in the order in which it is ranged over (\<open>gomap\<close>, \<open>Prelude\<close>). Definitions keep the names of the source;
  where a name of the source occurs in several packages or clashes with a constant of HOL,
  it carries the package as a prefix (\<open>ScReconcile\<close>, \<open>PvReconcile\<close>, \<open>CvReconcile\<close>, \<open>consoleIsContain\<close>).

  \<^bold>\<open>The theories.\<close>
  \<^item> \<open>Prelude\<close> (Go maps, results, the rules of the weakest-precondition calculus), \<open>Gostd\<close> (string functions of
    the standard library), \<open>Filepath\<close> (\<^verbatim>\<open>path/filepath\<close>), \<open>Json\<close>, \<open>JsonCodec\<close> and \<open>JsonFuel\<close> (\<^verbatim>\<open>encoding/json\<close> at the types
    at which the sources use it, that an entry of the pools ConfigMap is read back as it was written, and that
    the fuel of the parser is enough).
  \<^item> \<open>Types\<close>: \<^verbatim>\<open>api/v1alpha1\<close>, and the Kubernetes objects reduced to the fields that the sources touch. \<open>DeepCopy\<close>: the
    generated \<^verbatim>\<open>zz_generated.deepcopy.go\<close> on a heap of cells, where pointers and slices can be shared; the other
    theories pass objects by value, as a deep copy allows.
  \<^item> \<open>Client\<close>: requests, the typed client, and \<open>issues\<close>, the calls an operation can make. \<open>Apiserver\<close>: the predicate
    \<open>api_laws\<close> that states the documented behaviour of a server, and rules under it. \<open>Sample\<close>: a server that
    satisfies it, on which the witnesses run.
  \<^item> \<open>Conditions\<close>, \<open>K8sutil\<close>, \<open>DataHash\<close>, \<open>Poolutil\<close>, \<open>Safeio\<close>, \<open>PoolFiles\<close>: the files of \<^verbatim>\<open>controllers/util\<close>. \<open>Exporter\<close>, \<open>Driver\<close>:
    \<^verbatim>\<open>controllers/exporter.go\<close> and \<^verbatim>\<open>controllers/driver.go\<close>.
  \<^item> \<open>FscController\<close>, \<open>FscReconcile\<close>, \<open>ScController\<close>, \<open>PvController\<close>, \<open>OdfConsole\<close>: the four controllers, each handler and step
    whole. \<open>Manager\<close>: the watches they register (the \<^verbatim>\<open>SetupWithManager\<close> functions) and the process of \<^verbatim>\<open>main.go\<close>, whose
    command line \<open>Flags\<close> parses as Go's \<^verbatim>\<open>flag\<close> package does.
  \<^item> Specifications: \<open>FscSpec\<close> (status and calls of a pass), \<open>FscPools\<close> and \<open>FscQuiet\<close> (the pools ConfigMap, steps that
    come to rest), \<open>FscRest\<close> (a cluster in place is left alone), \<open>FscEstablish\<close> (what a clean pass has established), \<open>FscLife\<close> (deletion), \<open>StatusSpec\<close> (conditions and
    reports), \<open>ExporterSpec\<close> (the exporter objects converge), \<open>ScSpec\<close> and \<open>ScTopology\<close> (the pools of a storage
    class), \<open>PvSpec\<close> (the label of a volume), \<open>EdgeSpec\<close> (event filter, panics of the watcher), \<open>Outcomes\<close>,
    \<open>ClassOutcome\<close> and \<open>FscOutcome\<close> (every outcome of a whole pass for the pools ConfigMap, failing ones included),
    \<open>Registry\<close> (the three controllers refine one abstract registry), \<open>PoolTypes\<close> (no pass panics on well-typed
    data), \<open>ScConverge\<close> (repeated passes settle), \<open>Revisions\<close>, \<open>SampleWriters\<close> and \<open>LostUpdate\<close> (other writers
    during a pass), \<open>Divergences\<close> (places where the code does not do what it means to).

  \<^bold>\<open>The interfaces\<close> are locales, interpreted on the definitions of the code: \<open>condition_store\<close> (a list of conditions),
  \<open>slice_set\<close> and \<open>slice_set_del\<close> (a slice used as a set: finalizers, console plugins), \<open>content_codec\<close> (writing and
  reading an entry of the ConfigMap) and its extension \<open>canonical_codec\<close>, \<open>repairer\<close> and its extension \<open>placed\<close> (an exporter object is created,
  compared and repaired).

  \<^bold>\<open>What is shown.\<close> Safety, for every answer of the server: which calls a live and a deleting pass may make, that the
  finalizer goes only after the default storage class, that the watchers write only the ConfigMap or
  the volume they read. Functional behaviour, on a server that obeys \<open>api_laws\<close>: what a pass that ends without
  an error has made of the cluster, and what status it reports on success and on failure. Composition: \<open>Registry\<close>
  states the pools ConfigMap as an abstract registry and shows that in every history of whole passes of the
  controllers, settled or failed at any point, in any order and with changes by others in between, the
  entries follow its steps. A step of a failed pass is all of the work, a part of it or nothing. No entry is
  stale, invented or left behind by a settled removal. \<open>FscOutcome\<close> gives the frame rule these proofs share: what
  the steps that do not touch a ConfigMap cannot falsify holds up to the one step that does, and what that step
  establishes holds to the end. \<open>PoolTypes\<close> uses it for types: on data of the right shape no pass
  panics, and the entries keep that shape whatever the outcome. Concurrency: on a server that lets others write between any two
  calls (\<open>rev_laws\<close>), no pass of either controller loses an update of the ConfigMap. Liveness: passes over a storage
  class settle after at most one pass per entry that has to be rewritten and one more, on a server that
  answers (\<open>reliable\<close>). Sharing: a deep copy reads like its original and has no cell in common with it. Confinement of file access, round trips of the entries,
  bounds of the port conversion, termination of the search for the module root, and the branches on which
  the code panics or reports a spurious error.

  \<^bold>\<open>Assumptions and bounds.\<close> \<open>api_laws\<close> describes a server to which no other client writes during one pass; between
  passes the histories of \<open>Registry\<close> let others write. It leaves open which requests fail and what an
  unacknowledged write has done; \<open>atomic_laws\<close>, which the statements on failed passes add, says of such a write to an
  object that it was applied whole or not at all. Of the content of an object it speaks only as far as a property
  needs it. The recursion of the JSON parser carries fuel, twice the length of the text and two; \<open>parseJson_fuel\<close>
  shows that more fuel never changes the result. Go's decoder
  also matches field names up to the case of letters; the model does so for ASCII, and it has no limit
  on nesting. Go's order of iteration over a map is the order of the table, which every statement
  quantifies over. The clock and a file may change between two reads of one operation only as far as
  the state of the world does. \<^verbatim>\<open>controllerutil.CreateOrUpdate\<close> and \<^verbatim>\<open>controllerutil.SetControllerReference\<close> are arguments of
  the definitions that call them, the manager of controller-runtime an argument of \<open>process\<close> and \<open>main\<close>. The deep
  copies of apimachinery that the generated ones call obey \<open>meta_laws\<close>: they read the same and reach new cells only.

  \<^bold>\<open>Not modelled.\<close> Logging; of the flags of other packages only how they are parsed; of the health probes only that
  adding them can fail; the JSON encoding by reflection that \<^verbatim>\<open>CalculateDataHash\<close> hashes, which is an argument; the
  construction of the client-go clients, which is part of the parameter; \<^verbatim>\<open>version/version.go\<close>, a constant that
  nothing in the program reads.
\<close>

end
